(* ===== verification/Swapd_Prelude.thy ===== *)
theory Swapd_Prelude
  imports Main "HOL-Library.Word"
begin

text \<open>
  Shared vocabulary of the development: the machine integers of the Rust code and the
  integer methods it calls, the result-and-state operations in which fallible, effectful
  functions are written, lists of calls, and the statements and transactions of a database.

  An operation over a state \<open>'w\<close> that may return an error \<open>'e\<close> is a function
  \<open>'w \<Rightarrow> ('e + 'a) \<times> 'w\<close>. The state is returned on the error branch as well: an early
  return through the question mark operator keeps the effects that came before it.
\<close>

named_theorems op_defs "definitions of the operation combinators"
named_theorems rust_int "facts on the integer methods"
named_theorems sql_run "running statements that do not fail"

section \<open>Machine integers\<close>

type_synonym u8 = "8 word"
type_synonym u16 = "16 word"
type_synonym u32 = "32 word"
type_synonym u64 = "64 word"
type_synonym i32 = "32 word"  \<comment> \<open>two's complement, read by \<open>sint\<close>\<close>
type_synonym i64 = "64 word"  \<comment> \<open>two's complement, read by \<open>sint\<close>\<close>
type_synonym b32 = "256 word" \<comment> \<open>an array of 32 bytes, first byte most significant\<close>
type_synonym bytes = "8 word list"

definition saturating_add :: "'a::len word \<Rightarrow> 'a word \<Rightarrow> 'a word" where
  "saturating_add a b = (if unat a + unat b < 2 ^ LENGTH('a) then a + b else - 1)"

definition saturating_sub :: "'a::len word \<Rightarrow> 'a word \<Rightarrow> 'a word" where
  "saturating_sub a b = (if b \<le> a then a - b else 0)"

definition saturating_mul :: "'a::len word \<Rightarrow> 'a word \<Rightarrow> 'a word" where
  "saturating_mul a b = (if unat a * unat b < 2 ^ LENGTH('a) then a * b else - 1)"

definition checked_add :: "'a::len word \<Rightarrow> 'a word \<Rightarrow> 'a word option" where
  "checked_add a b = (if unat a + unat b < 2 ^ LENGTH('a) then Some (a + b) else None)"

definition div_ceil :: "'a::len word \<Rightarrow> 'a word \<Rightarrow> 'a word" where
  "div_ceil a b = a div b + (if a mod b = 0 then 0 else 1)"

text \<open>\<open>i64::saturating_sub\<close>, and the checked conversions \<open>try_into\<close> the code uses.\<close>

definition i64_max :: i64 where "i64_max = word_of_int (2 ^ 63 - 1)"

definition i64_saturating_sub :: "i64 \<Rightarrow> i64 \<Rightarrow> i64" where
  "i64_saturating_sub a b = word_of_int (max (- (2 ^ 63)) (min (2 ^ 63 - 1) (sint a - sint b)))"

definition try_i64_of_u64 :: "u64 \<Rightarrow> i64 option" where
  "try_i64_of_u64 x = (if unat x < 2 ^ 63 then Some x else None)"

definition try_i32_of_i64 :: "i64 \<Rightarrow> i32 option" where
  "try_i32_of_i64 x = (if - (2 ^ 31) \<le> sint x \<and> sint x < 2 ^ 31 then Some (ucast x) else None)"

definition try_u32_of_u64 :: "u64 \<Rightarrow> u32 option" where
  "try_u32_of_u64 x = (if unat x < 2 ^ 32 then Some (ucast x) else None)"

text \<open>Fixed-size byte arrays: \<open>to_vec\<close>, and \<open>try_into\<close> / \<open>from_slice\<close> back.\<close>

definition of_b32 :: "b32 \<Rightarrow> bytes" where
  "of_b32 w = map (\<lambda>i. word_of_nat (unat w div 256 ^ (31 - i))) [0..<32]"

definition to_b32 :: "bytes \<Rightarrow> b32 option" where
  "to_b32 bs =
     (if length bs = 32 then Some (word_of_nat (foldl (\<lambda>a b. a * 256 + unat b) 0 bs)) else None)"

lemma unat_saturating_add [rust_int]:
  "unat (saturating_add a (b::'a::len word)) = min (unat a + unat b) (2 ^ LENGTH('a) - 1)"
proof (cases "unat a + unat b < 2 ^ LENGTH('a)")
  case True
  then show ?thesis by (simp add: saturating_add_def unat_word_ariths)
next
  case False
  then show ?thesis by (simp add: saturating_add_def unsigned_minus_1_eq_mask mask_eq_exp_minus_1)
qed

lemma unat_saturating_sub [rust_int]:
  "unat (saturating_sub a (b::'a::len word)) = unat a - unat b"
  by (auto simp: saturating_sub_def unat_sub word_le_nat_alt)

lemma unat_saturating_mul [rust_int]:
  "unat (saturating_mul a (b::'a::len word)) = min (unat a * unat b) (2 ^ LENGTH('a) - 1)"
proof (cases "unat a * unat b < 2 ^ LENGTH('a)")
  case True
  then show ?thesis by (simp add: saturating_mul_def unat_word_ariths)
next
  case False
  then show ?thesis by (simp add: saturating_mul_def unsigned_minus_1_eq_mask mask_eq_exp_minus_1)
qed

lemma foldl_bytes:
  assumes "x < 256 ^ 32" and "n \<le> 32"
  shows "foldl (\<lambda>a b. a * 256 + unat b) 0
           (map (\<lambda>i. word_of_nat (x div 256 ^ (31 - i)) :: u8) [0..<n]) = x div 256 ^ (32 - n)"
  using assms(2)
proof (induction n)
  case 0
  with assms(1) show ?case by simp
next
  case (Suc n)
  let ?y = "x div 256 ^ (31 - n)"
  have exps: "32 - n = Suc (31 - n)" "32 - Suc n = 31 - n" using Suc.prems by auto
  have "x div 256 ^ (32 - n) = ?y div 256"
    unfolding exps power_Suc2 by (simp add: div_mult2_eq)
  with Suc show ?case
    by (simp add: exps unat_of_nat)
qed

lemma to_b32_of_b32 [simp]: "to_b32 (of_b32 w) = Some w"
proof -
  have "unat w < 256 ^ 32"
    using unsigned_less [of w] by simp
  then show ?thesis
    using foldl_bytes [of "unat w" 32] by (simp add: to_b32_def of_b32_def)
qed

lemma ucast_u32_via_64 [simp]: "(ucast (ucast (x::u32) :: 64 word) :: u32) = x"
  by (rule ucast_up_ucast_id) (simp add: is_up)

lemma ucast_u16_via_32 [simp]: "(ucast (ucast (x::u16) :: 32 word) :: u16) = x"
  by (rule ucast_up_ucast_id) (simp add: is_up)

lemma sint_of_int:
  "- (2 ^ (LENGTH('a) - 1)) \<le> k \<Longrightarrow> k < 2 ^ (LENGTH('a) - 1) \<Longrightarrow> sint (word_of_int k :: 'a::len word) = k"
  by (simp add: signed_of_int signed_take_bit_int_eq_self)

lemma sint_of_small:
  assumes "unat (x :: 'a::len word) < 2 ^ (LENGTH('a) - 1)"
  shows "sint x = int (unat x)"
proof -
  have "- (2 ^ (LENGTH('a) - 1)) \<le> int (unat x)"
    by (rule order.trans [of _ 0]) (auto simp del: of_nat_unat)
  moreover have "int (unat x) < 2 ^ (LENGTH('a) - 1)"
    using assms by (metis of_nat_less_iff of_nat_numeral of_nat_power)
  ultimately have "sint (word_of_int (int (unat x)) :: 'a word) = int (unat x)"
    by (rule sint_of_int)
  then show ?thesis by simp
qed

lemma sint_ucast_narrow:
  assumes "LENGTH('b) \<le> LENGTH('a)"
    and "- (2 ^ (LENGTH('b) - 1)) \<le> sint x" and "sint x < 2 ^ (LENGTH('b) - 1)"
  shows "sint (ucast (x :: 'a::len word) :: 'b::len word) = sint x"
proof -
  have "sint (ucast x :: 'b word) = signed_take_bit (LENGTH('b) - 1) (uint x)"
    by (simp add: signed_ucast_eq)
  also have "\<dots> = signed_take_bit (LENGTH('b) - 1) (sint x)"
    using assms(1) by (simp add: sint_uint min_def)
  finally show ?thesis using assms(2,3) by (simp add: signed_take_bit_int_eq_self)
qed

lemma sint_i64_max: "sint i64_max = 2 ^ 63 - 1"
  unfolding i64_max_def by (subst sint_of_int) simp_all

lemma sint_try_i64 [rust_int]:
  "sint (case try_i64_of_u64 x of None \<Rightarrow> i64_max | Some h \<Rightarrow> h) = min (int (unat x)) (2 ^ 63 - 1)"
proof (cases "unat x < 2 ^ 63")
  case True
  then have "sint x = int (unat x)" using sint_of_small [of x] by simp
  with True show ?thesis by (simp add: try_i64_of_u64_def del: of_nat_unat)
next
  case False
  then show ?thesis by (simp add: try_i64_of_u64_def sint_i64_max del: of_nat_unat)
qed

lemma sint_i64_saturating_sub [rust_int]:
  "sint (i64_saturating_sub a b) = max (- (2 ^ 63)) (min (2 ^ 63 - 1) (sint a - sint b))"
  unfolding i64_saturating_sub_def by (subst sint_of_int) auto

lemma sint_try_i32 [rust_int]:
  "sint (case try_i32_of_i64 x of None \<Rightarrow> 0 | Some b \<Rightarrow> b) =
     (if - (2 ^ 31) \<le> sint x \<and> sint x < 2 ^ 31 then sint x else 0)"
  using sint_ucast_narrow [of x, where 'b = 32] by (simp add: try_i32_of_i64_def)

lemma unat_ucast_up [rust_int]:
  assumes "LENGTH('a) \<le> LENGTH('b)"
  shows "unat (ucast (x :: 'a::len word) :: 'b::len word) = unat x"
proof -
  have "unat x < 2 ^ LENGTH('b)"
    using unsigned_less [of x] assms by (metis order_less_le_trans one_le_numeral power_increasing)
  then show ?thesis by (simp add: unsigned_ucast_eq take_bit_nat_eq_self)
qed

lemma sint_diff:
  assumes "- (2 ^ (LENGTH('a) - 1)) \<le> sint a - sint b" and "sint a - sint b < 2 ^ (LENGTH('a) - 1)"
  shows "sint (a - b :: 'a::len word) = sint a - sint b"
proof -
  have "a - b = word_of_int (sint a - sint b)" by simp
  then show ?thesis using sint_of_int [OF assms] by simp
qed

section \<open>Time and text\<close>

text \<open>A time is its distance from the Unix epoch in nanoseconds; \<open>show_nat\<close> is \<open>to_string\<close> of an integer.\<close>

type_synonym system_time = int

abbreviation nanos_per_sec :: int where "nanos_per_sec \<equiv> 1000000000"

fun show_nat :: "nat \<Rightarrow> string" where
  "show_nat n =
     (if n < 10 then [char_of (48 + n)] else show_nat (n div 10) @ [char_of (48 + n mod 10)])"

definition digit :: "char \<Rightarrow> bool" where
  "digit c \<longleftrightarrow> 48 \<le> (of_char c :: int) \<and> (of_char c :: int) \<le> 57"

definition digits_value :: "string \<Rightarrow> int" where
  "digits_value ds = foldl (\<lambda>n c. 10 * n + (of_char c - 48)) 0 ds"

declare show_nat.simps [simp del]

lemma of_char_of_digit: "d < 10 \<Longrightarrow> (of_char (char_of (48 + d :: nat)) :: int) = 48 + int d"
proof -
  assume "d < 10"
  have "int (of_char (char_of (48 + d :: nat))) = int ((48 + d) mod 256)" by (subst of_char_of) (rule refl)
  also have "(48 + d) mod 256 = 48 + d" using \<open>d < 10\<close> by simp
  finally show ?thesis by (subst (asm) of_nat_of_char) simp
qed

lemma digit_char_of: "d < 10 \<Longrightarrow> digit (char_of (48 + d :: nat))"
  by (simp add: digit_def of_char_of_digit)

lemma show_nat_digits: "list_all digit (show_nat n) \<and> show_nat n \<noteq> []"
proof (induction n rule: show_nat.induct)
  case (1 n)
  then show ?case
    by (cases "n < 10"; subst (1 2) show_nat.simps) (simp_all add: digit_char_of)
qed

lemma digits_value_snoc: "digits_value (ds @ [c]) = 10 * digits_value ds + (of_char c - 48)"
  by (simp add: digits_value_def)

lemma digits_value_show [simp]: "digits_value (show_nat n) = int n"
proof (induction n rule: show_nat.induct)
  case (1 n)
  show ?case
  proof (cases "n < 10")
    case True
    then show ?thesis by (subst show_nat.simps) (simp add: digits_value_def of_char_of_digit)
  next
    case False
    then have "digits_value (show_nat n) = 10 * int (n div 10) + int (n mod 10)"
      using 1 by (subst show_nat.simps) (simp add: digits_value_snoc of_char_of_digit)
    then show ?thesis by (simp flip: of_nat_add of_nat_mult add: zdiv_int zmod_int)
  qed
qed

section \<open>Operations\<close>

type_synonym ('w, 'e, 'a) op = "'w \<Rightarrow> ('e + 'a) \<times> 'w"

definition ret :: "'a \<Rightarrow> ('w, 'e, 'a) op" where
  "ret a w = (Inr a, w)"

definition fail :: "'e \<Rightarrow> ('w, 'e, 'a) op" where
  "fail e w = (Inl e, w)"

text \<open>\<open>seq m f\<close> is \<open>let x = m?; f(x)\<close>.\<close>

definition seq :: "('w, 'e, 'a) op \<Rightarrow> ('a \<Rightarrow> ('w, 'e, 'b) op) \<Rightarrow> ('w, 'e, 'b) op" where
  "seq m f w = (case m w of (r, w') \<Rightarrow> (case r of Inl e \<Rightarrow> (Inl e, w') | Inr a \<Rightarrow> f a w'))"

text \<open>\<open>map_err\<close> converts the error, as \<open>map_err\<close> and the \<open>From\<close> impls behind \<open>?\<close> do.\<close>

definition map_err :: "('e \<Rightarrow> 'f) \<Rightarrow> ('w, 'e, 'a) op \<Rightarrow> ('w, 'f, 'a) op" where
  "map_err h m w = (case m w of (r, w') \<Rightarrow> (map_sum h id r, w'))"

text \<open>\<open>attempt m f\<close> is a \<open>match\<close> on the result of a call.\<close>

definition attempt :: "('w, 'e, 'a) op \<Rightarrow> ('e + 'a \<Rightarrow> ('w, 'f, 'b) op) \<Rightarrow> ('w, 'f, 'b) op" where
  "attempt m f w = (case m w of (r, w') \<Rightarrow> f r w')"

definition lift_res :: "'e + 'a \<Rightarrow> ('w, 'e, 'a) op" where
  "lift_res r w = (r, w)"

definition of_option :: "'e \<Rightarrow> 'a option \<Rightarrow> 'e + 'a" where
  "of_option e x = (case x of None \<Rightarrow> Inl e | Some a \<Rightarrow> Inr a)"

definition bind_res :: "'e + 'a \<Rightarrow> ('a \<Rightarrow> 'e + 'b) \<Rightarrow> 'e + 'b" where
  "bind_res r f = (case r of Inl e \<Rightarrow> Inl e | Inr a \<Rightarrow> f a)"

lemmas [op_defs] = ret_def fail_def seq_def map_err_def attempt_def lift_res_def

text \<open>A loop that calls an operation for every element, and stops at the first error.\<close>

primrec for_each :: "('x \<Rightarrow> ('w, 'e, unit) op) \<Rightarrow> 'x list \<Rightarrow> ('w, 'e, unit) op" where
  "for_each f [] = ret ()"
| "for_each f (x # xs) = seq (f x) (\<lambda>_. for_each f xs)"

text \<open>\<open>collect\<close> into a \<open>Result<Vec<_>, _>\<close>: the first error in order, else all the values.\<close>

primrec collect_res :: "('e + 'a) list \<Rightarrow> 'e + 'a list" where
  "collect_res [] = Inr []"
| "collect_res (r # rs) =
     (case r of Inl e \<Rightarrow> Inl e
      | Inr a \<Rightarrow> (case collect_res rs of Inl e \<Rightarrow> Inl e | Inr as \<Rightarrow> Inr (a # as)))"

text \<open>
  Calls started together and awaited together: each runs, whatever the others return, and the
  results are kept in the order given.
\<close>

primrec run_all :: "('x \<Rightarrow> ('w, 'e, 'a) op) \<Rightarrow> 'x list \<Rightarrow> 'w \<Rightarrow> ('e + 'a) list \<times> 'w" where
  "run_all f [] w = ([], w)"
| "run_all f (x # xs) w =
     (case f x w of (r, w') \<Rightarrow> (case run_all f xs w' of (rs, w'') \<Rightarrow> (r # rs, w'')))"

lemma ret_run [simp]: "ret a w = (Inr a, w)" by (simp add: ret_def)

lemma fail_run [simp]: "fail e w = (Inl e, w)" by (simp add: fail_def)

lemma lift_res_run [simp]: "lift_res r w = (r, w)" by (simp add: lift_res_def)

lemma seq_Inr_iff:
  "seq m f w = (Inr b, w'') \<longleftrightarrow> (\<exists>a w'. m w = (Inr a, w') \<and> f a w' = (Inr b, w''))"
  by (auto simp: seq_def split: prod.splits sum.splits)

lemma seq_Inl_iff:
  "seq m f w = (Inl e, w'') \<longleftrightarrow>
     m w = (Inl e, w'') \<or> (\<exists>a w'. m w = (Inr a, w') \<and> f a w' = (Inl e, w''))"
  by (auto simp: seq_def split: prod.splits sum.splits)

lemma map_err_Inr_iff: "map_err h m w = (Inr a, w') \<longleftrightarrow> m w = (Inr a, w')"
  by (cases "m w"; cases "fst (m w)") (auto simp: map_err_def)

lemma map_err_Inl_iff: "map_err h m w = (Inl f, w') \<longleftrightarrow> (\<exists>e. m w = (Inl e, w') \<and> f = h e)"
  by (cases "m w"; cases "fst (m w)") (auto simp: map_err_def)

lemmas op_iffs = seq_Inr_iff seq_Inl_iff map_err_Inr_iff map_err_Inl_iff

lemma seq_run_Inr [simp]: "m w = (Inr a, w') \<Longrightarrow> seq m f w = f a w'"
  by (simp add: seq_def)

lemma seq_run_Inl [simp]: "m w = (Inl e, w') \<Longrightarrow> seq m f w = (Inl e, w')"
  by (simp add: seq_def)

lemma map_err_run [simp]: "m w = (r, w') \<Longrightarrow> map_err h m w = (map_sum h id r, w')"
  by (simp add: map_err_def)

lemma for_each_append:
  "for_each f (xs @ ys) w = seq (for_each f xs) (\<lambda>_. for_each f ys) w"
  by (induction xs arbitrary: w) (auto simp: seq_def split: prod.splits sum.splits)

lemma collect_res_map_Inr [simp]: "collect_res (map Inr as) = Inr as"
  by (induction as) auto

lemma collect_res_Inr: "collect_res rs = Inr as \<longleftrightarrow> rs = map Inr as"
proof
  show "collect_res rs = Inr as \<Longrightarrow> rs = map Inr as"
    by (induction rs arbitrary: as) (auto split: sum.splits)
qed simp

lemma length_run_all [simp]: "length (fst (run_all f xs w)) = length xs"
  by (induction xs arbitrary: w) (auto split: prod.splits, metis fst_conv)

lemma of_option_Inr [simp]: "of_option e x = Inr a \<longleftrightarrow> x = Some a"
  by (auto simp: of_option_def split: option.splits)

lemma bind_res_Inr: "bind_res r f = Inr b \<longleftrightarrow> (\<exists>a. r = Inr a \<and> f a = Inr b)"
  by (cases r) (auto simp: bind_res_def)

lemma lift_res_Inr: "lift_res r w = (Inr a, w') \<longleftrightarrow> r = Inr a \<and> w' = w"
  by auto

lemma map_sum_id_Inr: "map_sum h id r = Inr a \<longleftrightarrow> r = Inr a"
  by (cases r) auto

lemmas run_Inr = map_sum_id_Inr seq_Inr_iff map_err_Inr_iff lift_res_Inr of_option_Inr bind_res_Inr

subsection \<open>What an operation preserves\<close>

text \<open>\<open>keeps P m\<close>: whatever \<open>m\<close> returns, it leads from states in \<open>P\<close> to states in \<open>P\<close>.\<close>

definition keeps :: "('w \<Rightarrow> bool) \<Rightarrow> ('w, 'e, 'a) op \<Rightarrow> bool" where
  "keeps P m \<longleftrightarrow> (\<forall>w. P w \<longrightarrow> P (snd (m w)))"

named_theorems keeps_intro "rules for what composed operations preserve"

lemma keepsI: "(\<And>w r w'. P w \<Longrightarrow> m w = (r, w') \<Longrightarrow> P w') \<Longrightarrow> keeps P m"
  by (metis keeps_def prod.collapse)

lemma keepsD: "keeps P m \<Longrightarrow> P w \<Longrightarrow> m w = (r, w') \<Longrightarrow> P w'"
  by (metis keeps_def snd_conv)

lemma keeps_ret [keeps_intro]: "keeps P (ret a)"
  by (simp add: keeps_def)

lemma keeps_fail [keeps_intro]: "keeps P (fail e)"
  by (simp add: keeps_def)

lemma keeps_lift_res [keeps_intro]: "keeps P (lift_res r)"
  by (simp add: keeps_def)

lemma keeps_map_err [keeps_intro]: "keeps P m \<Longrightarrow> keeps P (map_err h m)"
  by (auto simp: keeps_def map_err_def split: prod.splits)

lemma keeps_seq [keeps_intro]: "keeps P m \<Longrightarrow> (\<And>a. keeps P (f a)) \<Longrightarrow> keeps P (seq m f)"
  by (auto simp: keeps_def seq_def split: prod.splits sum.splits)

lemma keeps_attempt [keeps_intro]: "keeps P m \<Longrightarrow> (\<And>r. keeps P (f r)) \<Longrightarrow> keeps P (attempt m f)"
  by (auto simp: keeps_def attempt_def split: prod.splits)

lemma keeps_if [keeps_intro]: "keeps P m \<Longrightarrow> keeps P m' \<Longrightarrow> keeps P (if c then m else m')"
  by simp

lemma keeps_for_each [keeps_intro]: "(\<And>x. keeps P (f x)) \<Longrightarrow> keeps P (for_each f xs)"
  by (induction xs) (simp_all add: keeps_intro)

lemma keeps_apply: "keeps P m \<Longrightarrow> P w \<Longrightarrow> P (snd (m w))"
  by (simp add: keeps_def)

lemma keeps_option [keeps_intro]:
  "keeps P m \<Longrightarrow> (\<And>a. keeps P (f a)) \<Longrightarrow> keeps P (case x of None \<Rightarrow> m | Some a \<Rightarrow> f a)"
  by (cases x) auto

subsection \<open>Operations on a component of the state\<close>

definition on_fst :: "('a, 'e, 'x) op \<Rightarrow> ('a \<times> 'b, 'e, 'x) op" where
  "on_fst m w = (case m (fst w) of (r, a) \<Rightarrow> (r, (a, snd w)))"

definition on_snd :: "('b, 'e, 'x) op \<Rightarrow> ('a \<times> 'b, 'e, 'x) op" where
  "on_snd m w = (case m (snd w) of (r, b) \<Rightarrow> (r, (fst w, b)))"

lemma on_fst_eq: "on_fst m w = (r, w') \<longleftrightarrow> m (fst w) = (r, fst w') \<and> snd w' = snd w"
  by (cases w') (auto simp: on_fst_def split: prod.splits)

lemma on_snd_eq: "on_snd m w = (r, w') \<longleftrightarrow> m (snd w) = (r, snd w') \<and> fst w' = fst w"
  by (cases w') (auto simp: on_snd_def split: prod.splits)

section \<open>Errors that are not values of the source's error types\<close>

text \<open>
  \<open>Err\<close> is an \<open>Err\<close> value of the source; \<open>Panic\<close> is a failed \<open>expect\<close>, an index out of
  range or a failed \<open>assert\<close>; \<open>Diverged\<close> says that the fuel given to a loop ran out.
\<close>

datatype 'e exn = Err 'e | Panic | Diverged

section \<open>Statements and transactions\<close>

text \<open>
  What the repositories use of \<open>sqlx\<close>: a statement either fails or runs, and a transaction that
  is not committed leaves the data as it was. The state holds the data and the faults to come:
  each statement takes the head of \<open>pg_faults\<close>, and fails when it is \<open>True\<close> (a lost connection,
  say). A violated constraint is an error of the database itself, with the constraint's name.
\<close>

datatype sqlx_error = SqlxDatabase "string option" | SqlxOther

record 'd pg =
  pg_data :: 'd
  pg_faults :: "bool list"

definition stmt :: "('d \<Rightarrow> sqlx_error + ('a \<times> 'd)) \<Rightarrow> ('d pg, sqlx_error, 'a) op" where
  "stmt f s =
     (let rest = tl (pg_faults s) in
      if pg_faults s \<noteq> [] \<and> hd (pg_faults s) then (Inl SqlxOther, s\<lparr>pg_faults := rest\<rparr>)
      else (case f (pg_data s) of
              Inl e \<Rightarrow> (Inl e, s\<lparr>pg_faults := rest\<rparr>)
            | Inr (a, d) \<Rightarrow> (Inr a, s\<lparr>pg_data := d, pg_faults := rest\<rparr>)))"

definition query :: "('d \<Rightarrow> 'a) \<Rightarrow> ('d pg, sqlx_error, 'a) op" where
  "query f = stmt (\<lambda>d. Inr (f d, d))"

definition exec :: "('d \<Rightarrow> 'd) \<Rightarrow> ('d pg, sqlx_error, unit) op" where
  "exec f = stmt (\<lambda>d. Inr ((), f d))"

text \<open>\<open>begin\<close> and \<open>commit\<close> are statements; an error before the commit rolls the data back.\<close>

definition transact ::
    "(sqlx_error \<Rightarrow> 'e) \<Rightarrow> ('d pg, 'e, 'a) op \<Rightarrow> ('d pg, 'e, 'a) op" where
  "transact conv m s =
     (case seq (map_err conv (exec id))
             (\<lambda>_. seq m (\<lambda>a. seq (map_err conv (exec id)) (\<lambda>_. ret a))) s of
        (Inr a, s') \<Rightarrow> (Inr a, s')
      | (Inl e, s') \<Rightarrow> (Inl e, s'\<lparr>pg_data := pg_data s\<rparr>))"

lemma transact_error_rolls_back:
  "transact conv m s = (Inl e, s') \<Longrightarrow> pg_data s' = pg_data s"
  by (auto simp: transact_def split: prod.splits sum.splits)

lemma query_keeps_data: "query f s = (r, s') \<Longrightarrow> pg_data s' = pg_data s"
  by (auto simp: query_def stmt_def Let_def split: if_splits)

lemma stmt_no_fault [sql_run]:
  "pg_faults s = [] \<Longrightarrow> stmt f s =
     (case f (pg_data s) of Inl e \<Rightarrow> (Inl e, s) | Inr (a, d) \<Rightarrow> (Inr a, s\<lparr>pg_data := d\<rparr>))"
  by (cases s) (auto simp: stmt_def Let_def split: sum.splits)

lemma query_no_fault [sql_run]: "pg_faults s = [] \<Longrightarrow> query f s = (Inr (f (pg_data s)), s)"
  by (cases s) (simp add: query_def sql_run)

lemma exec_no_fault [sql_run]:
  "pg_faults s = [] \<Longrightarrow> exec f s = (Inr (), s\<lparr>pg_data := f (pg_data s)\<rparr>)"
  by (simp add: exec_def sql_run)

lemma exec_Inr: "exec f s = (Inr u, s') \<Longrightarrow> pg_data s' = f (pg_data s)"
  by (auto simp: exec_def stmt_def Let_def split: if_splits)

lemma exec_Inl: "exec f s = (Inl e, s') \<Longrightarrow> pg_data s' = pg_data s"
  by (auto simp: exec_def stmt_def Let_def split: if_splits)

lemma query_Inr: "query f s = (Inr a, s') \<Longrightarrow> a = f (pg_data s) \<and> pg_data s' = pg_data s"
  by (auto simp: query_def stmt_def Let_def split: if_splits)

lemma stmt_Inr: "stmt f s = (Inr a, s') \<Longrightarrow> f (pg_data s) = Inr (a, pg_data s')"
  by (auto simp: stmt_def Let_def split: if_splits sum.splits)

lemma stmt_Inl: "stmt f s = (Inl e, s') \<Longrightarrow> pg_data s' = pg_data s"
  by (auto simp: stmt_def Let_def split: if_splits sum.splits)

lemmas stmt_inv = exec_Inr exec_Inl query_Inr stmt_Inr stmt_Inl

lemma transact_Inr:
  assumes "transact conv m s = (Inr a, s')"
  obtains s1 s2 where "pg_data s1 = pg_data s" "m s1 = (Inr a, s2)" "pg_data s' = pg_data s2"
proof -
  from assms have "seq (map_err conv (exec id))
      (\<lambda>_. seq m (\<lambda>a. seq (map_err conv (exec id)) (\<lambda>_. ret a))) s = (Inr a, s')"
    by (auto simp: transact_def split: prod.splits sum.splits)
  then obtain s1 s2 where "exec id s = (Inr (), s1)" "m s1 = (Inr a, s2)"
      "exec id s2 = (Inr (), s')"
    by (auto simp: seq_Inr_iff map_err_Inr_iff)
  with that show thesis by (auto dest!: exec_Inr)
qed

lemma transact_no_fault [sql_run]:
  assumes "pg_faults s = []" and "m s = (r, s')" and "pg_faults s' = []"
  shows "transact conv m s =
     (case r of Inr a \<Rightarrow> (Inr a, s') | Inl e \<Rightarrow> (Inl e, s'\<lparr>pg_data := pg_data s\<rparr>))"
  using assms by (cases r) (simp_all add: transact_def exec_no_fault seq_def map_err_def)

lemma keeps_query [keeps_intro]: "keeps (\<lambda>s. P (pg_data s)) (query f)"
  by (auto intro!: keepsI dest: query_keeps_data)

lemma keeps_read [keeps_intro]:
  "(\<And>a. keeps (\<lambda>s. P (pg_data s)) (g a)) \<Longrightarrow> keeps (\<lambda>s. P (pg_data s)) (seq (map_err h (query f)) g)"
  by (intro keeps_intro)

section \<open>Inserting rows under a key\<close>

text \<open>
  \<open>INSERT \<dots> ON CONFLICT DO NOTHING\<close> for several rows: a row whose key is taken, by a row of the
  table or by an earlier row of the same statement, is skipped. The inserted rows are the result
  of \<open>RETURNING\<close>.
\<close>

fun insert_new :: "('r \<Rightarrow> 'k) \<Rightarrow> 'r list \<Rightarrow> 'r list \<Rightarrow> 'r list \<times> 'r list" where
  "insert_new key tab [] = (tab, [])"
| "insert_new key tab (r # rs) =
     (if key r \<in> key ` set tab then insert_new key tab rs
      else (case insert_new key (tab @ [r]) rs of (tab', new) \<Rightarrow> (tab', r # new)))"

lemma insert_new_append: "insert_new key tab rs = (tab', new) \<Longrightarrow> tab' = tab @ new"
  by (induction key tab rs arbitrary: tab' new rule: insert_new.induct)
     (auto split: if_splits prod.splits)

lemma insert_new_subset: "insert_new key tab rs = (tab', new) \<Longrightarrow> set new \<subseteq> set rs"
  by (induction key tab rs arbitrary: tab' new rule: insert_new.induct)
     (auto split: if_splits prod.splits)

lemma insert_new_keys:
  "insert_new key tab rs = (tab', new) \<Longrightarrow> key ` set tab' = key ` set tab \<union> key ` set rs"
proof (induction key tab rs arbitrary: tab' new rule: insert_new.induct)
  case (2 key tab r rs)
  show ?case
  proof (cases "key r \<in> key ` set tab")
    case True
    with 2 show ?thesis by (simp add: insert_absorb)
  next
    case False
    with 2 show ?thesis by (simp split: prod.splits)
  qed
qed simp

lemma insert_new_distinct:
  "insert_new key tab rs = (tab', new) \<Longrightarrow> distinct (map key tab) \<Longrightarrow> distinct (map key tab')"
  by (induction key tab rs arbitrary: tab' new rule: insert_new.induct)
     (auto split: if_splits prod.splits)

lemma insert_new_none:
  "key ` set rs \<subseteq> key ` set tab \<Longrightarrow> insert_new key tab rs = (tab, [])"
  by (induction key tab rs rule: insert_new.induct) auto

lemma insert_new_again:
  assumes "insert_new key tab rs = (tab', new)"
  shows "insert_new key tab' rs = (tab', [])"
  using insert_new_keys [OF assms] by (intro insert_new_none) auto

section \<open>Lists and indexes\<close>

lemma set_map_filter: "set (List.map_filter f xs) = {y. \<exists>x\<in>set xs. f x = Some y}"
  by (induction xs) (auto simp: List.map_filter_simps split: option.split)

lemma set_enumerate: "set (enumerate 0 xs) = (\<lambda>i. (i, xs ! i)) ` {..<length xs}"
  by (auto simp: in_set_enumerate_eq image_iff)

lemma word_of_nat_inj_u32: "i < 2 ^ 32 \<Longrightarrow> j < 2 ^ 32 \<Longrightarrow> (word_of_nat i :: u32) = word_of_nat j \<longleftrightarrow> i = j"
  by (auto simp: word_of_nat_eq_iff take_bit_nat_eq_self)

lemma ucast_u32_inj: "(ucast (x :: u32) :: u64) = ucast y \<longleftrightarrow> x = y"
  by (metis ucast_u32_via_64)

end
