(* ===== verification/Chain_Types.thy ===== *)
theory Chain_Types
  imports Swapd_Prelude
begin

text \<open>
  The data of the chain modules (\<open>chain/types.rs\<close>, \<open>chain/repository.rs\<close>, \<open>chain/client.rs\<close>,
  \<open>chain/fee_estimator.rs\<close>), their traits as records of operations over a state, and the parts
  of the \<open>bitcoin\<close> crate the program uses: its plain data as records, its functions as a record
  of parameters.

  A 32 byte hash is a \<open>b32\<close>, whose numeric order is the byte order of the array; an address is
  its canonical text. Boxed errors keep what they were made from.
\<close>

type_synonym txid = b32
type_synonym block_hash = b32
type_synonym script = bytes
type_synonym address = string
type_synonym network = string

section \<open>Data of the bitcoin crate\<close>

datatype outpoint = OutPoint (op_txid: txid) (op_vout: u32)

text \<open>Outpoints are ordered by transaction id, then by output index.\<close>

instantiation outpoint :: linorder
begin

definition less_eq_outpoint :: "outpoint \<Rightarrow> outpoint \<Rightarrow> bool" where
  "a \<le> b \<longleftrightarrow> op_txid a < op_txid b \<or> (op_txid a = op_txid b \<and> op_vout a \<le> op_vout b)"

definition less_outpoint :: "outpoint \<Rightarrow> outpoint \<Rightarrow> bool" where
  "a < b \<longleftrightarrow> op_txid a < op_txid b \<or> (op_txid a = op_txid b \<and> op_vout a < op_vout b)"

instance
  by standard (auto simp: less_eq_outpoint_def less_outpoint_def intro: outpoint.expand)

end

record tx_out =
  txo_value :: u64
  txo_script :: script

record tx_in =
  previous_output :: outpoint
  script_sig :: script
  tx_sequence :: u32
  tx_witness :: "bytes list"

record transaction =
  tx_version :: i32
  tx_lock_time :: u32
  tx_input :: "tx_in list"
  tx_output :: "tx_out list"

record block =
  prev_blockhash :: block_hash
  block_rest :: bytes  \<comment> \<open>the other fields of the header\<close>
  txdata :: "transaction list"

text \<open>
  Functions of the crate. \<open>parse_address n s\<close> is \<open>s.parse()\<close> followed by \<open>require_network(n)\<close>;
  \<open>address_from_script\<close> and \<open>bip34_block_height\<close> return \<open>None\<close> on the crate's error.
\<close>

record bitcoin_lib =
  compute_txid :: "transaction \<Rightarrow> txid"
  compute_block_hash :: "block \<Rightarrow> block_hash"
  bip34_block_height :: "block \<Rightarrow> u64 option"
  parse_address :: "network \<Rightarrow> string \<Rightarrow> address option"
  address_from_script :: "network \<Rightarrow> script \<Rightarrow> address option"
  address_script :: "address \<Rightarrow> script"

section \<open>Chain data\<close>

record block_header =
  bh_hash :: block_hash
  bh_height :: u64
  bh_prev :: block_hash

record txo =
  txo_block_hash :: block_hash
  txo_block_height :: u64
  txo_outpoint :: outpoint
  txo_tx_out :: tx_out

definition confirmations :: "txo \<Rightarrow> u64 \<Rightarrow> u64" where
  "confirmations t current_height =
     saturating_sub (saturating_add current_height 1) (txo_block_height t)"

record txo_spend =
  spend_tx :: txid
  spend_input_index :: u32
  spend_block_hash :: block_hash
  spend_block_height :: u64

record txo_with_spend =
  tws_txo :: txo
  tws_spend :: "txo_spend option"

record address_utxo =
  au_address :: address
  au_utxo :: txo

record spent_txo =
  st_outpoint :: outpoint
  st_spending_tx :: txid
  st_spending_input_index :: u32

record fee_estimate =
  sat_per_kw :: u32

section \<open>Errors\<close>

datatype boxed_error = BoxSqlx sqlx_error | BoxMsg string

datatype chain_repository_error = MultipleTips | ChainRepoGeneral boxed_error

datatype chain_error =
    Database chain_repository_error
  | EmptyChain
  | InvalidChain
  | BlockNotFound
  | ChainGeneral boxed_error

datatype broadcast_error =
    BroadcastChain chain_error
  | InsufficientFeeRejectingReplacement string
  | UnknownError string

datatype fee_estimate_error = FeeUnavailable | FeeGeneral boxed_error

datatype wallet_error = CreationFailed | InvalidAddress string | WalletGeneral boxed_error

section \<open>Traits\<close>

type_synonym 'w wallet = "('w, wallet_error, address) op"

record 'w chain_client =
  broadcast_tx :: "transaction \<Rightarrow> ('w, broadcast_error, unit) op"
  get_blockheight :: "('w, chain_error, u64) op"
  get_tip_hash :: "('w, chain_error, block_hash) op"
  get_block :: "block_hash \<Rightarrow> ('w, chain_error, block) op"
  get_block_header :: "block_hash \<Rightarrow> ('w, chain_error, block_header) op"
  get_sender_addresses :: "outpoint list \<Rightarrow> ('w, chain_error, address list) op"
  get_transaction :: "txid \<Rightarrow> ('w, chain_error, transaction) op"

record 'w chain_repository =
  add_block :: "block_header \<Rightarrow> address_utxo list \<Rightarrow> spent_txo list \<Rightarrow>
                ('w, chain_repository_error, spent_txo list) op"
  add_watch_address :: "address \<Rightarrow> ('w, chain_repository_error, unit) op"
  filter_watch_addresses :: "address list \<Rightarrow> ('w, chain_repository_error, address list) op"
  get_block_headers :: "('w, chain_repository_error, block_header list) op"
  get_tip :: "('w, chain_repository_error, block_header option) op"
  get_txos_for_address :: "address \<Rightarrow> ('w, chain_repository_error, txo list) op"
  get_txos_for_address_with_spends ::
    "address \<Rightarrow> ('w, chain_repository_error, txo_with_spend list) op"
  get_utxos :: "('w, chain_repository_error, address_utxo list) op"
  undo_block :: "block_hash \<Rightarrow> ('w, chain_repository_error, unit) op"

type_synonym 'w fee_estimator = "i32 \<Rightarrow> ('w, fee_estimate_error, fee_estimate) op"

section \<open>Facts\<close>

lemma unat_confirmations:
  "unat (confirmations t h) = min (unat h + 1) (2 ^ 64 - 1) - unat (txo_block_height t)"
  by (simp add: confirmations_def rust_int)

lemma outpoint_u32_roundtrip:
  "OutPoint (op_txid p) (ucast (ucast (op_vout p) :: i64)) = p"
  by (cases p) simp

end
