(* ===== verification/Swap_Types.thy ===== *)
theory Swap_Types
  imports Chain_Types
begin

text \<open>
  The data of swaps and of lightning payments (\<open>swap/swap_service.rs\<close>,
  \<open>swap/swap_repository.rs\<close>, \<open>lightning/client.rs\<close>), and their traits as records of operations.

  A public key is its compressed serialization, a secret key its 32 bytes; a point in time is a
  number of nanoseconds since the epoch.
\<close>

type_synonym pubkey = bytes
type_synonym seckey = b32
type_synonym sha256 = b32
type_synonym preimage = b32
type_synonym label = string

text \<open>
  \<open>t.duration_since(UNIX_EPOCH)?.as_secs()\<close> fails before the epoch. The seconds read back are
  added to the epoch with \<open>checked_add\<close>, which overflows at \<open>2 ^ 63\<close> seconds.
\<close>

definition secs_of_time :: "system_time \<Rightarrow> i64 option" where
  "secs_of_time t = (if t < 0 then None else Some (word_of_int (t div nanos_per_sec)))"

definition time_of_secs :: "i64 \<Rightarrow> system_time option" where
  "time_of_secs s = (if unat s < 2 ^ 63 then Some (int (unat s) * nanos_per_sec) else None)"

lemma time_of_secs_of_time:
  assumes "0 \<le> t" and "t < 2 ^ 63 * nanos_per_sec"
  shows "\<exists>s. secs_of_time t = Some s \<and> time_of_secs s = Some (t - t mod nanos_per_sec)"
proof -
  have "t div nanos_per_sec < 2 ^ 63" using assms(2) by linarith
  moreover have "0 \<le> t div nanos_per_sec" using assms(1) by simp
  ultimately have "uint (word_of_int (t div nanos_per_sec) :: i64) = t div nanos_per_sec"
    by (simp add: uint_word_of_int)
  then have "unat (word_of_int (t div nanos_per_sec) :: i64) = nat (t div nanos_per_sec)"
    by (simp add: unat_eq_nat_uint)
  with \<open>t div nanos_per_sec < 2 ^ 63\<close> assms(1) show ?thesis
    by (simp add: secs_of_time_def time_of_secs_def minus_mod_eq_div_mult nat_less_iff)
qed

section \<open>Swaps\<close>

record swap_public_data =
  sp_address :: address
  claim_pubkey :: pubkey
  claim_script :: script
  swap_hash :: sha256
  lock_time :: u16
  refund_pubkey :: pubkey
  refund_script :: script

record swap_private_data =
  claim_privkey :: seckey

record swap =
  creation_time :: system_time
  swap_public :: swap_public_data
  swap_private :: swap_private_data

record swap_state =
  ss_swap :: swap
  ss_preimage :: "preimage option"

record claimable_utxo =
  cu_swap :: swap
  cu_utxo :: txo
  paid_with_request :: "string option"
  cu_preimage :: preimage

section \<open>Lightning payments\<close>

datatype lightning_error =
    ConnectionFailed
  | LightningInvalidPreimage
  | PaymentNotFound
  | LightningGeneral string

record payment_request =
  bolt11 :: string
  cltv_limit :: u32
  pr_payment_hash :: sha256
  pr_label :: label
  fee_limit_msat :: u64
  timeout_seconds :: u16

datatype payment_result = PaymentSuccess preimage | PaymentFailure string

datatype payment_state = StateSuccess preimage | StateFailure string | StatePending

record preimage_result =
  pi_preimage :: preimage
  pi_label :: label

record 'w lightning_client =
  get_payment_state :: "sha256 \<Rightarrow> label \<Rightarrow> ('w, lightning_error, payment_state) op"
  get_preimage :: "sha256 \<Rightarrow> ('w, lightning_error, preimage_result option) op"
  has_pending_or_complete_payment :: "sha256 \<Rightarrow> ('w, lightning_error, bool) op"
  pay :: "payment_request \<Rightarrow> ('w, lightning_error, payment_result) op"

section \<open>The swap repository's data and errors\<close>

datatype swap_persistence_error = AlreadyExists | SwapPersistenceGeneral boxed_error

datatype lock_swap_error = AlreadyLocked | SwapNotFound | LockGeneral boxed_error

datatype get_swaps_error = GetSwapsNotFound | GetSwapsInvalidPreimage | GetSwapsGeneral boxed_error

datatype get_payment_attempts_error = AttemptInvalidPreimage | AttemptGeneral boxed_error

record payment_attempt =
  pa_creation_time :: system_time
  pa_label :: label
  pa_payment_hash :: sha256
  pa_outputs :: "outpoint list"
  pa_amount_msat :: u64
  pa_destination :: pubkey
  pa_payment_request :: string

record payment_attempt_with_result =
  pwr_attempt :: payment_attempt
  pwr_result :: "payment_result option"

record paid_outpoint =
  po_outpoint :: outpoint
  po_payment_request :: string

record swap_state_paid_outpoints =
  spo_swap_state :: swap_state
  spo_paid_outpoints :: "paid_outpoint list"

record swap_lock =
  refund_id :: "string option"
  payment_attempt_label :: "label option"

text \<open>A \<open>HashMap\<close> that is a result is the map it stands for.\<close>

record 'w swap_repository =
  add_swap :: "swap \<Rightarrow> ('w, swap_persistence_error, unit) op"
  get_swap_by_hash :: "sha256 \<Rightarrow> ('w, get_swaps_error, swap_state) op"
  get_swap_by_address :: "address \<Rightarrow> ('w, get_swaps_error, swap_state) op"
  get_swap_by_payment_request :: "string \<Rightarrow> ('w, get_swaps_error, swap_state) op"
  get_swap_locks :: "sha256 \<Rightarrow> ('w, lock_swap_error, swap_lock list) op"
  get_swap_payment_attempts ::
    "sha256 \<Rightarrow> ('w, get_payment_attempts_error, payment_attempt_with_result list) op"
  get_swaps :: "address list \<Rightarrow> ('w, get_swaps_error, address \<rightharpoonup> swap_state) op"
  get_swaps_with_paid_outpoints ::
    "address list \<Rightarrow> ('w, get_swaps_error, address \<rightharpoonup> swap_state_paid_outpoints) op"
  get_unhandled_payment_attempts :: "('w, get_payment_attempts_error, payment_attempt list) op"
  lock_add_payment_attempt :: "payment_attempt \<Rightarrow> ('w, lock_swap_error, unit) op"
  lock_swap_refund :: "sha256 \<Rightarrow> string \<Rightarrow> ('w, lock_swap_error, unit) op"
  unlock_add_payment_result ::
    "sha256 \<Rightarrow> label \<Rightarrow> payment_result \<Rightarrow> ('w, lock_swap_error, unit) op"
  unlock_swap_refund :: "sha256 \<Rightarrow> string \<Rightarrow> ('w, lock_swap_error, unit) op"

section \<open>Blocks left before a refund\<close>

definition claimable_blocks_left :: "claimable_utxo \<Rightarrow> u64 \<Rightarrow> i32" where
  "claimable_blocks_left c current_height =
     ucast ((ucast (lock_time (swap_public (cu_swap c))) :: i64) - confirmations (cu_utxo c) current_height)"

definition swap_state_blocks_left :: "swap_state \<Rightarrow> u64 \<Rightarrow> u64 \<Rightarrow> i32" where
  "swap_state_blocks_left s confirmation_height current_height =
     (let lock_height = (case try_i64_of_u64 (saturating_add confirmation_height
            (ucast (lock_time (swap_public (ss_swap s))))) of None \<Rightarrow> i64_max | Some h \<Rightarrow> h);
          current = (case try_i64_of_u64 current_height of None \<Rightarrow> i64_max | Some h \<Rightarrow> h) in
      case try_i32_of_i64 (i64_saturating_sub lock_height current) of None \<Rightarrow> 0 | Some b \<Rightarrow> b)"

lemma lock_time_minus_confirmations:
  assumes "unat (conf :: u64) < 2 ^ 31 - 2 ^ 16"
  shows "sint (ucast ((ucast (l :: u16) :: i64) - conf) :: i32) = int (unat l) - int (unat conf)"
proof -
  have l0: "unat l < 2 ^ 16" by (rule less_le_trans [OF unsigned_less]) simp
  then have "unat (ucast l :: i64) < 2 ^ 63" "unat conf < 2 ^ 63"
    using assms by (simp_all add: unat_ucast_up)
  then have s: "sint (ucast l :: i64) = int (unat l)" "sint conf = int (unat conf)"
    using sint_of_small [of "ucast l :: i64"] sint_of_small [of conf] by (simp_all add: unat_ucast_up)
  have l: "int (unat l) < 2 ^ 16" using l0 by (simp del: of_nat_unat)
  have c: "int (unat conf) < 2 ^ 31 - 2 ^ 16" using assms by (simp del: of_nat_unat)
  define d where "d = int (unat l) - int (unat conf)"
  have d: "- (2 ^ 31) \<le> d" "d < 2 ^ 31"
    using l c of_nat_0_le_iff [of "unat l"] of_nat_0_le_iff [of "unat conf"]
    unfolding d_def by linarith+
  have sub: "sint ((ucast l :: i64) - conf) = d"
    using sint_diff [of "ucast l :: i64" conf] d by (simp add: s d_def)
  show ?thesis
    using sint_ucast_narrow [of "(ucast l :: i64) - conf", where 'b = 32] d unfolding sub by (simp add: d_def)
qed

lemma swap_state_blocks_left_sint:
  "sint (swap_state_blocks_left s h cur) =
     (let d = min (min (int (unat h) + int (unat (lock_time (swap_public (ss_swap s))))) (2 ^ 64 - 1)) (2 ^ 63 - 1)
              - min (int (unat cur)) (2 ^ 63 - 1) in
      if - (2 ^ 31) \<le> d \<and> d < 2 ^ 31 then d else 0)"
proof -
  define l where "l = lock_time (swap_public (ss_swap s))"
  define L where "L = min (int (unat (saturating_add h (ucast l)))) (2 ^ 63 - 1)"
  define C where "C = min (int (unat cur)) (2 ^ 63 - 1)"
  have "unat (saturating_add h (ucast l)) = min (unat h + unat l) (2 ^ 64 - 1)"
    by (simp add: unat_saturating_add unat_ucast_up)
  then have L: "L = min (min (int (unat h) + int (unat l)) (2 ^ 64 - 1)) (2 ^ 63 - 1)"
    by (simp add: L_def min_def of_nat_diff del: of_nat_unat)
  have "0 \<le> L" "L \<le> 2 ^ 63 - 1" "0 \<le> C" "C \<le> 2 ^ 63 - 1" by (simp_all add: L_def C_def)
  then have "max (- (2 ^ 63)) (min (2 ^ 63 - 1) (L - C)) = L - C" by linarith
  then show ?thesis
    unfolding swap_state_blocks_left_def Let_def sint_try_i32 sint_i64_saturating_sub sint_try_i64
      l_def [symmetric] L_def [symmetric] C_def [symmetric] L [symmetric] by simp
qed

text \<open>\<open>SwapState::blocks_left\<close> is the confirmation height plus the lock time minus the current
  height whenever that fits an \<open>i32\<close>, and 0 otherwise; no input makes it wrap around.\<close>

lemma swap_state_blocks_left_value:
  "sint (swap_state_blocks_left s h cur) =
     (let d = min (min (int (unat h) + int (unat (lock_time (swap_public (ss_swap s))))) (2 ^ 64 - 1)) (2 ^ 63 - 1)
              - min (int (unat cur)) (2 ^ 63 - 1) in
      if - (2 ^ 31) \<le> d \<and> d < 2 ^ 31 then d else 0)"
  by (rule swap_state_blocks_left_sint)

text \<open>For an output confirmed at a height the chain has reached, \<open>ClaimableUtxo::blocks_left\<close> is
  the lock time minus the confirmations, one less than \<open>SwapState::blocks_left\<close> says for the same
  output: the block at the current height already counts as a confirmation.\<close>

lemma claimable_blocks_left_value:
  assumes "unat (txo_block_height (cu_utxo c)) \<le> unat cur" and "unat cur < 2 ^ 31 - 2 ^ 17"
  shows "sint (claimable_blocks_left c cur) =
      int (unat (lock_time (swap_public (cu_swap c)))) -
        (int (unat cur) + 1 - int (unat (txo_block_height (cu_utxo c)))) \<and>
    sint (claimable_blocks_left c cur) =
      sint (swap_state_blocks_left \<lparr>ss_swap = cu_swap c, ss_preimage = p\<rparr>
        (txo_block_height (cu_utxo c)) cur) - 1"
proof -
  let ?h = "txo_block_height (cu_utxo c)" and ?l = "lock_time (swap_public (cu_swap c))"
  have conf: "unat (confirmations (cu_utxo c) cur) = unat cur + 1 - unat ?h"
    using assms by (simp add: unat_confirmations)
  define x where "x = int (unat cur)"
  define y where "y = int (unat ?h)"
  define z where "z = int (unat ?l)"
  have b: "0 \<le> y" "y \<le> x" "x < 2 ^ 31 - 2 ^ 17" "0 \<le> z" "z < 2 ^ 16"
    using assms less_le_trans [OF unsigned_less [of ?l], of "2 ^ 16 :: nat"]
    by (simp_all add: x_def y_def z_def del: of_nat_unat)
  have "sint (claimable_blocks_left c cur) = z - int (unat (confirmations (cu_utxo c) cur))"
    unfolding claimable_blocks_left_def z_def
    using conf assms by (intro lock_time_minus_confirmations) simp
  also have "\<dots> = z - (x + 1 - y)"
    using conf assms(1) by (simp add: x_def y_def del: of_nat_unat)
  finally have a: "sint (claimable_blocks_left c cur) = z - (x + 1 - y)" .
  have "sint (swap_state_blocks_left \<lparr>ss_swap = cu_swap c, ss_preimage = p\<rparr> ?h cur) = y + z - x"
    unfolding swap_state_blocks_left_sint x_def [symmetric] y_def [symmetric]
    using b by (simp add: z_def [symmetric] Let_def del: of_nat_unat)
  with a show ?thesis by (simp add: x_def y_def z_def del: of_nat_unat)
qed

definition ex_swap :: swap where
  "ex_swap =
     \<lparr>creation_time = 5 * nanos_per_sec,
      swap_public =
        \<lparr>sp_address = ''a'', claim_pubkey = [2, 1], claim_script = [1], swap_hash = 77,
         lock_time = 288, refund_pubkey = [3, 1], refund_script = [2]\<rparr>,
      swap_private = \<lparr>claim_privkey = 5\<rparr>\<rparr>"

definition ex_claimable :: claimable_utxo where
  "ex_claimable =
     \<lparr>cu_swap = ex_swap,
      cu_utxo = \<lparr>txo_block_hash = 1, txo_block_height = 100, txo_outpoint = OutPoint 7 0,
        txo_tx_out = \<lparr>txo_value = 1000, txo_script = []\<rparr>\<rparr>,
      paid_with_request = None, cu_preimage = 9\<rparr>"

end
