(* ===== verification/Swap_Service.thy ===== *)
theory Swap_Service
  imports Swap_Types "HOL-Library.Multiset"
begin

text \<open>
  The swap service (\<open>swap/swap_service.rs\<close>) with its key and random providers: it makes the
  address and scripts of a swap, the transaction that claims the outputs of swaps, and the partial
  signature of a refund.

  The functions of the \<open>bitcoin\<close> and \<open>secp256k1\<close> crates (hashes, script serialization, taproot,
  signatures, MuSig2) are the fields of a parameter record; the values they exchange are opaque
  bytes. A script is given to the crate's builder as the list of pushes the code makes.
\<close>

section \<open>Randomness and keys\<close>

datatype private_key_error = PrivateKeyGeneral boxed_error

text \<open>\<open>fill\<close> is the system's source of randomness; its error carries nothing.\<close>

definition ring_rnd_32 :: "('w, unit, b32) op \<Rightarrow> ('w, boxed_error, b32) op" where
  "ring_rnd_32 fill = map_err (\<lambda>_. BoxMsg ''unspecified error'') fill"

text \<open>\<open>SecretKey::from_slice\<close> of the random bytes fails outside of the group's range.\<close>

definition random_private_key ::
    "(b32 \<Rightarrow> seckey option) \<Rightarrow> ('w, boxed_error, b32) op \<Rightarrow> ('w, private_key_error, seckey) op" where
  "random_private_key parse_secret rnd_32 =
     seq (map_err PrivateKeyGeneral rnd_32) (\<lambda>key.
     lift_res (of_option (PrivateKeyGeneral (BoxMsg ''secp256k1'')) (parse_secret key)))"

section \<open>The crates' functions\<close>

datatype script_push =
    Op_Hash160 | Op_EqualVerify | Op_CheckSig | Op_CheckSigVerify | Op_Csv
  | PushSlice bytes
  | PushXOnlyKey bytes
  | PushSequence u32

record taproot_spend_info =
  tsi_output_key :: bytes
  tsi_tap_tweak :: b32
  tsi_control_block :: "script \<Rightarrow> bytes option"  \<comment> \<open>for a leaf with the tapscript version\<close>

record crypto =
  build_script :: "script_push list \<Rightarrow> script"
  ripemd160 :: "bytes \<Rightarrow> bytes"
  pubkey_of :: "seckey \<Rightarrow> pubkey"
  x_only :: "pubkey \<Rightarrow> bytes"
  compressed_of_slice :: "bytes \<Rightarrow> pubkey option"
  p2wpkh :: "pubkey \<Rightarrow> network \<Rightarrow> address"
  p2tr_tweaked :: "bytes \<Rightarrow> network \<Rightarrow> address"
  musig_pubkey :: "pubkey \<Rightarrow> pubkey option"    \<comment> \<open>\<open>secp256k1::PublicKey::from_slice\<close>\<close>
  musig_seckey :: "seckey \<Rightarrow> seckey option"
  key_agg :: "pubkey list \<Rightarrow> bytes"             \<comment> \<open>\<open>MusigKeyAggCache::new\<close>\<close>
  agg_pk :: "bytes \<Rightarrow> bytes"
  x_only_of_slice :: "bytes \<Rightarrow> bytes option"
  taproot_build :: "(nat \<times> script) list \<Rightarrow> bytes \<Rightarrow> taproot_spend_info option"
  tx_weight :: "transaction \<Rightarrow> u64"
  script_spend_sighash :: "transaction \<Rightarrow> nat \<Rightarrow> tx_out list \<Rightarrow> script \<Rightarrow> b32 option"
  key_spend_sighash :: "transaction \<Rightarrow> nat \<Rightarrow> tx_out list \<Rightarrow> b32 option"
  sign_schnorr :: "b32 \<Rightarrow> seckey \<Rightarrow> b32 \<Rightarrow> bytes"
  scalar_of :: "b32 \<Rightarrow> b32 option"
  tweak_add :: "bytes \<Rightarrow> b32 \<Rightarrow> bytes option"
  nonce_gen :: "bytes \<Rightarrow> b32 \<Rightarrow> pubkey \<Rightarrow> b32 \<Rightarrow> b32 \<Rightarrow> (bytes \<times> bytes) option"
  agg_nonce :: "bytes list \<Rightarrow> bytes"
  musig_session :: "bytes \<Rightarrow> bytes \<Rightarrow> b32 \<Rightarrow> bytes"
  partial_sign :: "bytes \<Rightarrow> bytes \<Rightarrow> seckey \<Rightarrow> bytes \<Rightarrow> bytes option"

section \<open>The service\<close>

datatype taproot_error =
    Secp256k1Error
  | BitcoinSecp256k1Error
  | TaprootBuilderError
  | TaprootSighash
  | MissingControlBlock

datatype swap_error =
    SwapPrivateKey private_key_error
  | InvalidBlockHeight
  | FakeAddress
  | SwapTaproot taproot_error
  | InvalidWeight
  | AmountTooLow
  | Conversion
  | MusigTweak
  | NonceGen
  | SignError

record 'w swap_service =
  dust_limit_sat :: u64
  sv_network :: network
  new_private_key :: "('w, private_key_error, seckey) op"
  sv_lock_time :: u16
  sv_crypto :: crypto
  sv_now :: "'w \<Rightarrow> system_time"

abbreviation claim_input_witness_size :: nat where "claim_input_witness_size \<equiv> 222"

definition key_agg_cache :: "crypto \<Rightarrow> swap \<Rightarrow> taproot_error + bytes" where
  "key_agg_cache cr swap =
     bind_res (of_option Secp256k1Error (musig_pubkey cr (claim_pubkey (swap_public swap)))) (\<lambda>cp.
     bind_res (of_option Secp256k1Error (musig_pubkey cr (refund_pubkey (swap_public swap)))) (\<lambda>rp.
     Inr (key_agg cr [cp, rp])))"

text \<open>Both leaves have depth 1; the two builder errors are one.\<close>

definition taproot_spend_info :: "crypto \<Rightarrow> swap \<Rightarrow> taproot_error + taproot_spend_info" where
  "taproot_spend_info cr swap =
     bind_res (key_agg_cache cr swap) (\<lambda>m.
     bind_res (of_option BitcoinSecp256k1Error (x_only_of_slice cr (agg_pk cr m))) (\<lambda>internal_key.
     of_option TaprootBuilderError
       (taproot_build cr
         [(1, claim_script (swap_public swap)), (1, refund_script (swap_public swap))]
         internal_key)))"

definition claim_script_of :: "crypto \<Rightarrow> sha256 \<Rightarrow> pubkey \<Rightarrow> script" where
  "claim_script_of cr hash claim_key =
     build_script cr
       [Op_Hash160, PushSlice (ripemd160 cr (of_b32 hash)), Op_EqualVerify,
        PushXOnlyKey (x_only cr claim_key), Op_CheckSig]"

text \<open>\<open>Sequence::from_height\<close> of a 16 bit height is that height.\<close>

definition refund_script_of :: "crypto \<Rightarrow> pubkey \<Rightarrow> u16 \<Rightarrow> script" where
  "refund_script_of cr refund_key lock =
     build_script cr
       [PushXOnlyKey (x_only cr refund_key), Op_CheckSigVerify, PushSequence (ucast lock), Op_Csv]"

definition create_swap ::
    "'w swap_service \<Rightarrow> pubkey \<Rightarrow> sha256 \<Rightarrow> u64 \<Rightarrow> ('w, swap_error, swap) op" where
  "create_swap sv refund_key hash current_height w =
     (let cr = sv_crypto sv; now = sv_now sv w in
      seq (map_err SwapPrivateKey (new_private_key sv)) (\<lambda>privkey.
      let claim_key = pubkey_of cr privkey in
      seq (lift_res (of_option FakeAddress
             (map_option (\<lambda>k. p2wpkh cr k (sv_network sv))
               (compressed_of_slice cr (replicate 33 2))))) (\<lambda>fake_address.
      let swap =
        \<lparr>creation_time = now,
         swap_public =
           \<lparr>sp_address = fake_address, claim_pubkey = claim_key,
            claim_script = claim_script_of cr hash claim_key, swap_hash = hash,
            lock_time = sv_lock_time sv, refund_pubkey = refund_key,
            refund_script = refund_script_of cr refund_key (sv_lock_time sv)\<rparr>,
         swap_private = \<lparr>claim_privkey = privkey\<rparr>\<rparr> in
      seq (map_err SwapTaproot (lift_res (taproot_spend_info cr swap))) (\<lambda>info.
      ret (swap\<lparr>swap_public := (swap_public swap)
                 \<lparr>sp_address := p2tr_tweaked cr (tsi_output_key info) (sv_network sv)\<rparr>\<rparr>)))) w)"

text \<open>
  \<open>LockTime::from_height\<close> fails from 500000000, where consensus reads a lock time as a time.
\<close>

definition lock_time_from_height :: "u32 \<Rightarrow> swap_error + u32" where
  "lock_time_from_height h = (if unat h < 500000000 then Inr h else Inl InvalidBlockHeight)"

definition unsigned_claim_tx ::
    "claimable_utxo list \<Rightarrow> u32 \<Rightarrow> script \<Rightarrow> u64 \<Rightarrow> transaction" where
  "unsigned_claim_tx cs lock dest value =
     \<lparr>tx_version = 2, tx_lock_time = lock,
      tx_input = map (\<lambda>c. \<lparr>previous_output = txo_outpoint (cu_utxo c), script_sig = [],
        tx_sequence = 0, tx_witness = []\<rparr>) cs,
      tx_output = [\<lparr>txo_value = value, txo_script = dest\<rparr>]\<rparr>"

definition claim_total :: "claimable_utxo list \<Rightarrow> u64" where
  "claim_total cs = fold (\<lambda>c sum. sum + txo_value (txo_tx_out (cu_utxo c))) cs 0"

definition claim_witness ::
    "'w swap_service \<Rightarrow> transaction \<Rightarrow> tx_out list \<Rightarrow> nat \<Rightarrow> claimable_utxo \<Rightarrow>
     ('w, swap_error, bytes list) op" where
  "claim_witness sv tx prevouts n c =
     (let cr = sv_crypto sv; leaf = claim_script (swap_public (cu_swap c)) in
      seq (lift_res (of_option (SwapTaproot TaprootSighash)
             (script_spend_sighash cr tx n prevouts leaf))) (\<lambda>sighash.
      seq (map_err SwapPrivateKey (new_private_key sv)) (\<lambda>rnd.
      let signature = sign_schnorr cr sighash (claim_privkey (swap_private (cu_swap c))) rnd in
      seq (map_err SwapTaproot (lift_res (taproot_spend_info cr (cu_swap c)))) (\<lambda>info.
      seq (lift_res (of_option (SwapTaproot MissingControlBlock) (tsi_control_block info leaf)))
        (\<lambda>control_block.
      ret [signature, of_b32 (cu_preimage c), leaf, control_block])))))"

text \<open>The loop that signs the inputs in order; each step sets the witness of its input.\<close>

fun sign_inputs ::
    "'w swap_service \<Rightarrow> tx_out list \<Rightarrow> (nat \<times> claimable_utxo) list \<Rightarrow> transaction \<Rightarrow>
     ('w, swap_error, transaction) op" where
  "sign_inputs sv prevouts [] tx = ret tx"
| "sign_inputs sv prevouts ((n, c) # cs) tx =
     seq (claim_witness sv tx prevouts n c) (\<lambda>witness.
     sign_inputs sv prevouts cs
       (tx\<lparr>tx_input := (tx_input tx)[n := (tx_input tx ! n)\<lparr>tx_witness := witness\<rparr>]\<rparr>))"

definition create_claim_tx ::
    "'w swap_service \<Rightarrow> bitcoin_lib \<Rightarrow> claimable_utxo list \<Rightarrow> fee_estimate \<Rightarrow> u64 \<Rightarrow> address \<Rightarrow>
     ('w, swap_error, transaction) op" where
  "create_claim_tx sv lib claimables fee current_height destination_address =
     (let cs = sort_key (txo_outpoint \<circ> cu_utxo) claimables;
          total_value = claim_total cs;
          dest = address_script lib destination_address in
      seq (lift_res (lock_time_from_height (ucast current_height))) (\<lambda>lock.
      let tx = unsigned_claim_tx cs lock dest total_value in
      seq (lift_res (of_option InvalidWeight
             (checked_add (tx_weight (sv_crypto sv) tx)
               (word_of_nat (claim_input_witness_size * length (tx_input tx)))))) (\<lambda>weight.
      let fee_msat = weight * ucast (sat_per_kw fee);
          fee_sat = div_ceil fee_msat 1000;
          value_after_fees_sat = saturating_sub total_value fee_sat in
      if value_after_fees_sat < dust_limit_sat sv then fail AmountTooLow
      else
        sign_inputs sv (map (\<lambda>c. txo_tx_out (cu_utxo c)) cs) (enumerate 0 cs)
          (unsigned_claim_tx cs lock dest value_after_fees_sat))))"

definition partial_sign_refund_tx ::
    "'w swap_service \<Rightarrow> swap \<Rightarrow> transaction \<Rightarrow> tx_out list \<Rightarrow> nat \<Rightarrow> bytes \<Rightarrow>
     ('w, swap_error, bytes \<times> bytes) op" where
  "partial_sign_refund_tx sv swap tx prevouts input_index their_pub_nonce =
     (let cr = sv_crypto sv in
      seq (map_err SwapTaproot (lift_res (taproot_spend_info cr swap))) (\<lambda>info.
      seq (lift_res (of_option Conversion (scalar_of cr (tsi_tap_tweak info)))) (\<lambda>tweak_scalar.
      seq (lift_res (of_option Conversion (musig_pubkey cr (claim_pubkey (swap_public swap)))))
        (\<lambda>claim_key.
      seq (lift_res (of_option Conversion (musig_seckey cr (claim_privkey (swap_private swap)))))
        (\<lambda>privkey.
      seq (map_err SwapTaproot (lift_res (key_agg_cache cr swap))) (\<lambda>cache.
      seq (lift_res (of_option MusigTweak (tweak_add cr cache tweak_scalar))) (\<lambda>tweaked.
      seq (map_err SwapPrivateKey (new_private_key sv)) (\<lambda>session_id.
      seq (lift_res (of_option (SwapTaproot TaprootSighash)
             (key_spend_sighash cr tx input_index prevouts))) (\<lambda>msg.
      seq (map_err SwapPrivateKey (new_private_key sv)) (\<lambda>extra_rand.
      seq (lift_res (of_option NonceGen
             (nonce_gen cr tweaked session_id claim_key msg extra_rand))) (\<lambda>nonces.
      case nonces of (our_sec_nonce, our_pub_nonce) \<Rightarrow>
      let session = musig_session cr tweaked (agg_nonce cr [our_pub_nonce, their_pub_nonce]) msg in
      seq (lift_res (of_option SignError
             (partial_sign cr session our_sec_nonce privkey tweaked))) (\<lambda>partial_sig.
      ret (partial_sig, our_pub_nonce)))))))))))))"

section \<open>The claim transaction\<close>

text \<open>The claim transaction does not depend on the order in which the claimable outputs are
  given, so two services, or two runs, make the same one.\<close>

lemma create_claim_tx_order:
  assumes "mset cs = mset cs'" and "inj_on (txo_outpoint \<circ> cu_utxo) (set cs)"
  shows "create_claim_tx sv lib cs = create_claim_tx sv lib cs'"
proof -
  have "sort_key (txo_outpoint \<circ> cu_utxo) cs = sort_key (txo_outpoint \<circ> cu_utxo) cs'"
    by (rule sort_key_inj_key_eq) (use assms in simp_all)
  then show ?thesis by (intro ext) (simp only: create_claim_tx_def)
qed

definition claim_value :: "claimable_utxo \<Rightarrow> u64" where
  "claim_value c = txo_value (txo_tx_out (cu_utxo c))"

lemma fold_claim_total:
  "(\<Sum>c\<leftarrow>cs. unat (claim_value c)) + unat z < 2 ^ 64 \<Longrightarrow>
     unat (fold (\<lambda>c sum. sum + txo_value (txo_tx_out (cu_utxo c))) cs z) =
     unat z + (\<Sum>c\<leftarrow>cs. unat (claim_value c))"
proof (induction cs arbitrary: z)
  case (Cons c cs)
  have "unat (z + claim_value c) = unat z + unat (claim_value c)"
    using Cons.prems by (simp add: unat_word_ariths)
  with Cons show ?case by (simp add: claim_value_def)
qed simp

lemma claim_total_sum:
  "(\<Sum>c\<leftarrow>cs. unat (claim_value c)) < 2 ^ 64 \<Longrightarrow>
     unat (claim_total cs) = (\<Sum>c\<leftarrow>cs. unat (claim_value c))"
  using fold_claim_total [of cs 0] by (simp add: claim_total_def)

lemma sign_inputs_Inr:
  assumes "sign_inputs sv prevouts (enumerate k cs) tx w = (Inr tx', w')"
    and "k + length cs \<le> length (tx_input tx)"
  shows "tx_output tx' = tx_output tx \<and> tx_lock_time tx' = tx_lock_time tx \<and>
     tx_version tx' = tx_version tx \<and>
     map previous_output (tx_input tx') = map previous_output (tx_input tx) \<and>
     map tx_sequence (tx_input tx') = map tx_sequence (tx_input tx) \<and>
     (\<forall>i<k. tx_input tx' ! i = tx_input tx ! i) \<and>
     (\<forall>i<length cs. \<exists>sig ctl. tx_witness (tx_input tx' ! (k + i)) =
        [sig, of_b32 (cu_preimage (cs ! i)), claim_script (swap_public (cu_swap (cs ! i))), ctl])"
  using assms
proof (induction cs arbitrary: k tx w)
  case (Cons c cs)
  from Cons.prems(1) obtain wit w1 where wit: "claim_witness sv tx prevouts k c w = (Inr wit, w1)"
    and rest: "sign_inputs sv prevouts (enumerate (Suc k) cs)
      (tx\<lparr>tx_input := (tx_input tx)[k := (tx_input tx ! k)\<lparr>tx_witness := wit\<rparr>]\<rparr>) w1 = (Inr tx', w')"
    by (auto simp: run_Inr)
  from wit obtain sig ctl where w: "wit = [sig, of_b32 (cu_preimage c), claim_script (swap_public (cu_swap c)), ctl]"
    by (auto simp: claim_witness_def Let_def run_Inr)
  define tx1 where "tx1 = tx\<lparr>tx_input := (tx_input tx)[k := (tx_input tx ! k)\<lparr>tx_witness := wit\<rparr>]\<rparr>"
  have k: "k < length (tx_input tx)" using Cons.prems(2) by simp
  then have upd: "map previous_output (tx_input tx1) = map previous_output (tx_input tx)"
    "map tx_sequence (tx_input tx1) = map tx_sequence (tx_input tx)"
    by (simp_all add: tx1_def map_update) (metis list_update_id nth_map)+
  from Cons.IH [OF rest [folded tx1_def]] Cons.prems(2)
  have ih: "tx_output tx' = tx_output tx1 \<and> tx_lock_time tx' = tx_lock_time tx1 \<and>
     tx_version tx' = tx_version tx1 \<and>
     map previous_output (tx_input tx') = map previous_output (tx_input tx1) \<and>
     map tx_sequence (tx_input tx') = map tx_sequence (tx_input tx1) \<and>
     (\<forall>i<Suc k. tx_input tx' ! i = tx_input tx1 ! i) \<and>
     (\<forall>i<length cs. \<exists>sig ctl. tx_witness (tx_input tx' ! (Suc k + i)) =
        [sig, of_b32 (cu_preimage (cs ! i)), claim_script (swap_public (cu_swap (cs ! i))), ctl])"
    by (simp add: tx1_def)
  then have at: "tx_witness (tx_input tx' ! k) = wit" using k by (simp add: tx1_def)
  show ?case
  proof (intro conjI allI impI)
    fix i assume i: "i < length (c # cs)"
    show "\<exists>sig ctl. tx_witness (tx_input tx' ! (k + i)) =
        [sig, of_b32 (cu_preimage ((c # cs) ! i)), claim_script (swap_public (cu_swap ((c # cs) ! i))), ctl]"
      using ih at w i by (cases i) auto
  qed (use ih upd in \<open>auto simp: tx1_def\<close>)
qed simp

lemma div_ceil_nat: "(x + 999) div 1000 = x div 1000 + (if x mod 1000 = 0 then 0 else 1)" for x :: nat
proof -
  define q where "q = x div 1000"
  define r where "r = x mod 1000"
  have x: "x = r + q * 1000" and r: "r < 1000" by (simp_all add: q_def r_def)
  show ?thesis
  proof (cases r)
    case 0
    then have "(x + 999) div 1000 = (999 + q * 1000) div 1000" by (simp add: x)
    also have "\<dots> = q" by (subst div_mult_self1) simp_all
    finally show ?thesis using 0 by (simp add: q_def r_def)
  next
    case (Suc k)
    then have "(x + 999) div 1000 = (k + (q + 1) * 1000) div 1000" by (simp add: x)
    also have "\<dots> = q + 1" using r Suc by (subst div_mult_self1) simp_all
    finally show ?thesis using Suc by (simp add: q_def r_def)
  qed
qed

lemma unat_div_ceil: "unat (div_ceil a (1000 :: u64)) = (unat a + 999) div 1000"
proof -
  have q: "unat (a div 1000) = unat a div 1000" "unat (a mod 1000) = unat a mod 1000"
    by (simp_all add: unat_div unat_mod)
  have z: "a mod 1000 = 0 \<longleftrightarrow> unat a mod 1000 = 0"
    using q(2) by (metis unat_eq_zero)
  have "unat a < 2 ^ 64" by (rule less_le_trans [OF unsigned_less]) simp
  then have "unat a div 1000 < 2 ^ 64 div 1000 + 1" by (simp add: div_le_mono less_Suc_eq_le)
  then have "unat a div 1000 + 1 < 2 ^ 64" by simp
  then have "unat (a div 1000 + 1) = unat a div 1000 + 1"
    by (simp add: unat_word_ariths q(1))
  with q(1) show ?thesis unfolding div_ceil_def z div_ceil_nat by auto
qed

definition claim_weight :: "crypto \<Rightarrow> claimable_utxo list \<Rightarrow> u32 \<Rightarrow> script \<Rightarrow> nat" where
  "claim_weight cr cs lock dest =
     unat (tx_weight cr (unsigned_claim_tx cs lock dest (claim_total cs))) + 222 * length cs"

lemma claim_tx_steps:
  assumes "create_claim_tx sv lib claimables fee height dest w = (Inr tx, w')"
  defines "cs \<equiv> sort_key (txo_outpoint \<circ> cu_utxo) claimables"
  shows "\<exists>weight. checked_add (tx_weight (sv_crypto sv)
        (unsigned_claim_tx cs (ucast height) (address_script lib dest) (claim_total cs)))
        (word_of_nat (222 * length cs)) = Some weight \<and>
      \<not> saturating_sub (claim_total cs) (div_ceil (weight * ucast (sat_per_kw fee)) 1000) < dust_limit_sat sv \<and>
      sign_inputs sv (map (\<lambda>c. txo_tx_out (cu_utxo c)) cs) (enumerate 0 cs)
        (unsigned_claim_tx cs (ucast height) (address_script lib dest)
          (saturating_sub (claim_total cs) (div_ceil (weight * ucast (sat_per_kw fee)) 1000))) w = (Inr tx, w')"
proof -
  have len_in: "length (tx_input (unsigned_claim_tx cs l d v)) = length cs" for l d v
    by (simp add: unsigned_claim_tx_def)
  have lock: "lock_time_from_height h = Inr l \<longleftrightarrow> l = h \<and> unat h < 500000000" for h l
    by (auto simp: lock_time_from_height_def)
  have fail: "(if b then fail e else m) v = (Inr x, v') \<longleftrightarrow> \<not> b \<and> m v = (Inr x, v')"
    for b and e :: swap_error and m :: "('a, swap_error, transaction) op" and v x v'
    by simp
  from assms(1) show ?thesis
    unfolding create_claim_tx_def Let_def cs_def [symmetric] seq_Inr_iff lift_res_Inr lock of_option_Inr
      len_in fail by blast
qed

lemma claim_tx_shape:
  assumes "create_claim_tx sv lib claimables fee height dest w = (Inr tx, w')"
  defines "cs \<equiv> sort_key (txo_outpoint \<circ> cu_utxo) claimables"
  shows "\<exists>out. tx_output tx = [out] \<and> txo_script out = address_script lib dest \<and>
    dust_limit_sat sv \<le> txo_value out \<and> tx_lock_time tx = ucast height \<and>
    map previous_output (tx_input tx) = map (txo_outpoint \<circ> cu_utxo) cs \<and>
    list_all (\<lambda>i. tx_sequence i = 0) (tx_input tx) \<and>
    list_all2 (\<lambda>i c. \<exists>sig ctl. tx_witness i =
        [sig, of_b32 (cu_preimage c), claim_script (swap_public (cu_swap c)), ctl]) (tx_input tx) cs"
proof -
  obtain v where dust: "\<not> v < dust_limit_sat sv"
    and sign: "sign_inputs sv (map (\<lambda>c. txo_tx_out (cu_utxo c)) cs) (enumerate 0 cs)
        (unsigned_claim_tx cs (ucast height) (address_script lib dest) v) w = (Inr tx, w')"
    using claim_tx_steps [OF assms(1), folded cs_def] by (elim exE conjE)
  from sign_inputs_Inr [OF sign] have out:
    "tx_output tx = [\<lparr>txo_value = v, txo_script = address_script lib dest\<rparr>]" "tx_lock_time tx = ucast height"
    and prev: "map previous_output (tx_input tx) = map (txo_outpoint \<circ> cu_utxo) cs"
    and seqs: "map tx_sequence (tx_input tx) = map (\<lambda>_. 0) cs"
    and wit: "\<forall>i<length cs. \<exists>sig ctl. tx_witness (tx_input tx ! i) =
        [sig, of_b32 (cu_preimage (cs ! i)), claim_script (swap_public (cu_swap (cs ! i))), ctl]"
    by (simp_all add: unsigned_claim_tx_def comp_def)
  have n: "length (tx_input tx) = length cs" using prev by (metis length_map)
  have "list_all (\<lambda>i. tx_sequence i = 0) (tx_input tx)"
    using seqs n by (auto simp: list_all_length) (metis nth_map)
  moreover have "list_all2 (\<lambda>i c. \<exists>sig ctl. tx_witness i =
      [sig, of_b32 (cu_preimage c), claim_script (swap_public (cu_swap c)), ctl]) (tx_input tx) cs"
    using wit n by (simp add: list_all2_conv_all_nth)
  ultimately show ?thesis using out prev dust by (simp add: not_less)
qed

lemma claim_tx_value:
  assumes "create_claim_tx sv lib claimables fee height dest w = (Inr tx, w')"
    and "(\<Sum>c\<leftarrow>claimables. unat (claim_value c)) < 2 ^ 64" and "length claimables < 2 ^ 32"
  defines "cs \<equiv> sort_key (txo_outpoint \<circ> cu_utxo) claimables"
  defines "wu \<equiv> claim_weight (sv_crypto sv) cs (ucast height) (address_script lib dest)"
  assumes "wu * unat (sat_per_kw fee) < 2 ^ 64"
  shows "map (\<lambda>out. unat (txo_value out)) (tx_output tx) =
    [(\<Sum>c\<leftarrow>claimables. unat (claim_value c)) - (wu * unat (sat_per_kw fee) + 999) div 1000]"
proof -
  define total where "total = claim_total cs"
  have perm: "(\<Sum>c\<leftarrow>cs. unat (claim_value c)) = (\<Sum>c\<leftarrow>claimables. unat (claim_value c))"
    unfolding cs_def sum_mset_sum_list [symmetric] mset_map mset_sort by (rule refl)
  then have total: "unat total = (\<Sum>c\<leftarrow>claimables. unat (claim_value c))"
    using claim_total_sum [of cs] assms(2) by (simp add: total_def)
  have len: "length cs = length claimables" by (simp add: cs_def)
  obtain weight where
    weight: "checked_add (tx_weight (sv_crypto sv)
        (unsigned_claim_tx cs (ucast height) (address_script lib dest) total))
        (word_of_nat (222 * length cs)) = Some weight"
    and sign: "sign_inputs sv (map (\<lambda>c. txo_tx_out (cu_utxo c)) cs) (enumerate 0 cs)
        (unsigned_claim_tx cs (ucast height) (address_script lib dest)
          (saturating_sub total (div_ceil (weight * ucast (sat_per_kw fee)) 1000))) w = (Inr tx, w')"
    using claim_tx_steps [OF assms(1), folded cs_def, folded total_def] by (elim exE conjE)
  have "222 * length cs < 2 ^ LENGTH(64)" using assms(3) len by simp
  then have "unat (word_of_nat (222 * length cs) :: u64) = 222 * length cs"
    unfolding unat_of_nat by (rule mod_less)
  then have wu: "unat weight = wu"
    using weight by (auto simp: checked_add_def wu_def claim_weight_def total_def unat_word_ariths
        split: if_splits)
  have "unat (weight * ucast (sat_per_kw fee)) = wu * unat (sat_per_kw fee)"
    using assms(6) by (simp add: unat_word_ariths wu unat_ucast_up)
  then have "unat (div_ceil (weight * ucast (sat_per_kw fee)) 1000) =
      (wu * unat (sat_per_kw fee) + 999) div 1000" by (simp add: unat_div_ceil)
  with sign_inputs_Inr [OF sign] show ?thesis
    by (simp add: unsigned_claim_tx_def unat_saturating_sub total)
qed

text \<open>C17: a claim transaction that is returned spends exactly the given outputs in outpoint order,
  reveals the preimage and the claim script in every input, is locked to the current height, and
  has one output: to the destination, of the sum of the inputs less the fee, which is the weight
  (with the witnesses to come) times the fee rate, rounded up; the output is not below dust.\<close>

theorem create_claim_tx_correct:
  assumes "create_claim_tx sv lib claimables fee height dest w = (Inr tx, w')"
    and "(\<Sum>c\<leftarrow>claimables. unat (claim_value c)) < 2 ^ 64" and "length claimables < 2 ^ 32"
  defines "cs \<equiv> sort_key (txo_outpoint \<circ> cu_utxo) claimables"
  defines "wu \<equiv> claim_weight (sv_crypto sv) cs (ucast height) (address_script lib dest)"
  assumes "wu * unat (sat_per_kw fee) < 2 ^ 64"
  shows "\<exists>out. tx_output tx = [out] \<and> txo_script out = address_script lib dest \<and>
    unat (txo_value out) =
      (\<Sum>c\<leftarrow>claimables. unat (claim_value c)) - (wu * unat (sat_per_kw fee) + 999) div 1000 \<and>
    dust_limit_sat sv \<le> txo_value out \<and> tx_lock_time tx = ucast height \<and>
    map previous_output (tx_input tx) = map (txo_outpoint \<circ> cu_utxo) cs \<and>
    list_all (\<lambda>i. tx_sequence i = 0) (tx_input tx) \<and>
    list_all2 (\<lambda>i c. \<exists>sig ctl. tx_witness i =
        [sig, of_b32 (cu_preimage c), claim_script (swap_public (cu_swap c)), ctl]) (tx_input tx) cs"
  using claim_tx_shape [OF assms(1)] claim_tx_value [OF assms(1-3), folded cs_def, folded wu_def, OF assms(6)]
  unfolding cs_def by auto


section \<open>A concrete service\<close>

definition ex_crypto :: crypto where
  "ex_crypto =
     \<lparr>build_script = (\<lambda>ps. [word_of_nat (length ps)]), ripemd160 = take 20, pubkey_of = (\<lambda>k. 2 # of_b32 k),
      x_only = tl, compressed_of_slice = Some, p2wpkh = (\<lambda>k n. ''w''), p2tr_tweaked = (\<lambda>k n. ''t''),
      musig_pubkey = Some, musig_seckey = Some, key_agg = concat, agg_pk = id, x_only_of_slice = Some,
      taproot_build = (\<lambda>ls k. Some \<lparr>tsi_output_key = k, tsi_tap_tweak = 3,
        tsi_control_block = (\<lambda>s. Some (192 # s))\<rparr>),
      tx_weight = (\<lambda>tx. 400), script_spend_sighash = (\<lambda>tx n ps s. Some (word_of_nat n)),
      key_spend_sighash = (\<lambda>tx n ps. Some (word_of_nat n)), sign_schnorr = (\<lambda>m k r. [1]),
      scalar_of = Some, tweak_add = (\<lambda>c t. Some c), nonce_gen = (\<lambda>c s k m e. Some ([4], [5])),
      agg_nonce = concat, musig_session = (\<lambda>c n m. c @ n), partial_sign = (\<lambda>s n k c. Some s)\<rparr>"

definition ex_service :: "'w swap_service" where
  "ex_service =
     \<lparr>dust_limit_sat = 546, sv_network = ''regtest'', new_private_key = ret 5, sv_lock_time = 288,
      sv_crypto = ex_crypto, sv_now = (\<lambda>_. 7)\<rparr>"

definition ex_bitcoin_lib :: bitcoin_lib where
  "ex_bitcoin_lib =
     \<lparr>compute_txid = (\<lambda>t. 1), compute_block_hash = (\<lambda>b. 1), bip34_block_height = (\<lambda>b. None),
      parse_address = (\<lambda>n s. Some s), address_from_script = (\<lambda>n s. None), address_script = (\<lambda>a. [9])\<rparr>"

definition ex_claimable2 :: claimable_utxo where
  "ex_claimable2 = ex_claimable\<lparr>cu_utxo := (cu_utxo ex_claimable)
     \<lparr>txo_outpoint := OutPoint 3 1, txo_tx_out := \<lparr>txo_value = 3000, txo_script = []\<rparr>\<rparr>\<rparr>"

lemma create_claim_tx_order_witness:
  "create_claim_tx ex_service ex_bitcoin_lib [ex_claimable, ex_claimable2] =
   create_claim_tx ex_service ex_bitcoin_lib [ex_claimable2, ex_claimable]"
  by (rule create_claim_tx_order) (simp_all add: ex_claimable_def ex_claimable2_def add_mset_commute)

lemma ex_sorted:
  "sort_key (txo_outpoint \<circ> cu_utxo) [ex_claimable, ex_claimable2] = [ex_claimable2, ex_claimable]"
  by (simp add: ex_claimable_def ex_claimable2_def less_eq_outpoint_def)

lemma create_claim_tx_correct_witness:
  "\<exists>tx out. create_claim_tx ex_service ex_bitcoin_lib [ex_claimable, ex_claimable2]
       \<lparr>sat_per_kw = 253\<rparr> 109 ''d'' () = (Inr tx, ()) \<and>
     tx_output tx = [out] \<and> unat (txo_value out) = 4000 - 214 \<and>
     map previous_output (tx_input tx) = [OutPoint 3 1, OutPoint 7 0]"
proof -
  have "\<exists>tx. create_claim_tx ex_service ex_bitcoin_lib [ex_claimable, ex_claimable2]
       \<lparr>sat_per_kw = 253\<rparr> 109 ''d'' () = (Inr tx, ())"
    unfolding create_claim_tx_def Let_def ex_sorted
    by (simp add: seq_def map_err_def of_option_def lock_time_from_height_def checked_add_def
        unsigned_claim_tx_def claim_total_def ex_claimable_def ex_claimable2_def ex_service_def
        ex_crypto_def ex_bitcoin_lib_def saturating_sub_def div_ceil_def claim_witness_def
        taproot_spend_info_def key_agg_cache_def bind_res_def ex_swap_def Let_def)
  then obtain tx where tx: "create_claim_tx ex_service ex_bitcoin_lib [ex_claimable, ex_claimable2]
       \<lparr>sat_per_kw = 253\<rparr> 109 ''d'' () = (Inr tx, ())" ..
  have "claim_weight (sv_crypto (ex_service :: unit swap_service)) [ex_claimable2, ex_claimable] 109
      (address_script ex_bitcoin_lib ''d'') = 844"
    by (simp add: claim_weight_def ex_service_def ex_crypto_def)
  with create_claim_tx_correct [OF tx, unfolded ex_sorted] tx show ?thesis
    by (force simp: claim_value_def ex_claimable_def ex_claimable2_def)
qed

end
