(* ===== verification/Swap_Repository.thy ===== *)
theory Swap_Repository
  imports Swap_Types
begin

text \<open>
  The swap tables and the statements of \<open>postgresql/swap_repository.rs\<close>: the swaps with their
  preimages, the payment attempts with the outputs they pay for, and the locks that keep a payment
  and a refund of one swap apart.

  A table is the list of its rows, a BIGINT or INTEGER column the word written to it, a BYTEA
  column its bytes. \<open>SELECT \<dots> FOR UPDATE\<close> makes the transactions on one swap wait for each other;
  here every transaction is one step of the state.
\<close>

section \<open>Tables\<close>

record swap_row =
  sr_address :: address
  sr_claim_privkey :: bytes
  sr_claim_pubkey :: bytes
  sr_claim_script :: bytes
  sr_creation_time :: i64
  sr_lock_time :: i32
  sr_payment_hash :: bytes
  sr_preimage :: "bytes option"
  sr_refund_pubkey :: bytes
  sr_refund_script :: bytes

record attempt_row =
  ar_id :: nat
  ar_swap_payment_hash :: bytes
  ar_label :: label
  ar_creation_time :: i64
  ar_amount_msat :: i64
  ar_payment_request :: string
  ar_destination :: bytes
  ar_success :: "bool option"
  ar_error :: "string option"

record attempt_output_row =
  ao_attempt_id :: nat
  ao_tx_id :: txid
  ao_output_index :: i64

record lock_row =
  lr_swap_payment_hash :: bytes
  lr_refund_id :: "string option"
  lr_payment_attempt_label :: "label option"

record swap_db =
  db_swaps :: "swap_row list"
  db_attempts :: "attempt_row list"
  db_attempt_outputs :: "attempt_output_row list"
  db_locks :: "lock_row list"
  db_next_attempt :: nat

definition empty_swap_db :: swap_db where
  "empty_swap_db =
     \<lparr>db_swaps = [], db_attempts = [], db_attempt_outputs = [], db_locks = [], db_next_attempt = 1\<rparr>"

text \<open>
  What the repository is built with; \<open>rc_iteration_order\<close> is the order in which a \<open>HashMap\<close> keyed
  by labels hands out its values.
\<close>

record swap_repo_cfg =
  rc_lib :: bitcoin_lib
  rc_network :: network
  rc_parse_pubkey :: "bytes \<Rightarrow> pubkey option"
  rc_parse_seckey :: "bytes \<Rightarrow> seckey option"
  rc_iteration_order :: "label list \<Rightarrow> label list"
  rc_payment_hash_rank :: "bytes \<Rightarrow> nat"

definition swaps_err :: "sqlx_error \<Rightarrow> get_swaps_error" where
  "swaps_err e = GetSwapsGeneral (BoxSqlx e)"

definition lock_err :: "sqlx_error \<Rightarrow> lock_swap_error" where
  "lock_err e = LockGeneral (BoxSqlx e)"

definition attempts_err :: "sqlx_error \<Rightarrow> get_payment_attempts_error" where
  "attempts_err e = AttemptGeneral (BoxSqlx e)"

fun persistence_err :: "sqlx_error \<Rightarrow> swap_persistence_error" where
  "persistence_err (SqlxDatabase (Some c)) = AlreadyExists"
| "persistence_err e = SwapPersistenceGeneral (BoxSqlx e)"

section \<open>Swaps\<close>

definition map_swap_state :: "swap_repo_cfg \<Rightarrow> swap_row \<Rightarrow> get_swaps_error + swap_state" where
  "map_swap_state cfg row =
     bind_res (of_option (GetSwapsGeneral (BoxMsg ''invalid timestamp''))
                (time_of_secs (sr_creation_time row))) (\<lambda>t.
     bind_res (of_option (GetSwapsGeneral (BoxMsg ''address''))
                (parse_address (rc_lib cfg) (rc_network cfg) (sr_address row))) (\<lambda>a.
     bind_res (of_option (GetSwapsGeneral (BoxMsg ''secp256k1''))
                (rc_parse_pubkey cfg (sr_claim_pubkey row))) (\<lambda>ck.
     bind_res (of_option (GetSwapsGeneral (BoxMsg ''hash''))
                (to_b32 (sr_payment_hash row))) (\<lambda>h.
     bind_res (of_option (GetSwapsGeneral (BoxMsg ''secp256k1''))
                (rc_parse_pubkey cfg (sr_refund_pubkey row))) (\<lambda>rk.
     bind_res (of_option (GetSwapsGeneral (BoxMsg ''secp256k1''))
                (rc_parse_seckey cfg (sr_claim_privkey row))) (\<lambda>sk.
     bind_res (case sr_preimage row of
                 None \<Rightarrow> Inr None
               | Some p \<Rightarrow> of_option GetSwapsInvalidPreimage (map_option Some (to_b32 p))) (\<lambda>p.
     Inr \<lparr>ss_swap =
            \<lparr>creation_time = t,
             swap_public =
               \<lparr>sp_address = a, claim_pubkey = ck, claim_script = sr_claim_script row, swap_hash = h,
                lock_time = ucast (sr_lock_time row), refund_pubkey = rk,
                refund_script = sr_refund_script row\<rparr>,
             swap_private = \<lparr>claim_privkey = sk\<rparr>\<rparr>,
          ss_preimage = p\<rparr>)))))))"

definition swap_row_of :: "swap \<Rightarrow> i64 \<Rightarrow> swap_row" where
  "swap_row_of s secs =
     \<lparr>sr_address = sp_address (swap_public s),
      sr_claim_privkey = of_b32 (claim_privkey (swap_private s)),
      sr_claim_pubkey = claim_pubkey (swap_public s),
      sr_claim_script = claim_script (swap_public s), sr_creation_time = secs,
      sr_lock_time = ucast (lock_time (swap_public s)),
      sr_payment_hash = of_b32 (swap_hash (swap_public s)), sr_preimage = None,
      sr_refund_pubkey = refund_pubkey (swap_public s),
      sr_refund_script = refund_script (swap_public s)\<rparr>"

text \<open>The payment hash is the primary key: a second row for it violates that constraint.\<close>

definition insert_swap :: "swap_row \<Rightarrow> swap_db \<Rightarrow> sqlx_error + (unit \<times> swap_db)" where
  "insert_swap row d =
     (if sr_payment_hash row \<in> sr_payment_hash ` set (db_swaps d)
      then Inl (SqlxDatabase (Some ''swaps_pkey''))
      else Inr ((), d\<lparr>db_swaps := db_swaps d @ [row]\<rparr>))"

definition pg_add_swap :: "swap \<Rightarrow> (swap_db pg, swap_persistence_error, unit) op" where
  "pg_add_swap s =
     seq (lift_res (of_option (SwapPersistenceGeneral (BoxMsg ''time''))
            (secs_of_time (creation_time s)))) (\<lambda>secs.
     map_err persistence_err (stmt (insert_swap (swap_row_of s secs))))"

text \<open>\<open>fetch_optional\<close> returns the first row the statement yields.\<close>

definition first_row :: "'r list \<Rightarrow> 'r option" where
  "first_row rs = (case rs of [] \<Rightarrow> None | r # _ \<Rightarrow> Some r)"

definition swap_of_rows ::
    "swap_repo_cfg \<Rightarrow> (swap_db \<Rightarrow> swap_row list) \<Rightarrow> (swap_db pg, get_swaps_error, swap_state) op" where
  "swap_of_rows cfg sel =
     seq (map_err swaps_err (query (\<lambda>d. first_row (sel d)))) (\<lambda>maybe_row.
       case maybe_row of
         None \<Rightarrow> fail GetSwapsNotFound
       | Some row \<Rightarrow> lift_res (map_swap_state cfg row))"

definition pg_get_swap_by_hash ::
    "swap_repo_cfg \<Rightarrow> sha256 \<Rightarrow> (swap_db pg, get_swaps_error, swap_state) op" where
  "pg_get_swap_by_hash cfg h =
     swap_of_rows cfg (\<lambda>d. filter (\<lambda>r. sr_payment_hash r = of_b32 h) (db_swaps d))"

definition pg_get_swap_by_address ::
    "swap_repo_cfg \<Rightarrow> address \<Rightarrow> (swap_db pg, get_swaps_error, swap_state) op" where
  "pg_get_swap_by_address cfg a =
     swap_of_rows cfg (\<lambda>d. filter (\<lambda>r. sr_address r = a) (db_swaps d))"

definition pg_get_swap_by_payment_request ::
    "swap_repo_cfg \<Rightarrow> string \<Rightarrow> (swap_db pg, get_swaps_error, swap_state) op" where
  "pg_get_swap_by_payment_request cfg req =
     swap_of_rows cfg (\<lambda>d. [s. s \<leftarrow> db_swaps d, p \<leftarrow> db_attempts d,
       ar_swap_payment_hash p = sr_payment_hash s, ar_payment_request p = req])"

text \<open>The loops that insert into the result map stop at the first row that does not parse.\<close>

fun collect_swaps ::
    "swap_repo_cfg \<Rightarrow> swap_row list \<Rightarrow> (address \<rightharpoonup> swap_state) \<Rightarrow>
     get_swaps_error + (address \<rightharpoonup> swap_state)" where
  "collect_swaps cfg [] m = Inr m"
| "collect_swaps cfg (r # rs) m =
     bind_res (map_swap_state cfg r) (\<lambda>s.
     collect_swaps cfg rs (m(sp_address (swap_public (ss_swap s)) \<mapsto> s)))"

definition pg_get_swaps ::
    "swap_repo_cfg \<Rightarrow> address list \<Rightarrow> (swap_db pg, get_swaps_error, address \<rightharpoonup> swap_state) op" where
  "pg_get_swaps cfg as =
     seq (map_err swaps_err (query (\<lambda>d. filter (\<lambda>r. sr_address r \<in> set as) (db_swaps d)))) (\<lambda>rows.
     lift_res (collect_swaps cfg rows Map.empty))"

section \<open>Paid outpoints\<close>

type_synonym paid_row = "string \<times> txid \<times> i64"

text \<open>
  The \<open>DISTINCT\<close> subquery of the successful attempts' outputs, and the \<open>LEFT JOIN\<close> on it.
\<close>

definition paid_rows :: "swap_db \<Rightarrow> bytes \<Rightarrow> paid_row list" where
  "paid_rows d h =
     remdups [(ar_payment_request pa, ao_tx_id out, ao_output_index out).
        s \<leftarrow> db_swaps d, sr_payment_hash s = h,
        pa \<leftarrow> db_attempts d, ar_swap_payment_hash pa = h, ar_success pa = Some True,
        out \<leftarrow> db_attempt_outputs d, ao_attempt_id out = ar_id pa]"

definition swap_paid_rows ::
    "swap_repo_cfg \<Rightarrow> address list \<Rightarrow> swap_db \<Rightarrow> (swap_row \<times> paid_row option) list" where
  "swap_paid_rows cfg as d =
     concat (map (\<lambda>s. case paid_rows d (sr_payment_hash s) of
          [] \<Rightarrow> [(s, None)]
        | p # ps \<Rightarrow> map (\<lambda>q. (s, Some q)) (p # ps))
       (sort_key (\<lambda>s. rc_payment_hash_rank cfg (sr_payment_hash s))
         (filter (\<lambda>s. sr_address s \<in> set as) (db_swaps d))))"

definition parse_row_address :: "swap_repo_cfg \<Rightarrow> string \<Rightarrow> get_swaps_error + address" where
  "parse_row_address cfg s =
     of_option (GetSwapsGeneral (BoxMsg ''address'')) (parse_address (rc_lib cfg) (rc_network cfg) s)"

fun collect_paid ::
    "swap_repo_cfg \<Rightarrow> (swap_row \<times> paid_row option) list \<Rightarrow> (address \<rightharpoonup> swap_state_paid_outpoints) \<Rightarrow>
     get_swaps_error + (address \<rightharpoonup> swap_state_paid_outpoints)" where
  "collect_paid cfg [] m = Inr m"
| "collect_paid cfg ((s, paid) # rows) m =
     bind_res (parse_row_address cfg (sr_address s)) (\<lambda>a.
     bind_res (if m a \<noteq> None then Inr m
               else bind_res (map_swap_state cfg s) (\<lambda>st.
                      Inr (m(a \<mapsto> \<lparr>spo_swap_state = st, spo_paid_outpoints = []\<rparr>)))) (\<lambda>m.
     case paid of
       None \<Rightarrow> collect_paid cfg rows m
     | Some (req, t, i) \<Rightarrow>
         bind_res (of_option (GetSwapsGeneral (BoxMsg ''missing expected address in map'')) (m a))
           (\<lambda>entry.
         collect_paid cfg rows (m(a \<mapsto> entry\<lparr>spo_paid_outpoints := spo_paid_outpoints entry @
           [\<lparr>po_outpoint = OutPoint t (ucast i), po_payment_request = req\<rparr>]\<rparr>)))))"

definition pg_get_swaps_with_paid_outpoints ::
    "swap_repo_cfg \<Rightarrow> address list \<Rightarrow>
     (swap_db pg, get_swaps_error, address \<rightharpoonup> swap_state_paid_outpoints) op" where
  "pg_get_swaps_with_paid_outpoints cfg as =
     seq (map_err swaps_err (query (swap_paid_rows cfg as))) (\<lambda>rows.
     lift_res (collect_paid cfg rows Map.empty))"

section \<open>Payment attempts\<close>

text \<open>The rows of the attempts in the order of their creation, joined with their outputs.\<close>

definition attempt_join ::
    "(attempt_row \<Rightarrow> bool) \<Rightarrow> swap_db \<Rightarrow> (attempt_row \<times> attempt_output_row option) list" where
  "attempt_join sel d =
     concat (map (\<lambda>pa. case filter (\<lambda>out. ao_attempt_id out = ar_id pa) (db_attempt_outputs d) of
          [] \<Rightarrow> [(pa, None)]
        | out # outs \<Rightarrow> map (\<lambda>q. (pa, Some q)) (out # outs))
       (sort_key (\<lambda>pa. sint (ar_creation_time pa)) (filter sel (db_attempts d))))"

definition parse_attempt ::
    "swap_repo_cfg \<Rightarrow> attempt_row \<Rightarrow> get_payment_attempts_error + payment_attempt" where
  "parse_attempt cfg row =
     bind_res (of_option (AttemptGeneral (BoxMsg ''hash'')) (to_b32 (ar_swap_payment_hash row))) (\<lambda>h.
     bind_res (of_option (AttemptGeneral (BoxMsg ''invalid timestamp''))
                (time_of_secs (ar_creation_time row))) (\<lambda>t.
     bind_res (of_option (AttemptGeneral (BoxMsg ''secp256k1''))
                (rc_parse_pubkey cfg (ar_destination row))) (\<lambda>dest.
     Inr \<lparr>pa_creation_time = t, pa_label = ar_label row, pa_payment_hash = h, pa_outputs = [],
          pa_amount_msat = ar_amount_msat row, pa_destination = dest,
          pa_payment_request = ar_payment_request row\<rparr>)))"

definition output_of_row :: "attempt_output_row option \<Rightarrow> outpoint list" where
  "output_of_row out =
     (case out of None \<Rightarrow> [] | Some q \<Rightarrow> [OutPoint (ao_tx_id q) (ucast (ao_output_index q))])"

text \<open>
  The map the loop builds, with its labels in the order of insertion: the first row of a label
  makes the entry, every row adds its output to it.
\<close>

type_synonym 'a labelled = "label list \<times> (label \<rightharpoonup> 'a)"

definition entry_or_insert :: "label \<Rightarrow> 'a \<Rightarrow> 'a labelled \<Rightarrow> 'a labelled" where
  "entry_or_insert l new m =
     (case snd m l of None \<Rightarrow> (fst m @ [l], (snd m)(l \<mapsto> new)) | Some _ \<Rightarrow> m)"

definition modify_entry :: "label \<Rightarrow> ('a \<Rightarrow> 'a) \<Rightarrow> 'a labelled \<Rightarrow> 'a labelled" where
  "modify_entry l f m = (fst m, (snd m)(l := map_option f (snd m l)))"

definition into_values :: "swap_repo_cfg \<Rightarrow> 'a labelled \<Rightarrow> 'a list" where
  "into_values cfg m = map (\<lambda>l. the (snd m l)) (rc_iteration_order cfg (fst m))"

definition push_outputs :: "outpoint list \<Rightarrow> payment_attempt \<Rightarrow> payment_attempt" where
  "push_outputs ps a = a\<lparr>pa_outputs := pa_outputs a @ ps\<rparr>"

fun collect_attempts ::
    "swap_repo_cfg \<Rightarrow> (attempt_row \<times> attempt_output_row option) list \<Rightarrow> payment_attempt labelled \<Rightarrow>
     get_payment_attempts_error + payment_attempt labelled" where
  "collect_attempts cfg [] m = Inr m"
| "collect_attempts cfg ((row, out) # rows) m =
     bind_res (parse_attempt cfg row) (\<lambda>a.
     collect_attempts cfg rows
       (modify_entry (ar_label row) (push_outputs (output_of_row out))
         (entry_or_insert (ar_label row) a m)))"

definition pg_get_unhandled_payment_attempts ::
    "swap_repo_cfg \<Rightarrow> (swap_db pg, get_payment_attempts_error, payment_attempt list) op" where
  "pg_get_unhandled_payment_attempts cfg =
     seq (map_err attempts_err (query (attempt_join (\<lambda>pa. ar_success pa = None)))) (\<lambda>rows.
     seq (lift_res (collect_attempts cfg rows ([], Map.empty))) (\<lambda>m.
     ret (into_values cfg m)))"

definition attempt_result ::
    "attempt_row \<Rightarrow> bytes option \<Rightarrow> get_payment_attempts_error + payment_result option" where
  "attempt_result row preimage =
     (case ar_success row of
        Some True \<Rightarrow>
          (case preimage of
             None \<Rightarrow> Inl AttemptInvalidPreimage
           | Some p \<Rightarrow>
               of_option AttemptInvalidPreimage (map_option (Some \<circ> PaymentSuccess) (to_b32 p)))
      | Some False \<Rightarrow>
          Inr (Some (PaymentFailure (case ar_error row of None \<Rightarrow> ''unknown error'' | Some e \<Rightarrow> e)))
      | None \<Rightarrow> Inr None)"

fun collect_results ::
    "swap_repo_cfg \<Rightarrow> ((attempt_row \<times> attempt_output_row option) \<times> bytes option) list \<Rightarrow>
     payment_attempt_with_result labelled \<Rightarrow>
     get_payment_attempts_error + payment_attempt_with_result labelled" where
  "collect_results cfg [] m = Inr m"
| "collect_results cfg (((row, out), preimage) # rows) m =
     bind_res (parse_attempt cfg row) (\<lambda>a.
     bind_res (attempt_result row preimage) (\<lambda>res.
     collect_results cfg rows
       (modify_entry (ar_label row)
         (\<lambda>e. e\<lparr>pwr_attempt := push_outputs (output_of_row out) (pwr_attempt e)\<rparr>)
         (entry_or_insert (ar_label row) \<lparr>pwr_attempt = a, pwr_result = res\<rparr> m))))"

definition swap_attempt_rows ::
    "bytes \<Rightarrow> swap_db \<Rightarrow> ((attempt_row \<times> attempt_output_row option) \<times> bytes option) list" where
  "swap_attempt_rows h d =
     [(row, sr_preimage s). row \<leftarrow> attempt_join (\<lambda>pa. ar_swap_payment_hash pa = h) d,
        s \<leftarrow> db_swaps d, sr_payment_hash s = ar_swap_payment_hash (fst row)]"

definition pg_get_swap_payment_attempts ::
    "swap_repo_cfg \<Rightarrow> sha256 \<Rightarrow>
     (swap_db pg, get_payment_attempts_error, payment_attempt_with_result list) op" where
  "pg_get_swap_payment_attempts cfg h =
     seq (map_err attempts_err (query (swap_attempt_rows (of_b32 h)))) (\<lambda>rows.
     seq (lift_res (collect_results cfg rows ([], Map.empty))) (\<lambda>m.
     ret (into_values cfg m)))"

section \<open>Locks\<close>

definition pg_get_swap_locks :: "sha256 \<Rightarrow> (swap_db pg, lock_swap_error, swap_lock list) op" where
  "pg_get_swap_locks h =
     map_err lock_err (query (\<lambda>d.
       map (\<lambda>r. \<lparr>refund_id = lr_refund_id r, payment_attempt_label = lr_payment_attempt_label r\<rparr>)
         (filter (\<lambda>r. lr_swap_payment_hash r = of_b32 h) (db_locks d))))"

definition lock_swap_for_update :: "sha256 \<Rightarrow> (swap_db pg, lock_swap_error, unit) op" where
  "lock_swap_for_update h =
     seq (map_err lock_err (query (\<lambda>d. \<exists>r\<in>set (db_swaps d). sr_payment_hash r = of_b32 h)))
       (\<lambda>found. if found then ret () else fail SwapNotFound)"

definition insert_lock :: "lock_row \<Rightarrow> swap_db \<Rightarrow> swap_db" where
  "insert_lock r d = d\<lparr>db_locks := db_locks d @ [r]\<rparr>"

definition insert_attempt :: "payment_attempt \<Rightarrow> i64 \<Rightarrow> swap_db \<Rightarrow> nat \<times> swap_db" where
  "insert_attempt a secs d =
     (db_next_attempt d,
      d\<lparr>db_attempts := db_attempts d @
          [\<lparr>ar_id = db_next_attempt d, ar_swap_payment_hash = of_b32 (pa_payment_hash a),
            ar_label = pa_label a, ar_creation_time = secs, ar_amount_msat = pa_amount_msat a,
            ar_payment_request = pa_payment_request a, ar_destination = pa_destination a,
            ar_success = None, ar_error = None\<rparr>],
        db_next_attempt := db_next_attempt d + 1\<rparr>)"

definition insert_attempt_outputs :: "nat \<Rightarrow> outpoint list \<Rightarrow> swap_db \<Rightarrow> swap_db" where
  "insert_attempt_outputs i ps d =
     d\<lparr>db_attempt_outputs := db_attempt_outputs d @
         map (\<lambda>p. \<lparr>ao_attempt_id = i, ao_tx_id = op_txid p, ao_output_index = ucast (op_vout p)\<rparr>) ps\<rparr>"

definition pg_lock_add_payment_attempt ::
    "payment_attempt \<Rightarrow> (swap_db pg, lock_swap_error, unit) op" where
  "pg_lock_add_payment_attempt a =
     transact lock_err
       (let h = of_b32 (pa_payment_hash a) in
        seq (lock_swap_for_update (pa_payment_hash a)) (\<lambda>_.
        seq (map_err lock_err (query (\<lambda>d.
               length (filter (\<lambda>r. lr_swap_payment_hash r = h) (db_locks d))))) (\<lambda>count.
        if count > 0 then fail AlreadyLocked
        else
          seq (map_err lock_err (exec (insert_lock
                 \<lparr>lr_swap_payment_hash = h, lr_refund_id = None,
                  lr_payment_attempt_label = Some (pa_label a)\<rparr>))) (\<lambda>_.
          seq (lift_res (of_option (LockGeneral (BoxMsg ''time''))
                 (secs_of_time (pa_creation_time a)))) (\<lambda>secs.
          seq (map_err lock_err (stmt (\<lambda>d. Inr (insert_attempt a secs d)))) (\<lambda>i.
          map_err lock_err (exec (insert_attempt_outputs i (pa_outputs a)))))))))"

definition pg_lock_swap_refund ::
    "sha256 \<Rightarrow> string \<Rightarrow> (swap_db pg, lock_swap_error, unit) op" where
  "pg_lock_swap_refund hash rid =
     transact lock_err
       (let h = of_b32 hash in
        seq (lock_swap_for_update hash) (\<lambda>_.
        seq (map_err lock_err (query (\<lambda>d.
               length (filter (\<lambda>r. lr_swap_payment_hash r = h \<and> lr_payment_attempt_label r \<noteq> None)
                 (db_locks d))))) (\<lambda>count.
        if count > 0 then fail AlreadyLocked
        else
          map_err lock_err (exec (insert_lock
            \<lparr>lr_swap_payment_hash = h, lr_refund_id = Some rid, lr_payment_attempt_label = None\<rparr>)))))"

definition delete_locks :: "(lock_row \<Rightarrow> bool) \<Rightarrow> swap_db \<Rightarrow> swap_db" where
  "delete_locks P d = d\<lparr>db_locks := filter (\<lambda>r. \<not> P r) (db_locks d)\<rparr>"

definition update_swaps :: "(swap_row \<Rightarrow> swap_row) \<Rightarrow> bytes \<Rightarrow> swap_db \<Rightarrow> swap_db" where
  "update_swaps f h d =
     d\<lparr>db_swaps := map (\<lambda>r. if sr_payment_hash r = h then f r else r) (db_swaps d)\<rparr>"

definition update_attempts :: "(attempt_row \<Rightarrow> attempt_row) \<Rightarrow> label \<Rightarrow> swap_db \<Rightarrow> swap_db" where
  "update_attempts f l d =
     d\<lparr>db_attempts := map (\<lambda>r. if ar_label r = l then f r else r) (db_attempts d)\<rparr>"

definition store_result ::
    "bytes \<Rightarrow> label \<Rightarrow> payment_result \<Rightarrow> (swap_db pg, sqlx_error, unit) op" where
  "store_result h l result =
     (case result of
        PaymentSuccess p \<Rightarrow>
          seq (exec (update_swaps (\<lambda>r. r\<lparr>sr_preimage := Some (of_b32 p)\<rparr>) h)) (\<lambda>_.
          exec (update_attempts (\<lambda>r. r\<lparr>ar_success := Some True\<rparr>) l))
      | PaymentFailure e \<Rightarrow>
          exec (update_attempts (\<lambda>r. r\<lparr>ar_success := Some False, ar_error := Some e\<rparr>) l))"

definition pg_unlock_add_payment_result ::
    "sha256 \<Rightarrow> label \<Rightarrow> payment_result \<Rightarrow> (swap_db pg, lock_swap_error, unit) op" where
  "pg_unlock_add_payment_result hash l result =
     transact lock_err
       (let h = of_b32 hash in
        seq (lock_swap_for_update hash) (\<lambda>_.
        seq (map_err lock_err (exec (delete_locks
               (\<lambda>r. lr_swap_payment_hash r = h \<and> lr_payment_attempt_label r = Some l)))) (\<lambda>_.
        map_err lock_err (store_result h l result))))"

definition pg_unlock_swap_refund ::
    "sha256 \<Rightarrow> string \<Rightarrow> (swap_db pg, lock_swap_error, unit) op" where
  "pg_unlock_swap_refund hash rid =
     transact lock_err
       (seq (lock_swap_for_update hash) (\<lambda>_.
        map_err lock_err (exec (delete_locks
          (\<lambda>r. lr_swap_payment_hash r = of_b32 hash \<and> lr_refund_id r = Some rid)))))"

definition pg_swap_repository :: "swap_repo_cfg \<Rightarrow> swap_db pg swap_repository" where
  "pg_swap_repository cfg =
     \<lparr>add_swap = pg_add_swap,
      get_swap_by_hash = pg_get_swap_by_hash cfg,
      get_swap_by_address = pg_get_swap_by_address cfg,
      get_swap_by_payment_request = pg_get_swap_by_payment_request cfg,
      get_swap_locks = pg_get_swap_locks,
      get_swap_payment_attempts = pg_get_swap_payment_attempts cfg,
      get_swaps = pg_get_swaps cfg,
      get_swaps_with_paid_outpoints = pg_get_swaps_with_paid_outpoints cfg,
      get_unhandled_payment_attempts = pg_get_unhandled_payment_attempts cfg,
      lock_add_payment_attempt = pg_lock_add_payment_attempt,
      lock_swap_refund = pg_lock_swap_refund,
      unlock_add_payment_result = pg_unlock_add_payment_result,
      unlock_swap_refund = pg_unlock_swap_refund\<rparr>"

section \<open>What the lock operations do\<close>

lemma of_b32_inj [simp]: "of_b32 a = of_b32 b \<longleftrightarrow> a = b"
  by (metis option.inject to_b32_of_b32)

definition locks_of :: "swap_db \<Rightarrow> sha256 \<Rightarrow> swap_lock list" where
  "locks_of d h =
     map (\<lambda>r. \<lparr>refund_id = lr_refund_id r, payment_attempt_label = lr_payment_attempt_label r\<rparr>)
       (filter (\<lambda>r. lr_swap_payment_hash r = of_b32 h) (db_locks d))"

definition has_swap :: "swap_db \<Rightarrow> sha256 \<Rightarrow> bool" where
  "has_swap d h \<longleftrightarrow> (\<exists>r\<in>set (db_swaps d). sr_payment_hash r = of_b32 h)"

definition pay_lock_effect :: "payment_attempt \<Rightarrow> i64 \<Rightarrow> swap_db \<Rightarrow> swap_db" where
  "pay_lock_effect a secs d =
     (case insert_attempt a secs (insert_lock
        \<lparr>lr_swap_payment_hash = of_b32 (pa_payment_hash a), lr_refund_id = None,
         lr_payment_attempt_label = Some (pa_label a)\<rparr> d) of
        (i, d') \<Rightarrow> insert_attempt_outputs i (pa_outputs a) d')"

definition refund_lock_effect :: "sha256 \<Rightarrow> string \<Rightarrow> swap_db \<Rightarrow> swap_db" where
  "refund_lock_effect h rid =
     insert_lock \<lparr>lr_swap_payment_hash = of_b32 h, lr_refund_id = Some rid, lr_payment_attempt_label = None\<rparr>"

definition store_effect :: "sha256 \<Rightarrow> label \<Rightarrow> payment_result \<Rightarrow> swap_db \<Rightarrow> swap_db" where
  "store_effect h l result d =
     (case result of
        PaymentSuccess p \<Rightarrow>
          update_attempts (\<lambda>r. r\<lparr>ar_success := Some True\<rparr>) l
            (update_swaps (\<lambda>r. r\<lparr>sr_preimage := Some (of_b32 p)\<rparr>) (of_b32 h) d)
      | PaymentFailure e \<Rightarrow>
          update_attempts (\<lambda>r. r\<lparr>ar_success := Some False, ar_error := Some e\<rparr>) l d)"

definition pay_unlock_effect :: "sha256 \<Rightarrow> label \<Rightarrow> payment_result \<Rightarrow> swap_db \<Rightarrow> swap_db" where
  "pay_unlock_effect h l result d =
     store_effect h l result (delete_locks
       (\<lambda>r. lr_swap_payment_hash r = of_b32 h \<and> lr_payment_attempt_label r = Some l) d)"

definition refund_unlock_effect :: "sha256 \<Rightarrow> string \<Rightarrow> swap_db \<Rightarrow> swap_db" where
  "refund_unlock_effect h rid =
     delete_locks (\<lambda>r. lr_swap_payment_hash r = of_b32 h \<and> lr_refund_id r = Some rid)"

lemma lock_for_update_Inr:
  "lock_swap_for_update h s = (Inr u, s') \<Longrightarrow> pg_data s' = pg_data s \<and> has_swap (pg_data s) h"
  by (auto simp: lock_swap_for_update_def has_swap_def op_iffs dest!: query_Inr split: if_splits)

lemma store_result_Inr:
  "store_result (of_b32 h) l res s = (Inr u, s') \<Longrightarrow> pg_data s' = store_effect h l res (pg_data s)"
  by (auto simp: store_result_def store_effect_def op_iffs dest!: exec_Inr split: payment_result.splits)

lemma pg_lock_pay_Inr:
  assumes "pg_lock_add_payment_attempt a s = (Inr u, s')"
  shows "has_swap (pg_data s) (pa_payment_hash a) \<and> locks_of (pg_data s) (pa_payment_hash a) = [] \<and>
    (\<exists>secs. secs_of_time (pa_creation_time a) = Some secs \<and>
       pg_data s' = pay_lock_effect a secs (pg_data s))"
  using assms unfolding pg_lock_add_payment_attempt_def Let_def
  by (elim transact_Inr)
     (auto simp: run_Inr pay_lock_effect_def locks_of_def split: if_splits prod.splits
       dest!: lock_for_update_Inr query_Inr exec_Inr stmt_Inr)

lemma pg_lock_refund_Inr:
  assumes "pg_lock_swap_refund h rid s = (Inr u, s')"
  shows "has_swap (pg_data s) h \<and>
    (\<forall>l\<in>set (locks_of (pg_data s) h). payment_attempt_label l = None) \<and>
    pg_data s' = refund_lock_effect h rid (pg_data s)"
  using assms unfolding pg_lock_swap_refund_def Let_def
  by (elim transact_Inr)
     (auto simp: run_Inr refund_lock_effect_def locks_of_def filter_empty_conv split: if_splits
       dest!: lock_for_update_Inr query_Inr exec_Inr)

lemma pg_unlock_pay_Inr:
  assumes "pg_unlock_add_payment_result h l res s = (Inr u, s')"
  shows "has_swap (pg_data s) h \<and> pg_data s' = pay_unlock_effect h l res (pg_data s)"
  using assms unfolding pg_unlock_add_payment_result_def Let_def
  by (elim transact_Inr)
     (auto simp: run_Inr pay_unlock_effect_def dest!: lock_for_update_Inr exec_Inr store_result_Inr)

lemma pg_unlock_refund_Inr:
  assumes "pg_unlock_swap_refund h rid s = (Inr u, s')"
  shows "has_swap (pg_data s) h \<and> pg_data s' = refund_unlock_effect h rid (pg_data s)"
  using assms unfolding pg_unlock_swap_refund_def
  by (elim transact_Inr)
     (auto simp: run_Inr refund_unlock_effect_def dest!: lock_for_update_Inr exec_Inr)

lemma lock_op_Inl:
  "pg_lock_add_payment_attempt a s = (Inl e, s') \<Longrightarrow> pg_data s' = pg_data s"
  "pg_lock_swap_refund h rid s = (Inl e, s') \<Longrightarrow> pg_data s' = pg_data s"
  "pg_unlock_add_payment_result h l res s = (Inl e, s') \<Longrightarrow> pg_data s' = pg_data s"
  "pg_unlock_swap_refund h rid s = (Inl e, s') \<Longrightarrow> pg_data s' = pg_data s"
  unfolding pg_lock_add_payment_attempt_def pg_lock_swap_refund_def
    pg_unlock_add_payment_result_def pg_unlock_swap_refund_def
  by (rule transact_error_rolls_back, assumption)+

lemma locks_of_effects:
  "locks_of (pay_lock_effect a secs d) =
     (locks_of d)(pa_payment_hash a := locks_of d (pa_payment_hash a) @
        [\<lparr>refund_id = None, payment_attempt_label = Some (pa_label a)\<rparr>])"
  "locks_of (refund_lock_effect h rid d) =
     (locks_of d)(h := locks_of d h @ [\<lparr>refund_id = Some rid, payment_attempt_label = None\<rparr>])"
  "locks_of (pay_unlock_effect h l res d) =
     (locks_of d)(h := filter (\<lambda>k. payment_attempt_label k \<noteq> Some l) (locks_of d h))"
  "locks_of (refund_unlock_effect h rid d) =
     (locks_of d)(h := filter (\<lambda>k. refund_id k \<noteq> Some rid) (locks_of d h))"
  by (auto simp: fun_eq_iff locks_of_def pay_lock_effect_def refund_lock_effect_def
      pay_unlock_effect_def refund_unlock_effect_def store_effect_def update_attempts_def
      update_swaps_def insert_attempt_outputs_def insert_attempt_def insert_lock_def delete_locks_def
      filter_map comp_def split: prod.split payment_result.split intro!: arg_cong [where f = "map _"] filter_cong)


section \<open>The contract of the locks\<close>

definition exclusive :: "(sha256 \<Rightarrow> swap_lock list) \<Rightarrow> bool" where
  "exclusive ls \<longleftrightarrow>
     (\<forall>h. \<forall>k\<in>set (ls h). payment_attempt_label k \<noteq> None \<longrightarrow> ls h = [k] \<and> refund_id k = None)"

text \<open>What the payment and refund handlers rely on.\<close>

locale swap_locks =
  fixes repo :: "'w swap_repository"
    and locks :: "'w \<Rightarrow> sha256 \<Rightarrow> swap_lock list"
  assumes pay_lock_ok:
      "lock_add_payment_attempt repo a w = (Inr u, w') \<Longrightarrow> locks w (pa_payment_hash a) = [] \<and>
       locks w' = (locks w)(pa_payment_hash a :=
         [\<lparr>refund_id = None, payment_attempt_label = Some (pa_label a)\<rparr>])"
    and refund_lock_ok:
      "lock_swap_refund repo h rid w = (Inr v, w') \<Longrightarrow>
       (\<forall>k\<in>set (locks w h). payment_attempt_label k = None) \<and>
       locks w' = (locks w)(h := locks w h @ [\<lparr>refund_id = Some rid, payment_attempt_label = None\<rparr>])"
    and pay_unlock_ok:
      "unlock_add_payment_result repo h l res w = (Inr x, w') \<Longrightarrow>
       locks w' = (locks w)(h := filter (\<lambda>k. payment_attempt_label k \<noteq> Some l) (locks w h))"
    and refund_unlock_ok:
      "unlock_swap_refund repo h rid w = (Inr y, w') \<Longrightarrow>
       locks w' = (locks w)(h := filter (\<lambda>k. refund_id k \<noteq> Some rid) (locks w h))"
    and pay_lock_err: "lock_add_payment_attempt repo a w = (Inl e, w') \<Longrightarrow> locks w' = locks w"
    and refund_lock_err: "lock_swap_refund repo h rid w = (Inl e, w') \<Longrightarrow> locks w' = locks w"
    and pay_unlock_err: "unlock_add_payment_result repo h l res w = (Inl e, w') \<Longrightarrow> locks w' = locks w"
    and refund_unlock_err: "unlock_swap_refund repo h rid w = (Inl e, w') \<Longrightarrow> locks w' = locks w"
begin

lemma exclusive_pay_lock: "keeps (\<lambda>w. exclusive (locks w)) (lock_add_payment_attempt repo a)"
proof (rule keepsI)
  fix w r w' assume "exclusive (locks w)" "lock_add_payment_attempt repo a w = (r, w')"
  then show "exclusive (locks w')"
    by (cases r) (auto simp: exclusive_def dest!: pay_lock_ok dest: pay_lock_err split: if_splits)
qed

lemma exclusive_refund_lock: "keeps (\<lambda>w. exclusive (locks w)) (lock_swap_refund repo h rid)"
proof (rule keepsI)
  fix w r w' assume "exclusive (locks w)" "lock_swap_refund repo h rid w = (r, w')"
  then show "exclusive (locks w')"
    by (cases r) (force simp: exclusive_def dest!: refund_lock_ok dest: refund_lock_err)+
qed

lemma exclusive_filter:
  "exclusive ls \<Longrightarrow> exclusive (ls(h := filter P (ls h)))"
  by (fastforce simp: exclusive_def)

lemma exclusive_pay_unlock: "keeps (\<lambda>w. exclusive (locks w)) (unlock_add_payment_result repo h l res)"
proof (rule keepsI)
  fix w r w' assume "exclusive (locks w)" "unlock_add_payment_result repo h l res w = (r, w')"
  then show "exclusive (locks w')"
    by (cases r) (auto dest!: pay_unlock_ok dest: pay_unlock_err intro: exclusive_filter)
qed

lemma exclusive_refund_unlock: "keeps (\<lambda>w. exclusive (locks w)) (unlock_swap_refund repo h rid)"
proof (rule keepsI)
  fix w r w' assume "exclusive (locks w)" "unlock_swap_refund repo h rid w = (r, w')"
  then show "exclusive (locks w')"
    by (cases r) (auto dest!: refund_unlock_ok dest: refund_unlock_err intro: exclusive_filter)
qed

lemma pay_blocked: "locks w (pa_payment_hash a) \<noteq> [] \<Longrightarrow> isl (fst (lock_add_payment_attempt repo a w))"
  using pay_lock_ok [of a w] by (cases "lock_add_payment_attempt repo a w"; cases "fst (lock_add_payment_attempt repo a w)") auto

lemma refund_blocked:
  "k \<in> set (locks w h) \<Longrightarrow> payment_attempt_label k \<noteq> None \<Longrightarrow> isl (fst (lock_swap_refund repo h rid w))"
  using refund_lock_ok [of h rid w] by (cases "lock_swap_refund repo h rid w"; cases "fst (lock_swap_refund repo h rid w)") auto

end

interpretation pg_locks: swap_locks "pg_swap_repository cfg" "\<lambda>s. locks_of (pg_data s)"
  by unfold_locales
     (auto simp: pg_swap_repository_def locks_of_effects
       dest: pg_lock_pay_Inr pg_lock_refund_Inr pg_unlock_pay_Inr pg_unlock_refund_Inr lock_op_Inl
       intro!: ext)


section \<open>Runs of the repository\<close>

datatype swap_call =
    AddSwap swap
  | GetSwapByHash sha256
  | GetSwapByAddress address
  | GetSwapByPaymentRequest string
  | GetSwapLocks sha256
  | GetSwapPaymentAttempts sha256
  | GetSwaps "address list"
  | GetSwapsWithPaidOutpoints "address list"
  | GetUnhandledPaymentAttempts
  | LockAddPaymentAttempt payment_attempt
  | LockSwapRefund sha256 string
  | UnlockAddPaymentResult sha256 label payment_result
  | UnlockSwapRefund sha256 string

fun run_swap_call :: "swap_repo_cfg \<Rightarrow> swap_call \<Rightarrow> swap_db pg \<Rightarrow> swap_db pg" where
  "run_swap_call cfg (AddSwap s) w = snd (pg_add_swap s w)"
| "run_swap_call cfg (GetSwapByHash h) w = snd (pg_get_swap_by_hash cfg h w)"
| "run_swap_call cfg (GetSwapByAddress a) w = snd (pg_get_swap_by_address cfg a w)"
| "run_swap_call cfg (GetSwapByPaymentRequest r) w = snd (pg_get_swap_by_payment_request cfg r w)"
| "run_swap_call cfg (GetSwapLocks h) w = snd (pg_get_swap_locks h w)"
| "run_swap_call cfg (GetSwapPaymentAttempts h) w = snd (pg_get_swap_payment_attempts cfg h w)"
| "run_swap_call cfg (GetSwaps as) w = snd (pg_get_swaps cfg as w)"
| "run_swap_call cfg (GetSwapsWithPaidOutpoints as) w =
     snd (pg_get_swaps_with_paid_outpoints cfg as w)"
| "run_swap_call cfg GetUnhandledPaymentAttempts w = snd (pg_get_unhandled_payment_attempts cfg w)"
| "run_swap_call cfg (LockAddPaymentAttempt a) w = snd (pg_lock_add_payment_attempt a w)"
| "run_swap_call cfg (LockSwapRefund h r) w = snd (pg_lock_swap_refund h r w)"
| "run_swap_call cfg (UnlockAddPaymentResult h l r) w = snd (pg_unlock_add_payment_result h l r w)"
| "run_swap_call cfg (UnlockSwapRefund h r) w = snd (pg_unlock_swap_refund h r w)"

text \<open>
  The keys of the migration, the exclusion of payments and refunds, and what ties the tables
  together: a payment lock has its attempt, a recorded success has its preimage.
\<close>

definition swap_db_inv :: "swap_db \<Rightarrow> bool" where
  "swap_db_inv d \<longleftrightarrow>
     distinct (map sr_payment_hash (db_swaps d)) \<and>
     distinct (map ar_id (db_attempts d)) \<and>
     (\<forall>r\<in>set (db_attempts d). ar_id r < db_next_attempt d \<and>
        ar_swap_payment_hash r \<in> sr_payment_hash ` set (db_swaps d)) \<and>
     (\<forall>r\<in>set (db_attempt_outputs d). ao_attempt_id r \<in> ar_id ` set (db_attempts d)) \<and>
     (\<forall>r\<in>set (db_locks d). lr_swap_payment_hash r \<in> sr_payment_hash ` set (db_swaps d)) \<and>
     (\<forall>r\<in>set (db_locks d). lr_payment_attempt_label r \<noteq> None \<longrightarrow>
        lr_refund_id r = None \<and>
        filter (\<lambda>q. lr_swap_payment_hash q = lr_swap_payment_hash r) (db_locks d) = [r] \<and>
        (\<exists>a\<in>set (db_attempts d). ar_swap_payment_hash a = lr_swap_payment_hash r \<and>
           Some (ar_label a) = lr_payment_attempt_label r))"

abbreviation "pg_inv s \<equiv> swap_db_inv (pg_data s)"

lemma inv_reads:
  "keeps pg_inv (pg_get_swap_by_hash cfg h)" "keeps pg_inv (pg_get_swap_by_address cfg a)"
  "keeps pg_inv (pg_get_swap_by_payment_request cfg r)" "keeps pg_inv (pg_get_swap_locks h)"
  "keeps pg_inv (pg_get_swap_payment_attempts cfg h)" "keeps pg_inv (pg_get_swaps cfg as)"
  "keeps pg_inv (pg_get_swaps_with_paid_outpoints cfg as)"
  "keeps pg_inv (pg_get_unhandled_payment_attempts cfg)"
  by (auto simp: pg_get_swap_by_hash_def pg_get_swap_by_address_def pg_get_swap_by_payment_request_def
      swap_of_rows_def pg_get_swap_locks_def pg_get_swap_payment_attempts_def pg_get_swaps_def
      pg_get_swaps_with_paid_outpoints_def pg_get_unhandled_payment_attempts_def intro!: keeps_intro)

lemma inv_add_swap: "keeps pg_inv (pg_add_swap s)"
proof (rule keepsI)
  fix w r w' assume inv: "pg_inv w" and run: "pg_add_swap s w = (r, w')"
  show "pg_inv w'"
  proof (cases r)
    case (Inl e)
    with run have "pg_data w' = pg_data w"
      by (auto simp: pg_add_swap_def op_iffs dest: stmt_Inl)
    with inv show ?thesis by simp
  next
    case (Inr u)
    with run obtain secs where "insert_swap (swap_row_of s secs) (pg_data w) = Inr (u, pg_data w')"
      by (auto simp: pg_add_swap_def run_Inr dest!: stmt_Inr)
    then have w': "pg_data w' = (pg_data w)\<lparr>db_swaps := db_swaps (pg_data w) @ [swap_row_of s secs]\<rparr>"
      and new: "sr_payment_hash (swap_row_of s secs) \<notin> sr_payment_hash ` set (db_swaps (pg_data w))"
      by (auto simp: insert_swap_def split: if_splits)
    from inv new show ?thesis unfolding w' swap_db_inv_def by auto
  qed
qed

lemma inv_pay_lock: "keeps pg_inv (pg_lock_add_payment_attempt a)"
proof (rule keepsI)
  fix w r w' assume inv: "pg_inv w" and run: "pg_lock_add_payment_attempt a w = (r, w')"
  show "pg_inv w'"
  proof (cases r)
    case (Inl e)
    with run inv lock_op_Inl(1) show ?thesis by metis
  next
    case (Inr u)
    with run pg_lock_pay_Inr obtain secs where swap: "has_swap (pg_data w) (pa_payment_hash a)"
      and none: "locks_of (pg_data w) (pa_payment_hash a) = []"
      and w': "pg_data w' = pay_lock_effect a secs (pg_data w)" by blast
    have none: "\<forall>r\<in>set (db_locks (pg_data w)). lr_swap_payment_hash r \<noteq> of_b32 (pa_payment_hash a)"
      using none by (auto simp: locks_of_def filter_empty_conv)
    then have f: "filter (\<lambda>q. lr_swap_payment_hash q = of_b32 (pa_payment_hash a)) (db_locks (pg_data w)) = []"
      by (simp add: filter_empty_conv)
    show ?thesis
      using inv swap none f unfolding w' swap_db_inv_def has_swap_def
      by (auto simp: pay_lock_effect_def insert_attempt_def insert_attempt_outputs_def insert_lock_def
          image_iff)
         (metis less_irrefl | metis less_SucI)+
  qed
qed

lemma inv_refund_lock: "keeps pg_inv (pg_lock_swap_refund h rid)"
proof (rule keepsI)
  fix w r w' assume inv: "pg_inv w" and run: "pg_lock_swap_refund h rid w = (r, w')"
  show "pg_inv w'"
  proof (cases r)
    case (Inl e)
    with run inv lock_op_Inl(2) show ?thesis by metis
  next
    case (Inr u)
    with run pg_lock_refund_Inr have swap: "has_swap (pg_data w) h"
      and none: "\<forall>l\<in>set (locks_of (pg_data w) h). payment_attempt_label l = None"
      and w': "pg_data w' = refund_lock_effect h rid (pg_data w)" by blast+
    have "\<forall>r\<in>set (db_locks (pg_data w)). lr_payment_attempt_label r \<noteq> None \<longrightarrow>
        lr_swap_payment_hash r \<noteq> of_b32 h"
      using none by (auto simp: locks_of_def)
    with inv swap show ?thesis
      unfolding w' swap_db_inv_def has_swap_def
      by (auto simp: refund_lock_effect_def insert_lock_def image_iff) metis+
  qed
qed

lemma inv_delete_locks: "swap_db_inv d \<Longrightarrow> swap_db_inv (delete_locks P d)"
proof -
  assume inv: "swap_db_inv d"
  have "filter (\<lambda>q. lr_swap_payment_hash q = lr_swap_payment_hash r) (filter (\<lambda>r. \<not> P r) (db_locks d)) = [r]"
    if "r \<in> set (db_locks d)" "\<not> P r" "lr_payment_attempt_label r \<noteq> None" for r
  proof -
    have "filter (\<lambda>q. lr_swap_payment_hash q = lr_swap_payment_hash r) (db_locks d) = [r]"
      using inv that by (auto simp: swap_db_inv_def)
    then have "filter (\<lambda>r. \<not> P r) (filter (\<lambda>q. lr_swap_payment_hash q = lr_swap_payment_hash r) (db_locks d)) = [r]"
      using that by simp
    then show ?thesis by (simp add: conj_commute)
  qed
  with inv show ?thesis by (simp add: swap_db_inv_def delete_locks_def)
qed

lemma inv_update_swaps:
  assumes "swap_db_inv d" and "\<And>r. sr_payment_hash (f r) = sr_payment_hash r"
  shows "swap_db_inv (update_swaps f h d)"
proof -
  define g where "g = (\<lambda>r :: swap_row. if sr_payment_hash r = h then f r else r)"
  have g: "sr_payment_hash (g r) = sr_payment_hash r" for r
    using assms(2) by (simp add: g_def)
  show ?thesis
    using assms(1) unfolding swap_db_inv_def update_swaps_def g_def [symmetric]
    by (simp add: comp_def g image_image)
qed

lemma inv_update_attempts:
  assumes inv: "swap_db_inv d"
    and f: "\<And>r. ar_id (f r) = ar_id r" "\<And>r. ar_swap_payment_hash (f r) = ar_swap_payment_hash r"
      "\<And>r. ar_label (f r) = ar_label r"
  shows "swap_db_inv (update_attempts f l d)"
proof -
  define g where "g = (\<lambda>r. if ar_label r = l then f r else r)"
  have g: "ar_id (g r) = ar_id r" "ar_swap_payment_hash (g r) = ar_swap_payment_hash r"
      "ar_label (g r) = ar_label r" for r
    using f by (simp_all add: g_def)
  show ?thesis
    using inv unfolding swap_db_inv_def update_attempts_def g_def [symmetric]
    by (simp add: comp_def g image_image)
qed

lemma inv_pay_unlock: "keeps pg_inv (pg_unlock_add_payment_result h l res)"
proof (rule keepsI)
  fix w r w' assume inv: "pg_inv w" and run: "pg_unlock_add_payment_result h l res w = (r, w')"
  show "pg_inv w'"
  proof (cases r)
    case (Inl e)
    with run inv lock_op_Inl(3) show ?thesis by metis
  next
    case (Inr u)
    with run pg_unlock_pay_Inr have "pg_data w' = pay_unlock_effect h l res (pg_data w)" by blast
    with inv show ?thesis
      by (auto simp: pay_unlock_effect_def store_effect_def split: payment_result.split
          intro!: inv_update_attempts inv_update_swaps inv_delete_locks)
  qed
qed

lemma inv_refund_unlock: "keeps pg_inv (pg_unlock_swap_refund h rid)"
proof (rule keepsI)
  fix w r w' assume inv: "pg_inv w" and run: "pg_unlock_swap_refund h rid w = (r, w')"
  show "pg_inv w'"
  proof (cases r)
    case (Inl e)
    with run inv lock_op_Inl(4) show ?thesis by metis
  next
    case (Inr u)
    with run pg_unlock_refund_Inr inv show ?thesis
      by (auto simp: refund_unlock_effect_def intro: inv_delete_locks)
  qed
qed

lemma inv_swap_calls: "pg_inv w \<Longrightarrow> pg_inv (fold (run_swap_call cfg) calls w)"
proof (induction calls arbitrary: w)
  case (Cons c calls)
  have "pg_inv (run_swap_call cfg c w)"
    using Cons.prems
    by (cases c) (auto intro!: keeps_apply [where P = pg_inv] inv_reads inv_add_swap inv_pay_lock
        inv_refund_lock inv_pay_unlock inv_refund_unlock)
  with Cons.IH show ?case by simp
qed simp

text \<open>C4: after any sequence of repository calls, whatever statements fail, a swap that is locked for
  a payment carries that lock and no other, its attempt is recorded under the lock's label, and the
  keys and references of all four tables hold. A payment and a refund of one swap never hold locks
  at the same time.\<close>

theorem swap_db_inv_reachable:
  "swap_db_inv (pg_data (fold (run_swap_call cfg) calls \<lparr>pg_data = empty_swap_db, pg_faults = fs\<rparr>))"
  by (rule inv_swap_calls) (simp add: swap_db_inv_def empty_swap_db_def)

text \<open>A payment lock that was taken blocks every other lock on the swap: until it is released
  under its own label, a further payment and a refund both fail, whatever the database answers.\<close>

lemma payment_lock_blocks:
  assumes "pg_lock_add_payment_attempt a s = (Inr u, s')"
    and "pa_payment_hash b = pa_payment_hash a"
  shows "isl (fst (pg_lock_add_payment_attempt b s')) \<and>
    isl (fst (pg_lock_swap_refund (pa_payment_hash a) rid s'))"
proof -
  have "locks_of (pg_data s') (pa_payment_hash a) =
      [\<lparr>refund_id = None, payment_attempt_label = Some (pa_label a)\<rparr>]"
    using pg_locks.pay_lock_ok [of _ a s u s'] assms(1) by (simp add: pg_swap_repository_def)
  then show ?thesis
    using pg_locks.pay_blocked [of s' b] pg_locks.refund_blocked [of _ s' "pa_payment_hash a" _ rid] assms(2)
    by (simp add: pg_swap_repository_def)
qed


section \<open>Storing and reading back\<close>

text \<open>Values the crates can parse back, created in the range of the clock.\<close>

definition storable :: "swap_repo_cfg \<Rightarrow> swap \<Rightarrow> bool" where
  "storable cfg s \<longleftrightarrow>
     0 \<le> creation_time s \<and> creation_time s < 2 ^ 63 * nanos_per_sec \<and>
     parse_address (rc_lib cfg) (rc_network cfg) (sp_address (swap_public s)) =
       Some (sp_address (swap_public s)) \<and>
     rc_parse_pubkey cfg (claim_pubkey (swap_public s)) = Some (claim_pubkey (swap_public s)) \<and>
     rc_parse_pubkey cfg (refund_pubkey (swap_public s)) = Some (refund_pubkey (swap_public s)) \<and>
     rc_parse_seckey cfg (of_b32 (claim_privkey (swap_private s))) = Some (claim_privkey (swap_private s))"

lemma map_swap_state_row:
  assumes "storable cfg s" and "secs_of_time (creation_time s) = Some secs"
  shows "map_swap_state cfg (swap_row_of s secs) =
    Inr \<lparr>ss_swap = s\<lparr>creation_time := creation_time s - creation_time s mod nanos_per_sec\<rparr>, ss_preimage = None\<rparr>"
proof -
  have "time_of_secs secs = Some (creation_time s - creation_time s mod nanos_per_sec)"
    using assms time_of_secs_of_time [of "creation_time s"] by (auto simp: storable_def)
  with assms(1) show ?thesis
    by (simp add: map_swap_state_def swap_row_of_def bind_res_def of_option_def storable_def)
qed

text \<open>A new swap that is added is found by its hash and by nothing else of the same hash, with
  every field as it was stored except the creation time, which loses its fraction of a second; a
  second swap for the same hash is refused as already existing and changes nothing.\<close>

lemma add_swap_roundtrip:
  assumes "storable cfg s" and "\<not> has_swap d (swap_hash (swap_public s))"
  shows "(case pg_add_swap s \<lparr>pg_data = d, pg_faults = []\<rparr> of (r, w) \<Rightarrow>
     r = Inr () \<and>
     fst (pg_get_swap_by_hash cfg (swap_hash (swap_public s)) w) =
       Inr \<lparr>ss_swap = s\<lparr>creation_time := creation_time s - creation_time s mod nanos_per_sec\<rparr>,
            ss_preimage = None\<rparr> \<and>
     pg_add_swap s w = (Inl AlreadyExists, w))"
proof -
  obtain secs where secs: "secs_of_time (creation_time s) = Some secs"
    using assms(1) by (auto simp: storable_def secs_of_time_def)
  have none: "filter (\<lambda>r. sr_payment_hash r = of_b32 (swap_hash (swap_public s))) (db_swaps d) = []"
    using assms(2) by (auto simp: has_swap_def filter_empty_conv)
  then have "of_b32 (swap_hash (swap_public s)) \<notin> sr_payment_hash ` set (db_swaps d)"
    by (auto simp: filter_empty_conv)
  then show ?thesis
    using none map_swap_state_row [OF assms(1) secs]
    by (simp add: pg_add_swap_def secs of_option_def seq_def map_err_def sql_run insert_swap_def
        pg_get_swap_by_hash_def swap_of_rows_def first_row_def swap_row_of_def)
qed

lemma added_swap_read:
  assumes "storable cfg s" and "\<not> has_swap d (swap_hash (swap_public s))"
    and "pg_add_swap s \<lparr>pg_data = d, pg_faults = []\<rparr> = (Inr u, w)"
    and "pg_get_swap_by_hash cfg (swap_hash (swap_public s)) w = (Inr st, w')"
  shows "st = \<lparr>ss_swap = s\<lparr>creation_time := creation_time s - creation_time s mod nanos_per_sec\<rparr>, ss_preimage = None\<rparr>"
  using add_swap_roundtrip [OF assms(1,2)] assms(3,4) by simp

lemma get_swap_by_hash_row:
  "filter (\<lambda>r. sr_payment_hash r = of_b32 h) (db_swaps d) = row # rows \<Longrightarrow>
     fst (pg_get_swap_by_hash cfg h \<lparr>pg_data = d, pg_faults = []\<rparr>) = map_swap_state cfg row"
  by (simp add: pg_get_swap_by_hash_def swap_of_rows_def first_row_def seq_def map_err_def sql_run)

lemma map_swap_state_preimage:
  "map_swap_state cfg row = Inr st \<Longrightarrow>
     map_swap_state cfg (row\<lparr>sr_preimage := Some (of_b32 p)\<rparr>) = Inr (st\<lparr>ss_preimage := Some p\<rparr>)"
  by (auto simp: map_swap_state_def bind_res_Inr of_option_def bind_res_def split: option.splits)

lemma filter_map_keep:
  "(\<And>r. P (g r) = P r) \<Longrightarrow> filter P (map g xs) = map g (filter P xs)"
  by (induction xs) auto

lemma updated_attempts:
  "list_all (\<lambda>a. ar_label a = l \<longrightarrow> ar_success a = Some True)
     (db_attempts (update_attempts (\<lambda>r. r\<lparr>ar_success := Some True\<rparr>) l d))"
proof -
  define g where "g = (\<lambda>r :: attempt_row. if ar_label r = l then r\<lparr>ar_success := Some True\<rparr> else r)"
  have "db_attempts (update_attempts (\<lambda>r. r\<lparr>ar_success := Some True\<rparr>) l d) = map g (db_attempts d)"
    by (simp add: update_attempts_def g_def)
  moreover have "ar_label (g r) = l \<Longrightarrow> ar_success (g r) = Some True" for r
    by (simp add: g_def split: if_splits)
  ultimately show ?thesis by (simp add: list_all_iff)
qed

text \<open>Recording a successful payment releases the payment's lock, stores the preimage where the
  swap is read from, and leaves no attempt of that label unhandled; the other swaps' locks stay.\<close>

lemma payment_success_recorded:
  assumes "pg_unlock_add_payment_result h l (PaymentSuccess p) \<lparr>pg_data = d, pg_faults = []\<rparr> = (Inr u, w)"
    and "fst (pg_get_swap_by_hash cfg h \<lparr>pg_data = d, pg_faults = []\<rparr>) = Inr st"
  shows "fst (pg_get_swap_by_hash cfg h \<lparr>pg_data = pg_data w, pg_faults = []\<rparr>) =
      Inr (st\<lparr>ss_preimage := Some p\<rparr>) \<and>
    list_all (\<lambda>k. payment_attempt_label k \<noteq> Some l) (locks_of (pg_data w) h) \<and>
    list_all (\<lambda>a. ar_label a = l \<longrightarrow> ar_success a = Some True) (db_attempts (pg_data w)) \<and>
    (h' \<noteq> h \<longrightarrow> locks_of (pg_data w) h' = locks_of d h')"
proof -
  have w: "pg_data w = pay_unlock_effect h l (PaymentSuccess p) d"
    using pg_unlock_pay_Inr [OF assms(1)] by simp
  obtain row rows where row: "filter (\<lambda>r. sr_payment_hash r = of_b32 h) (db_swaps d) = row # rows"
    using assms(2)
    by (cases "filter (\<lambda>r. sr_payment_hash r = of_b32 h) (db_swaps d)")
       (auto simp: pg_get_swap_by_hash_def swap_of_rows_def first_row_def seq_def map_err_def sql_run)
  define g where "g = (\<lambda>r :: swap_row. if sr_payment_hash r = of_b32 h then r\<lparr>sr_preimage := Some (of_b32 p)\<rparr> else r)"
  have "db_swaps (pg_data w) = map g (db_swaps d)"
    by (simp add: w pay_unlock_effect_def store_effect_def update_attempts_def update_swaps_def
        delete_locks_def g_def)
  moreover have "sr_payment_hash (g r) = sr_payment_hash r" for r by (simp add: g_def)
  ultimately have "filter (\<lambda>r. sr_payment_hash r = of_b32 h) (db_swaps (pg_data w)) = g row # map g rows"
    by (simp add: filter_map_keep row)
  note get = get_swap_by_hash_row [OF this]
  have "sr_payment_hash row = of_b32 h" using row by (metis (mono_tags) filter_eq_ConsD)
  then have "g row = row\<lparr>sr_preimage := Some (of_b32 p)\<rparr>" by (simp add: g_def)
  moreover have "map_swap_state cfg row = Inr st" using assms(2) get_swap_by_hash_row [OF row] by simp
  ultimately have "fst (pg_get_swap_by_hash cfg h \<lparr>pg_data = pg_data w, pg_faults = []\<rparr>) =
      Inr (st\<lparr>ss_preimage := Some p\<rparr>)"
    unfolding get by (simp add: map_swap_state_preimage)
  moreover have "list_all (\<lambda>a. ar_label a = l \<longrightarrow> ar_success a = Some True) (db_attempts (pg_data w))"
    unfolding w pay_unlock_effect_def store_effect_def payment_result.case by (rule updated_attempts)
  moreover have "locks_of (pg_data w) = (locks_of d)(h := filter (\<lambda>k. payment_attempt_label k \<noteq> Some l) (locks_of d h))"
    by (simp add: w locks_of_effects)
  then have "list_all (\<lambda>k. payment_attempt_label k \<noteq> Some l) (locks_of (pg_data w) h)"
    "h' \<noteq> h \<longrightarrow> locks_of (pg_data w) h' = locks_of d h'"
    by (simp_all add: list_all_iff)
  ultimately show ?thesis by blast
qed

section \<open>The swaps of some addresses with the outputs they paid\<close>

definition paid_outpoint_of :: "paid_row \<Rightarrow> paid_outpoint" where
  "paid_outpoint_of q = (case q of (req, t, i) \<Rightarrow> \<lparr>po_outpoint = OutPoint t (ucast i), po_payment_request = req\<rparr>)"

lemma paid_outpoint_of_simps [simp]:
  "paid_outpoint_of (req, t, i) = \<lparr>po_outpoint = OutPoint t (ucast i), po_payment_request = req\<rparr>"
  by (simp add: paid_outpoint_of_def)

text \<open>What the repository is to return for one swap.\<close>

definition paid_state :: "swap_repo_cfg \<Rightarrow> swap_db \<Rightarrow> swap_row \<Rightarrow> get_swaps_error + swap_state_paid_outpoints" where
  "paid_state cfg d r =
     bind_res (map_swap_state cfg r) (\<lambda>st.
       Inr \<lparr>spo_swap_state = st, spo_paid_outpoints = map paid_outpoint_of (paid_rows d (sr_payment_hash r))\<rparr>)"

text \<open>Stored swaps have different addresses, and every column parses.\<close>

definition swaps_canonical :: "swap_repo_cfg \<Rightarrow> swap_db \<Rightarrow> bool" where
  "swaps_canonical cfg d \<longleftrightarrow>
     distinct (map sr_address (db_swaps d)) \<and>
     list_all (\<lambda>r. parse_address (rc_lib cfg) (rc_network cfg) (sr_address r) = Some (sr_address r) \<and>
       \<not> isl (map_swap_state cfg r)) (db_swaps d)"

text \<open>The rows of one swap follow each other, and fill one entry of the map.\<close>

lemma collect_paid_rows:
  assumes "parse_address (rc_lib cfg) (rc_network cfg) (sr_address r) = Some (sr_address r)"
    and "m (sr_address r) = Some e"
  shows "collect_paid cfg (map (\<lambda>q. (r, Some q)) qs @ rows) m =
    collect_paid cfg rows (m(sr_address r \<mapsto> e\<lparr>spo_paid_outpoints := spo_paid_outpoints e @ map paid_outpoint_of qs\<rparr>))"
  using assms(2)
proof (induction qs arbitrary: m e)
  case Nil
  then have "m(sr_address r \<mapsto> e) = m" by auto
  then show ?case by simp
next
  case (Cons q qs)
  obtain req t i where q: "q = (req, t, i)" by (cases q)
  let ?e = "e\<lparr>spo_paid_outpoints := spo_paid_outpoints e @ [paid_outpoint_of q]\<rparr>"
  show ?case
    using Cons.prems Cons.IH [of "m(sr_address r \<mapsto> ?e)" ?e]
    by (cases e) (simp add: q parse_row_address_def assms(1) of_option_def bind_res_def fun_upd_same del: fun_upd_apply)
qed

lemma collect_paid_swap:
  assumes "parse_address (rc_lib cfg) (rc_network cfg) (sr_address r) = Some (sr_address r)"
    and "map_swap_state cfg r = Inr st" and "m (sr_address r) = None"
  shows "collect_paid cfg ((case paid_rows d (sr_payment_hash r) of [] \<Rightarrow> [(r, None)]
        | p # ps \<Rightarrow> map (\<lambda>q. (r, Some q)) (p # ps)) @ rows) m =
    collect_paid cfg rows (m(sr_address r \<mapsto>
       \<lparr>spo_swap_state = st, spo_paid_outpoints = map paid_outpoint_of (paid_rows d (sr_payment_hash r))\<rparr>))"
proof (cases "paid_rows d (sr_payment_hash r)")
  case Nil
  then show ?thesis using assms by (simp add: parse_row_address_def of_option_def bind_res_def)
next
  case (Cons q qs)
  obtain req t i where q: "q = (req, t, i)" by (cases q)
  show ?thesis
    using assms(2,3) collect_paid_rows [OF assms(1), of "m(sr_address r \<mapsto> \<lparr>spo_swap_state = st, spo_paid_outpoints = [paid_outpoint_of q]\<rparr>)" _ qs rows]
    by (simp add: Cons q parse_row_address_def assms(1) of_option_def bind_res_def)
qed

lemma collect_paid_swaps:
  assumes "distinct (map sr_address rs)"
    and "list_all (\<lambda>r. parse_address (rc_lib cfg) (rc_network cfg) (sr_address r) = Some (sr_address r) \<and>
       \<not> isl (map_swap_state cfg r)) rs"
    and "sr_address ` set rs \<inter> dom m = {}"
  shows "\<exists>m'. collect_paid cfg (concat (map (\<lambda>r. case paid_rows d (sr_payment_hash r) of [] \<Rightarrow> [(r, None)]
        | p # ps \<Rightarrow> map (\<lambda>q. (r, Some q)) (p # ps)) rs)) m = Inr m' \<and>
    (\<forall>a. m' a = (case find (\<lambda>r. sr_address r = a) rs of None \<Rightarrow> m a | Some r \<Rightarrow> Some (projr (paid_state cfg d r))))"
  using assms
proof (induction rs arbitrary: m)
  case (Cons r rs)
  obtain st where st: "map_swap_state cfg r = Inr st" using Cons.prems(2) by (cases "map_swap_state cfg r") auto
  let ?e = "\<lparr>spo_swap_state = st, spo_paid_outpoints = map paid_outpoint_of (paid_rows d (sr_payment_hash r))\<rparr>"
  have e: "projr (paid_state cfg d r) = ?e" by (simp add: paid_state_def st bind_res_def)
  have "sr_address r \<notin> sr_address ` set rs" using Cons.prems(1) by simp
  then have none: "find (\<lambda>q. sr_address q = sr_address r) rs = None" by (metis (mono_tags, lifting) find_None_iff image_eqI)
  have "sr_address ` set rs \<inter> dom (m(sr_address r \<mapsto> ?e)) = {}" using Cons.prems(1,3) by auto
  then have "\<exists>m'. collect_paid cfg (concat (map (\<lambda>r. case paid_rows d (sr_payment_hash r) of [] \<Rightarrow> [(r, None)]
        | p # ps \<Rightarrow> map (\<lambda>q. (r, Some q)) (p # ps)) rs)) (m(sr_address r \<mapsto> ?e)) = Inr m' \<and>
    (\<forall>a. m' a = (case find (\<lambda>r. sr_address r = a) rs of None \<Rightarrow> (m(sr_address r \<mapsto> ?e)) a
       | Some r \<Rightarrow> Some (projr (paid_state cfg d r))))"
    using Cons.prems(1,2) by (intro Cons.IH) (assumption | simp)+
  then obtain m' where
    m': "collect_paid cfg (concat (map (\<lambda>r. case paid_rows d (sr_payment_hash r) of [] \<Rightarrow> [(r, None)]
        | p # ps \<Rightarrow> map (\<lambda>q. (r, Some q)) (p # ps)) rs)) (m(sr_address r \<mapsto> ?e)) = Inr m'"
    "\<And>a. m' a = (case find (\<lambda>r. sr_address r = a) rs of None \<Rightarrow> (m(sr_address r \<mapsto> ?e)) a
       | Some r \<Rightarrow> Some (projr (paid_state cfg d r)))" by blast
  have "m (sr_address r) = None" using Cons.prems(3) by auto
  then have "collect_paid cfg (concat (map (\<lambda>r. case paid_rows d (sr_payment_hash r) of [] \<Rightarrow> [(r, None)]
        | p # ps \<Rightarrow> map (\<lambda>q. (r, Some q)) (p # ps)) (r # rs))) m = Inr m'"
    using collect_paid_swap [OF _ st, of m d] Cons.prems(2) m'(1) by simp
  moreover have "m' a = (case find (\<lambda>r. sr_address r = a) (r # rs) of None \<Rightarrow> m a
       | Some r \<Rightarrow> Some (projr (paid_state cfg d r)))" for a
    using m'(2) [of a] none e by (cases "a = sr_address r") (auto split: option.split)
  ultimately show ?case by blast
qed simp

lemma pg_get_swaps_paid_run:
  assumes "pg_faults t = []" and "swaps_canonical cfg (pg_data t)"
  shows "\<exists>m. pg_get_swaps_with_paid_outpoints cfg as t = (Inr m, t) \<and>
    (\<forall>a e. m a = Some e \<longleftrightarrow> a \<in> set as \<and> (\<exists>r\<in>set (db_swaps (pg_data t)). sr_address r = a \<and> paid_state cfg (pg_data t) r = Inr e))"
proof -
  define rs where "rs = sort_key (\<lambda>s. rc_payment_hash_rank cfg (sr_payment_hash s))
         (filter (\<lambda>s. sr_address s \<in> set as) (db_swaps (pg_data t)))"
  have rs: "set rs = {r \<in> set (db_swaps (pg_data t)). sr_address r \<in> set as}" by (simp add: rs_def)
  have "distinct (map sr_address (filter (\<lambda>s. sr_address s \<in> set as) (db_swaps (pg_data t))))"
    using assms(2) by (simp add: swaps_canonical_def distinct_map_filter)
  then have d: "distinct (map sr_address rs)" by (simp add: rs_def distinct_map)
  have l: "list_all (\<lambda>r. parse_address (rc_lib cfg) (rc_network cfg) (sr_address r) = Some (sr_address r) \<and>
       \<not> isl (map_swap_state cfg r)) rs"
    using assms(2) by (simp add: swaps_canonical_def list_all_iff rs)
  obtain m where m: "collect_paid cfg (swap_paid_rows cfg as (pg_data t)) Map.empty = Inr m"
    "\<And>a. m a = (case find (\<lambda>r. sr_address r = a) rs of None \<Rightarrow> None | Some r \<Rightarrow> Some (projr (paid_state cfg (pg_data t) r)))"
    using collect_paid_swaps [OF d l, of Map.empty "pg_data t"] by (auto simp: swap_paid_rows_def rs_def)
  have "m a = Some e \<longleftrightarrow> (\<exists>r\<in>set rs. sr_address r = a \<and> paid_state cfg (pg_data t) r = Inr e)" for a e
  proof -
    have "m a = Some e \<longleftrightarrow> (\<exists>r. find (\<lambda>r. sr_address r = a) rs = Some r \<and> projr (paid_state cfg (pg_data t) r) = e)"
      by (simp add: m(2) split: option.split)
    also have "\<dots> \<longleftrightarrow> (\<exists>r\<in>set rs. sr_address r = a \<and> paid_state cfg (pg_data t) r = Inr e)"
    proof -
      have "find (\<lambda>r. sr_address r = a) rs = Some r \<longleftrightarrow> r \<in> set rs \<and> sr_address r = a" for r
      proof
        assume "find (\<lambda>r. sr_address r = a) rs = Some r"
        then show "r \<in> set rs \<and> sr_address r = a" by (metis (mono_tags, lifting) find_Some_iff nth_mem)
      next
        assume r: "r \<in> set rs \<and> sr_address r = a"
        then obtain q where q: "find (\<lambda>r. sr_address r = a) rs = Some q"
          by (metis (mono_tags, lifting) find_None_iff not_Some_eq)
        then have "q \<in> set rs" "sr_address q = a" by (metis (mono_tags, lifting) find_Some_iff nth_mem)+
        with r d have "q = r" by (auto simp: distinct_map inj_on_def)
        with q show "find (\<lambda>r. sr_address r = a) rs = Some r" by simp
      qed
      moreover have "\<not> isl (paid_state cfg (pg_data t) r)" if "r \<in> set rs" for r
        using l that by (auto simp: list_all_iff paid_state_def bind_res_def split: sum.split)
      ultimately show ?thesis by (metis sum.collapse(2) sum.sel(2))
    qed
    finally show ?thesis .
  qed
  with m(1) assms(1) show ?thesis
    by (auto simp: pg_get_swaps_with_paid_outpoints_def sql_run seq_def map_err_def rs)
qed

section \<open>A small swap database\<close>

definition ex_swap_cfg :: swap_repo_cfg where
  "ex_swap_cfg =
     \<lparr>rc_lib = \<lparr>compute_txid = (\<lambda>t. 1), compute_block_hash = (\<lambda>b. 1), bip34_block_height = (\<lambda>b. None),
        parse_address = (\<lambda>n s. Some s), address_from_script = (\<lambda>n s. None), address_script = (\<lambda>a. [9])\<rparr>,
      rc_network = ''regtest'', rc_parse_pubkey = Some, rc_parse_seckey = to_b32,
      rc_iteration_order = id, rc_payment_hash_rank = (\<lambda>b. 0)\<rparr>"

definition ex_swap_db :: "swap_db pg" where
  "ex_swap_db = snd (pg_add_swap ex_swap \<lparr>pg_data = empty_swap_db, pg_faults = []\<rparr>)"

definition ex_attempt :: payment_attempt where
  "ex_attempt =
     \<lparr>pa_creation_time = 6 * nanos_per_sec, pa_label = ''77-6'', pa_payment_hash = 77,
      pa_outputs = [OutPoint 7 0], pa_amount_msat = 1000000, pa_destination = [2],
      pa_payment_request = ''lnbc''\<rparr>"

lemma ex_storable: "storable ex_swap_cfg ex_swap"
  by (simp add: storable_def ex_swap_cfg_def ex_swap_def)

lemma ex_swap_db_data: "pg_faults ex_swap_db = []" "has_swap (pg_data ex_swap_db) 77"
    "db_locks (pg_data ex_swap_db) = []"
  by (simp_all add: ex_swap_db_def pg_add_swap_def seq_def map_err_def sql_run insert_swap_def
      ex_swap_def secs_of_time_def of_option_def has_swap_def swap_row_of_def empty_swap_db_def)

lemma ex_lock: "\<exists>s'. pg_lock_add_payment_attempt ex_attempt ex_swap_db = (Inr (), s') \<and> pg_faults s' = []"
  using ex_swap_db_data
  by (simp add: pg_lock_add_payment_attempt_def transact_def Let_def lock_swap_for_update_def
      seq_def map_err_def sql_run ex_attempt_def secs_of_time_def of_option_def has_swap_def
      insert_lock_def insert_attempt_def)

lemma ex_unlock:
  "\<exists>w. pg_unlock_add_payment_result 77 ''77-6'' (PaymentSuccess 9) ex_swap_db = (Inr (), w) \<and> pg_faults w = []"
  using ex_swap_db_data
  by (simp add: pg_unlock_add_payment_result_def transact_def Let_def lock_swap_for_update_def
      seq_def map_err_def sql_run has_swap_def store_result_def)

lemma ex_stored:
  "fst (pg_get_swap_by_hash ex_swap_cfg 77 ex_swap_db) = Inr \<lparr>ss_swap = ex_swap, ss_preimage = None\<rparr>"
proof -
  have "pg_add_swap ex_swap \<lparr>pg_data = empty_swap_db, pg_faults = []\<rparr> =
      (Inr (), \<lparr>pg_data = empty_swap_db\<lparr>db_swaps := [swap_row_of ex_swap 5]\<rparr>, pg_faults = []\<rparr>)"
    by (simp add: pg_add_swap_def seq_def map_err_def sql_run insert_swap_def ex_swap_def
        secs_of_time_def of_option_def empty_swap_db_def)
  moreover have "sr_payment_hash (swap_row_of ex_swap 5) = of_b32 77"
    by (simp add: swap_row_of_def ex_swap_def)
  moreover have "map_swap_state ex_swap_cfg (swap_row_of ex_swap 5) =
      Inr \<lparr>ss_swap = ex_swap, ss_preimage = None\<rparr>"
    using map_swap_state_row [OF ex_storable, of 5] by (simp add: ex_swap_def secs_of_time_def)
  ultimately show ?thesis
    using get_swap_by_hash_row [of 77 "empty_swap_db\<lparr>db_swaps := [swap_row_of ex_swap 5]\<rparr>"]
    by (simp add: ex_swap_db_def)
qed

end
