(* ===== verification/Public_Server.thy ===== *)
theory Public_Server
  imports Swap_Service Swap_Repository
begin

text \<open>
  The public server (\<open>public_server.rs\<close>): the handlers that create a swap, pay it out over
  lightning and co-sign its refund. The server is generic in its services, as in the source: each
  is a record of operations over a state \<open>'w\<close>. A handler is one operation with its early returns
  in the order of the code; \<open>pay_swap\<close> is its checks, then the lock, the payment and the unlock.

  Parsing an invoice, a transaction or a nonce belongs to other crates and is a parameter, as is
  the text of a hash. The error of a handler is the status it answers with, or a panic.
\<close>

section \<open>Statuses\<close>

datatype status_code = InvalidArgument | FailedPrecondition | NotFound | AlreadyExistsCode | Internal | Unknown

datatype status = Status status_code string

definition internal_error :: status where
  "internal_error = Status Internal ''internal error''"

definition invalid_argument :: "string \<Rightarrow> status" where
  "invalid_argument m = Status InvalidArgument m"

definition failed_precondition :: "string \<Rightarrow> status" where
  "failed_precondition m = Status FailedPrecondition m"

fun status_of_persistence :: "swap_persistence_error \<Rightarrow> status" where
  "status_of_persistence AlreadyExists = Status AlreadyExistsCode ''Hash already exists''"
| "status_of_persistence (SwapPersistenceGeneral e) = internal_error"

fun status_of_get_swaps :: "get_swaps_error \<Rightarrow> status" where
  "status_of_get_swaps GetSwapsNotFound = Status NotFound ''swap not found''"
| "status_of_get_swaps (GetSwapsGeneral e) = internal_error"
| "status_of_get_swaps GetSwapsInvalidPreimage = internal_error"

definition status_of_chain :: "chain_error \<Rightarrow> status" where
  "status_of_chain e = internal_error"

definition status_of_fee :: "fee_estimate_error \<Rightarrow> status" where
  "status_of_fee e = internal_error"

definition status_of_lightning :: "lightning_error \<Rightarrow> status" where
  "status_of_lightning e = Status Unknown ''payment failed''"

definition status_of_chain_repository :: "chain_repository_error \<Rightarrow> status" where
  "status_of_chain_repository e = internal_error"

definition status_of_random :: "boxed_error \<Rightarrow> status" where
  "status_of_random e = Status Unknown ''internal error''"

section \<open>The server\<close>

record invoice =
  inv_amount_msat :: "u64 option"
  inv_payment_hash :: sha256
  inv_min_final_cltv :: u64
  inv_payee :: pubkey

record 'w swap_server =
  srv_network :: network
  max_swap_amount_sat :: u64
  min_confirmations :: u64
  min_claim_blocks :: u32
  min_utxo_amount_sat :: u64
  min_viable_cltv :: u32
  pay_fee_limit_base_msat :: u64
  pay_fee_limit_ppm :: u64
  pay_timeout_seconds :: u16
  srv_chain_client :: "'w chain_client"
  filter_txos :: "txo list \<Rightarrow> ('w, boxed_error, txo list) op"
  srv_chain_repository :: "'w chain_repository"
  srv_lightning_client :: "'w lightning_client"
  rnd_32 :: "('w, boxed_error, b32) op"
  srv_swap_service :: "'w swap_service"
  srv_swap_repository :: "'w swap_repository"
  srv_fee_estimator :: "'w fee_estimator"
  srv_lib :: bitcoin_lib
  parse_pubkey :: "bytes \<Rightarrow> pubkey option"
  parse_invoice :: "string \<Rightarrow> invoice option"
  decode_transaction :: "bytes \<Rightarrow> transaction option"
  parse_pub_nonce :: "bytes \<Rightarrow> bytes option"
  show_hash :: "b32 \<Rightarrow> string"
  srv_now :: "'w \<Rightarrow> system_time"

record swap_parameters =
  prm_max_swap_amount_sat :: u64
  prm_min_swap_amount_sat :: u64
  prm_min_utxo_amount_sat :: u64

definition get_swap_parameters :: "'w swap_server \<Rightarrow> ('w, status, swap_parameters) op" where
  "get_swap_parameters srv =
     seq (map_err status_of_fee (srv_fee_estimator srv 12)) (\<lambda>fee_estimate.
     let min_utxo = max (ucast (sat_per_kw fee_estimate) * 3 div 2) (min_utxo_amount_sat srv) in
     ret \<lparr>prm_max_swap_amount_sat = max_swap_amount_sat srv,
          prm_min_swap_amount_sat = min_utxo, prm_min_utxo_amount_sat = min_utxo\<rparr>)"

record create_swap_response =
  csr_address :: string
  csr_claim_pubkey :: bytes
  csr_lock_time :: u32
  csr_parameters :: swap_parameters

definition create_swap_handler ::
    "'w swap_server \<Rightarrow> bytes \<Rightarrow> bytes \<Rightarrow> ('w, status, create_swap_response) op" where
  "create_swap_handler srv req_refund_pubkey req_hash =
     seq (lift_res (of_option (invalid_argument ''invalid refund_pubkey'')
            (parse_pubkey srv req_refund_pubkey))) (\<lambda>payer_pubkey.
     seq (lift_res (of_option (invalid_argument ''invalid hash'') (to_b32 req_hash))) (\<lambda>hash.
     seq (map_err status_of_chain (get_blockheight (srv_chain_client srv))) (\<lambda>current_height.
     seq (map_err (\<lambda>_. internal_error)
            (create_swap (srv_swap_service srv) payer_pubkey hash current_height)) (\<lambda>swap.
     seq (map_err status_of_persistence (add_swap (srv_swap_repository srv) swap)) (\<lambda>_.
     seq (map_err status_of_chain_repository
            (add_watch_address (srv_chain_repository srv) (sp_address (swap_public swap)))) (\<lambda>_.
     seq (get_swap_parameters srv) (\<lambda>parameters.
     ret \<lparr>csr_address = sp_address (swap_public swap),
          csr_claim_pubkey = claim_pubkey (swap_public swap),
          csr_lock_time = ucast (lock_time (swap_public swap)), csr_parameters = parameters\<rparr>)))))))"

definition swap_parameters_handler :: "'w swap_server \<Rightarrow> ('w, status, swap_parameters) op" where
  "swap_parameters_handler srv = get_swap_parameters srv"

section \<open>Paying a swap\<close>

text \<open>The invoice and its amount in msat and sat.\<close>

definition check_invoice ::
    "'w swap_server \<Rightarrow> string \<Rightarrow> status + invoice \<times> u64 \<times> u64" where
  "check_invoice srv req =
     bind_res (of_option (invalid_argument ''invalid payment request'') (parse_invoice srv req))
       (\<lambda>inv.
     bind_res (of_option (invalid_argument ''payment request must have an amount'')
                (inv_amount_msat inv)) (\<lambda>amount_msat.
     let amount_sat = amount_msat div 1000 in
     if amount_sat * 1000 \<noteq> amount_msat
     then Inl (invalid_argument ''invoice amount must be a round satoshi amount'')
     else Inr (inv, amount_msat, amount_sat)))"

definition check_amount :: "swap_parameters \<Rightarrow> u64 \<Rightarrow> status + unit" where
  "check_amount parameters amount_sat =
     (if prm_max_swap_amount_sat parameters < amount_sat
      then Inl (invalid_argument ''amount exceeds max swap amount'')
      else if amount_sat < prm_min_swap_amount_sat parameters
      then Inl (invalid_argument ''amount is below min swap amount'')
      else Inr ())"

text \<open>The blocks left for the payout, or the refusal.\<close>

definition payout_blocks_left ::
    "'w swap_server \<Rightarrow> swap_state \<Rightarrow> u64 \<Rightarrow> u64 \<Rightarrow> u32 \<Rightarrow> status + u32" where
  "payout_blocks_left srv st min_confirmation_height current_height cltv =
     (let left = swap_state_blocks_left st min_confirmation_height current_height in
      if sint left < 0 then Inl (failed_precondition ''swap expired'')
      else
        let blocks_left = saturating_sub (left :: u32) (min_claim_blocks srv) in
        if blocks_left = 0 \<or> saturating_sub blocks_left cltv < min_viable_cltv srv
        then Inl (failed_precondition ''swap expired'')
        else Inr blocks_left)"

definition usable_txo :: "'w swap_server \<Rightarrow> swap_parameters \<Rightarrow> u64 \<Rightarrow> txo \<Rightarrow> bool" where
  "usable_txo srv parameters current_height t \<longleftrightarrow>
     \<not> confirmations t current_height < min_confirmations srv \<and>
     \<not> txo_value (txo_tx_out t) < prm_min_utxo_amount_sat parameters"

definition txo_sum :: "txo list \<Rightarrow> u64" where
  "txo_sum ts = fold (\<lambda>t sum. sum + txo_value (txo_tx_out t)) ts 0"

text \<open>A failure of the chain filter is logged, and the outputs are used unfiltered.\<close>

definition filter_or_keep :: "'w swap_server \<Rightarrow> txo list \<Rightarrow> ('w, status, txo list) op" where
  "filter_or_keep srv txos =
     attempt (filter_txos srv txos) (\<lambda>r. case r of Inr ts \<Rightarrow> ret ts | Inl e \<Rightarrow> ret txos)"

text \<open>\<open>format!("{}-{}", hash, unix_ns_now)\<close>.\<close>

definition attempt_label :: "'w swap_server \<Rightarrow> sha256 \<Rightarrow> system_time \<Rightarrow> label" where
  "attempt_label srv h t = show_hash srv h @ ''-'' @ show_nat (nat t)"

definition fee_limit :: "'w swap_server \<Rightarrow> u64 \<Rightarrow> u64" where
  "fee_limit srv amount_msat =
     pay_fee_limit_base_msat srv + saturating_mul amount_msat (pay_fee_limit_ppm srv) div 1000000"

text \<open>
  Everything before the lock: the checks in their order, and the payment attempt with the request
  that is to be sent for it.
\<close>

definition pay_swap_prepare ::
    "'w swap_server \<Rightarrow> string \<Rightarrow> ('w, status, payment_attempt \<times> payment_request) op" where
  "pay_swap_prepare srv req =
     seq (lift_res (check_invoice srv req)) (\<lambda>(invoice, amount_msat, amount_sat).
     seq (get_swap_parameters srv) (\<lambda>parameters.
     seq (lift_res (check_amount parameters amount_sat)) (\<lambda>_.
     let hash = inv_payment_hash invoice in
     seq (map_err status_of_get_swaps (get_swap_by_hash (srv_swap_repository srv) hash)) (\<lambda>swap_state.
     if ss_preimage swap_state \<noteq> None then fail (failed_precondition ''swap already paid'')
     else
       seq (lift_res (of_option (invalid_argument ''min_final_cltv_expiry_delta too high'')
              (try_u32_of_u64 (inv_min_final_cltv invoice)))) (\<lambda>cltv.
       seq (map_err status_of_chain_repository (get_txos_for_address (srv_chain_repository srv)
              (sp_address (swap_public (ss_swap swap_state))))) (\<lambda>txos.
       if txos = [] then fail (failed_precondition ''no utxos found'')
       else
         let min_confirmation_height = Min (set (map txo_block_height txos)) in
         seq (map_err status_of_chain (get_blockheight (srv_chain_client srv))) (\<lambda>current_height.
         seq (lift_res (payout_blocks_left srv swap_state min_confirmation_height current_height cltv))
           (\<lambda>blocks_left.
         seq (filter_or_keep srv (filter (usable_txo srv parameters current_height) txos)) (\<lambda>txos.
         if txo_sum txos \<noteq> amount_sat
         then fail (failed_precondition ''confirmed utxo values don't match invoice value'')
         else
           seq (map_err status_of_fee (srv_fee_estimator srv 6)) (\<lambda>fee_estimate.
           seq (lift_res (of_option internal_error
                  (map_option (\<lambda>k. p2wpkh (sv_crypto (srv_swap_service srv)) k (srv_network srv))
                    (compressed_of_slice (sv_crypto (srv_swap_service srv)) (replicate 33 2)))))
             (\<lambda>fake_address.
           seq (map_err (\<lambda>_. failed_precondition ''value too low'')
                  (create_claim_tx (srv_swap_service srv) (srv_lib srv)
                    (map (\<lambda>t. \<lparr>cu_swap = ss_swap swap_state, cu_utxo = t, paid_with_request = None,
                       cu_preimage = 0\<rparr>) txos)
                    fee_estimate current_height fake_address)) (\<lambda>_ w.
           let now = srv_now srv w in
           if now < 0 then fail internal_error w
           else
             let label = attempt_label srv hash now in
             ret (\<lparr>pa_creation_time = now, pa_label = label,
                   pa_payment_hash = swap_hash (swap_public (ss_swap swap_state)),
                   pa_outputs = map txo_outpoint txos, pa_amount_msat = amount_msat,
                   pa_destination = inv_payee invoice, pa_payment_request = req\<rparr>,
                  \<lparr>bolt11 = req, cltv_limit = blocks_left, pr_payment_hash = hash, pr_label = label,
                   fee_limit_msat = fee_limit srv amount_msat,
                   timeout_seconds = pay_timeout_seconds srv\<rparr>) w))))))))))))"

definition pay_swap_lock ::
    "'w swap_server \<Rightarrow> payment_attempt \<Rightarrow> ('w, status, unit) op" where
  "pay_swap_lock srv a =
     attempt (lock_add_payment_attempt (srv_swap_repository srv) a) (\<lambda>r.
       case r of
         Inr _ \<Rightarrow> ret ()
       | Inl AlreadyLocked \<Rightarrow> fail (failed_precondition ''swap is locked'')
       | Inl e \<Rightarrow> fail internal_error)"

text \<open>A failure to store the result is logged; the answer depends on the payment alone.\<close>

definition pay_swap_finish ::
    "'w swap_server \<Rightarrow> sha256 \<Rightarrow> label \<Rightarrow> payment_result \<Rightarrow> ('w, status, unit) op" where
  "pay_swap_finish srv hash label result =
     attempt (unlock_add_payment_result (srv_swap_repository srv) hash label result) (\<lambda>_.
       case result of
         PaymentSuccess p \<Rightarrow> ret ()
       | PaymentFailure e \<Rightarrow> fail (Status Unknown ''payment failed''))"

definition pay_swap :: "'w swap_server \<Rightarrow> string \<Rightarrow> ('w, status, unit) op" where
  "pay_swap srv req =
     seq (pay_swap_prepare srv req) (\<lambda>(a, preq).
     seq (pay_swap_lock srv a) (\<lambda>_.
     seq (map_err status_of_lightning (pay (srv_lightning_client srv) preq)) (\<lambda>pay_result.
     pay_swap_finish srv (pa_payment_hash a) (pa_label a) pay_result)))"

section \<open>Refunding a swap\<close>

record refund_request =
  rr_transaction :: bytes
  rr_input_index :: u32
  rr_address :: string
  rr_pub_nonce :: bytes

definition refund_prevout ::
    "'w swap_server \<Rightarrow> tx_in \<Rightarrow> ('w, status, tx_out) op" where
  "refund_prevout srv vin =
     seq (map_err (\<lambda>_. invalid_argument ''invalid transaction input'')
            (get_transaction (srv_chain_client srv) (op_txid (previous_output vin)))) (\<lambda>tx.
     let vout = unat (op_vout (previous_output vin)) in
     if length (tx_output tx) \<le> vout then fail (invalid_argument ''invalid transaction input'')
     else ret (tx_output tx ! vout))"

text \<open>The checks and the signature, before the lock: the swap and the signature to release.\<close>

definition refund_swap_prepare ::
    "'w swap_server \<Rightarrow> refund_request \<Rightarrow> ('w, status exn, swap \<times> bytes \<times> bytes) op" where
  "refund_swap_prepare srv req =
     seq (lift_res (of_option (Err (invalid_argument ''invalid transaction''))
            (decode_transaction srv (rr_transaction req)))) (\<lambda>tx.
     seq (lift_res (of_option (Err (invalid_argument ''invalid pub_nonce''))
            (parse_pub_nonce srv (rr_pub_nonce req)))) (\<lambda>their_pub_nonce.
     let input_index = unat (rr_input_index req) in
     if length (tx_input tx) \<le> input_index then fail (Err (invalid_argument ''invalid input_index''))
     else
       seq (lift_res (of_option (Err (invalid_argument ''invalid address''))
              (parse_address (srv_lib srv) (srv_network srv) (rr_address req)))) (\<lambda>address.
       seq (map_err (Err \<circ> status_of_get_swaps)
              (get_swap_by_address (srv_swap_repository srv) address)) (\<lambda>swap.
       (\<lambda>w. case run_all (refund_prevout srv) (tx_input tx) w of (rs, w1) \<Rightarrow>
         seq (map_err Err (lift_res (collect_res rs))) (\<lambda>prevouts.
         if length prevouts \<noteq> length (tx_input tx) then fail Panic
         else
           seq (lift_res (of_option (Err (invalid_argument ''invalid transaction input''))
                  (address_from_script (srv_lib srv) (srv_network srv)
                    (txo_script (prevouts ! input_index))))) (\<lambda>refund_prevout_address.
           if refund_prevout_address \<noteq> address
           then fail (Err (invalid_argument ''invalid transaction input''))
           else
             seq (map_err (\<lambda>_. Err internal_error)
                    (partial_sign_refund_tx (srv_swap_service srv) (ss_swap swap) tx prevouts
                      input_index their_pub_nonce)) (\<lambda>(partial_signature, our_pub_nonce).
             ret (ss_swap swap, partial_signature, our_pub_nonce)))) w1)))))"

definition refund_swap_lock ::
    "'w swap_server \<Rightarrow> sha256 \<Rightarrow> string \<Rightarrow> ('w, status, unit) op" where
  "refund_swap_lock srv h rid =
     attempt (lock_swap_refund (srv_swap_repository srv) h rid) (\<lambda>r.
       case r of
         Inr _ \<Rightarrow> ret ()
       | Inl AlreadyLocked \<Rightarrow> fail (failed_precondition ''swap is locked'')
       | Inl e \<Rightarrow> fail internal_error)"

text \<open>The last check; the outcome of the unlock is ignored.\<close>

definition refund_swap_check ::
    "'w swap_server \<Rightarrow> sha256 \<Rightarrow> string \<Rightarrow> ('w, status, unit) op" where
  "refund_swap_check srv h rid =
     attempt (has_pending_or_complete_payment (srv_lightning_client srv) h) (\<lambda>r.
       case r of
         Inr False \<Rightarrow> ret ()
       | Inr True \<Rightarrow>
           attempt (unlock_swap_refund (srv_swap_repository srv) h rid)
             (\<lambda>_. fail (failed_precondition ''swap is locked''))
       | Inl e \<Rightarrow>
           attempt (unlock_swap_refund (srv_swap_repository srv) h rid)
             (\<lambda>_. fail internal_error))"

definition refund_swap ::
    "'w swap_server \<Rightarrow> refund_request \<Rightarrow> ('w, status exn, bytes \<times> bytes) op" where
  "refund_swap srv req =
     seq (refund_swap_prepare srv req) (\<lambda>(swap, partial_signature, our_pub_nonce).
     seq (map_err (Err \<circ> status_of_random) (rnd_32 srv)) (\<lambda>rnd.
     let refund_id = show_hash srv rnd; h = swap_hash (swap_public swap) in
     seq (map_err Err (refund_swap_lock srv h refund_id)) (\<lambda>_.
     seq (map_err Err (refund_swap_check srv h refund_id)) (\<lambda>_.
     ret (partial_signature, our_pub_nonce)))))"

section \<open>What is paid\<close>

lemma if_fail_Inr: "(if b then fail e else m) w = (Inr a, w') \<longleftrightarrow> \<not> b \<and> m w = (Inr a, w')"
  by simp

lemma filter_or_keep_Inr:
  "filter_or_keep srv txos w = (Inr ts, w') \<longleftrightarrow>
     filter_txos srv txos w = (Inr ts, w') \<or> (\<exists>e. filter_txos srv txos w = (Inl e, w') \<and> ts = txos)"
  by (auto simp: filter_or_keep_def attempt_def split: prod.splits sum.splits)

definition filter_selects :: "'w swap_server \<Rightarrow> bool" where
  "filter_selects srv \<longleftrightarrow>
     (\<forall>ts w ts' w'. filter_txos srv ts w = (Inr ts', w') \<longrightarrow> mset ts' \<subseteq># mset ts)"

lemma payout_blocks_left_Inr:
  "payout_blocks_left srv st mh cur cltv = Inr left \<longleftrightarrow>
     0 \<le> sint (swap_state_blocks_left st mh cur) \<and>
     left = saturating_sub (swap_state_blocks_left st mh cur) (min_claim_blocks srv) \<and>
     left \<noteq> 0 \<and> min_viable_cltv srv \<le> saturating_sub left cltv"
  by (auto simp: payout_blocks_left_def Let_def not_less)

lemma unat_lt_64: "unat (x :: u64) mod 2 ^ 64 = unat x"
  using less_le_trans [OF unsigned_less [of x], of "2 ^ 64 :: nat"] by (intro mod_less) simp

lemma nonneg_sint_unat: "0 \<le> sint x \<Longrightarrow> int (unat (x :: 'a::len word)) = sint x"
proof -
  assume pos: "0 \<le> sint x"
  have "sint x < 2 ^ (LENGTH('a) - Suc 0)" by (rule sint_less)
  also have "\<dots> \<le> 2 ^ LENGTH('a)" by (rule power_increasing) simp_all
  finally have lt: "sint x < 2 ^ LENGTH('a)" .
  have "take_bit LENGTH('a) (sint x) = sint x" using pos lt by (rule take_bit_int_eq_self)
  then show ?thesis unfolding of_nat_unat uint_sint .
qed

lemma unat_ucast_narrow: "unat (x :: u64) < 2 ^ 32 \<Longrightarrow> unat (ucast x :: u32) = unat x"
  by (simp add: unsigned_ucast_eq take_bit_nat_eq_self)

lemma payout_margin:
  assumes "payout_blocks_left srv st mh cur cltv = Inr left"
  shows "unat cur + unat left + unat (min_claim_blocks srv) \<le> unat mh + unat (lock_time (swap_public (ss_swap st)))"
proof -
  let ?b = "swap_state_blocks_left st mh cur"
  have b: "0 \<le> sint ?b" "unat left = unat ?b - unat (min_claim_blocks srv)" "left \<noteq> 0"
    using assms by (auto simp: payout_blocks_left_Inr unat_saturating_sub)
  have "unat left \<noteq> 0" using b(3) by (simp only: unat_eq_zero not_False_eq_True)
  with b(2) have pos: "unat ?b = unat left + unat (min_claim_blocks srv)" "0 < unat ?b"
    by linarith+
  define H where "H = int (unat mh)"
  define K where "K = int (unat (lock_time (swap_public (ss_swap st))))"
  define C where "C = int (unat cur)"
  define D where "D = min (min (H + K) (2 ^ 64 - 1)) (2 ^ 63 - 1) - min C (2 ^ 63 - 1)"
  have sint: "sint ?b = (if - (2 ^ 31) \<le> D \<and> D < 2 ^ 31 then D else 0)"
    unfolding swap_state_blocks_left_sint D_def H_def K_def C_def Let_def by (rule refl)
  define B where "B = int (unat ?b)"
  have B: "B = sint ?b" "0 < B"
    using nonneg_sint_unat [OF b(1)] pos(2) by (simp_all add: B_def del: of_nat_unat)
  with sint have "B = D" by (simp split: if_splits)
  moreover have "0 \<le> H" "0 \<le> K" "0 \<le> C" by (simp_all add: H_def K_def C_def)
  ultimately have "C + B \<le> H + K" using B(2) unfolding D_def by linarith
  then show ?thesis unfolding B_def C_def H_def K_def pos(1) by linarith
qed

lemma check_invoice_Inr:
  "check_invoice srv req = Inr (iv, amount_msat, amount_sat) \<longleftrightarrow>
     parse_invoice srv req = Some iv \<and> inv_amount_msat iv = Some amount_msat \<and>
     amount_sat = amount_msat div 1000 \<and> amount_sat * 1000 = amount_msat"
  by (auto simp: check_invoice_def bind_res_Inr Let_def)

lemma check_amount_Inr:
  "check_amount prm amount = Inr u \<longleftrightarrow>
     amount \<le> prm_max_swap_amount_sat prm \<and> prm_min_swap_amount_sat prm \<le> amount"
  by (auto simp: check_amount_def)

lemma prepare_Inr:
  assumes "pay_swap_prepare srv req w = (Inr (a, preq), w')"
  shows "\<exists>iv amount_msat prm st cltv txos height blocks ts fee key tx w1 w2 w3 w4 w5 w6.
    check_invoice srv req = Inr (iv, amount_msat, amount_msat div 1000) \<and>
    get_swap_parameters srv w = (Inr prm, w1) \<and> check_amount prm (amount_msat div 1000) = Inr () \<and>
    get_swap_by_hash (srv_swap_repository srv) (inv_payment_hash iv) w1 = (Inr st, w2) \<and>
    ss_preimage st = None \<and> try_u32_of_u64 (inv_min_final_cltv iv) = Some cltv \<and>
    get_txos_for_address (srv_chain_repository srv) (sp_address (swap_public (ss_swap st))) w2 = (Inr txos, w3) \<and>
    txos \<noteq> [] \<and> get_blockheight (srv_chain_client srv) w3 = (Inr height, w4) \<and>
    payout_blocks_left srv st (Min (txo_block_height ` set txos)) height cltv = Inr blocks \<and>
    filter_or_keep srv (filter (usable_txo srv prm height) txos) w4 = (Inr ts, w5) \<and>
    txo_sum ts = amount_msat div 1000 \<and> srv_fee_estimator srv 6 w5 = (Inr fee, w6) \<and>
    compressed_of_slice (sv_crypto (srv_swap_service srv)) (replicate 33 2) = Some key \<and>
    create_claim_tx (srv_swap_service srv) (srv_lib srv)
      (map (\<lambda>t. \<lparr>cu_swap = ss_swap st, cu_utxo = t, paid_with_request = None, cu_preimage = 0\<rparr>) ts)
      fee height (p2wpkh (sv_crypto (srv_swap_service srv)) key (srv_network srv)) w6 = (Inr tx, w') \<and>
    a = \<lparr>pa_creation_time = srv_now srv w', pa_label = pr_label preq,
         pa_payment_hash = swap_hash (swap_public (ss_swap st)), pa_outputs = map txo_outpoint ts,
         pa_amount_msat = amount_msat, pa_destination = inv_payee iv, pa_payment_request = req\<rparr> \<and>
    preq = \<lparr>bolt11 = req, cltv_limit = blocks, pr_payment_hash = inv_payment_hash iv,
         pr_label = attempt_label srv (inv_payment_hash iv) (srv_now srv w'),
         fee_limit_msat = fee_limit srv amount_msat, timeout_seconds = pay_timeout_seconds srv\<rparr>"
  using assms
  by (clarsimp simp: pay_swap_prepare_def Let_def run_Inr if_fail_Inr check_invoice_Inr split: if_splits)

lemma unat_txo_sum: "unat (txo_sum ts) = (\<Sum>t\<leftarrow>ts. unat (txo_value (txo_tx_out t))) mod 2 ^ 64"
proof -
  have "unat (fold (\<lambda>t sum. sum + txo_value (txo_tx_out t)) ts z) =
      (unat z + (\<Sum>t\<leftarrow>ts. unat (txo_value (txo_tx_out t)))) mod 2 ^ 64" for z :: u64
  proof (induction ts arbitrary: z)
    case Nil
    show ?case using unat_lt_64 [of z] by simp
  next
    case (Cons t ts)
    then show ?case by (simp add: unat_word_ariths mod_simps add.assoc)
  qed
  then show ?thesis by (simp add: txo_sum_def)
qed

text \<open>C2: what \<open>pay_swap\<close> is about to pay is covered, as long as the chain filter only leaves outputs out
  (\<open>filter_selects\<close>): the invoice amount is within the limits and is exactly the sum of outputs to the
  swap's address that pass the filter, each with the required confirmations and amount; the swap has
  not been paid before; the claim of just these outputs can be made, above dust, with the fee that the
  estimator gives for six blocks; and the request sent to the node is for the recorded attempt.\<close>

theorem payout_is_covered:
  assumes "pay_swap_prepare srv req w = (Inr (a, preq), w')" and "filter_selects srv"
  shows "\<exists>iv prm st txos height ts w1 w2 w3 w4 w5 w6 fee key tx.
    parse_invoice srv req = Some iv \<and> inv_amount_msat iv = Some (pa_amount_msat a) \<and>
    get_swap_parameters srv w = (Inr prm, w1) \<and>
    get_swap_by_hash (srv_swap_repository srv) (inv_payment_hash iv) w1 = (Inr st, w2) \<and>
    ss_preimage st = None \<and> pa_payment_hash a = swap_hash (swap_public (ss_swap st)) \<and>
    get_txos_for_address (srv_chain_repository srv) (sp_address (swap_public (ss_swap st))) w2 = (Inr txos, w3) \<and>
    get_blockheight (srv_chain_client srv) w3 = (Inr height, w4) \<and>
    pa_outputs a = map txo_outpoint ts \<and> mset ts \<subseteq># mset txos \<and>
    unat (pa_amount_msat a) = 1000 * ((\<Sum>t\<leftarrow>ts. unat (txo_value (txo_tx_out t))) mod 2 ^ 64) \<and>
    prm_min_swap_amount_sat prm \<le> txo_sum ts \<and> txo_sum ts \<le> prm_max_swap_amount_sat prm \<and>
    (\<forall>t\<in>set ts. min_confirmations srv \<le> confirmations t height \<and>
       prm_min_utxo_amount_sat prm \<le> txo_value (txo_tx_out t)) \<and>
    filter_or_keep srv (filter (usable_txo srv prm height) txos) w4 = (Inr ts, w5) \<and>
    srv_fee_estimator srv 6 w5 = (Inr fee, w6) \<and>
    compressed_of_slice (sv_crypto (srv_swap_service srv)) (replicate 33 2) = Some key \<and>
    create_claim_tx (srv_swap_service srv) (srv_lib srv)
      (map (\<lambda>t. \<lparr>cu_swap = ss_swap st, cu_utxo = t, paid_with_request = None, cu_preimage = 0\<rparr>) ts)
      fee height (p2wpkh (sv_crypto (srv_swap_service srv)) key (srv_network srv)) w6 = (Inr tx, w') \<and>
    (\<exists>out. tx_output tx = [out] \<and> dust_limit_sat (srv_swap_service srv) \<le> txo_value out) \<and>
    bolt11 preq = pa_payment_request a \<and> pr_label preq = pa_label a \<and>
    pr_payment_hash preq = inv_payment_hash iv"
proof -
  from prepare_Inr [OF assms(1)] obtain iv amount prm st cltv txos height blocks ts fee key tx w1 w2 w3 w4 w5 w6 where
    inv: "check_invoice srv req = Inr (iv, amount, amount div 1000)"
    and p: "get_swap_parameters srv w = (Inr prm, w1)" "check_amount prm (amount div 1000) = Inr ()"
    and g: "get_swap_by_hash (srv_swap_repository srv) (inv_payment_hash iv) w1 = (Inr st, w2)"
      "ss_preimage st = None"
    and t: "get_txos_for_address (srv_chain_repository srv) (sp_address (swap_public (ss_swap st))) w2 = (Inr txos, w3)"
      "get_blockheight (srv_chain_client srv) w3 = (Inr height, w4)"
    and f: "filter_or_keep srv (filter (usable_txo srv prm height) txos) w4 = (Inr ts, w5)"
    and s: "txo_sum ts = amount div 1000"
    and e: "srv_fee_estimator srv 6 w5 = (Inr fee, w6)"
      "compressed_of_slice (sv_crypto (srv_swap_service srv)) (replicate 33 2) = Some key"
    and c: "create_claim_tx (srv_swap_service srv) (srv_lib srv)
      (map (\<lambda>t. \<lparr>cu_swap = ss_swap st, cu_utxo = t, paid_with_request = None, cu_preimage = 0\<rparr>) ts)
      fee height (p2wpkh (sv_crypto (srv_swap_service srv)) key (srv_network srv)) w6 = (Inr tx, w')"
    and a: "a = \<lparr>pa_creation_time = srv_now srv w', pa_label = pr_label preq,
         pa_payment_hash = swap_hash (swap_public (ss_swap st)), pa_outputs = map txo_outpoint ts,
         pa_amount_msat = amount, pa_destination = inv_payee iv, pa_payment_request = req\<rparr>"
    and preq: "preq = \<lparr>bolt11 = req, cltv_limit = blocks, pr_payment_hash = inv_payment_hash iv,
         pr_label = attempt_label srv (inv_payment_hash iv) (srv_now srv w'),
         fee_limit_msat = fee_limit srv amount, timeout_seconds = pay_timeout_seconds srv\<rparr>"
    apply (elim exE conjE)
    apply (rule that)
    apply assumption+
    done
  have "mset ts \<subseteq># mset (filter (usable_txo srv prm height) txos)"
    using f assms(2) unfolding filter_or_keep_Inr filter_selects_def
    by (metis subset_mset.order_refl)
  then have sub: "mset ts \<subseteq># mset txos" and ok: "\<forall>t\<in>set ts. usable_txo srv prm height t"
    using subset_mset.order_trans [OF _ multiset_filter_subset [of _ "mset txos"]]
    by (auto dest!: mset_subset_eqD simp flip: set_mset_mset)
  have "1000 * unat (txo_sum ts) = unat amount"
  proof -
    have "amount div 1000 * 1000 = amount" using inv by (simp add: check_invoice_Inr)
    moreover have "unat amount < 2 ^ 64" by (rule less_le_trans [OF unsigned_less]) simp
    moreover have "unat (amount div 1000) * 1000 \<le> unat amount" by (simp add: unat_div)
    ultimately have "unat (amount div 1000 * 1000) = unat (amount div 1000) * 1000"
      by (subst unat_word_ariths) simp
    with \<open>amount div 1000 * 1000 = amount\<close> show ?thesis unfolding s by (simp only: mult.commute)
  qed
  then have sum: "1000 * ((\<Sum>t\<leftarrow>ts. unat (txo_value (txo_tx_out t))) mod 2 ^ 64) = unat amount"
    unfolding unat_txo_sum .
  have iv: "parse_invoice srv req = Some iv" "inv_amount_msat iv = Some amount"
    using inv by (simp_all only: check_invoice_Inr)
  have lim: "prm_min_swap_amount_sat prm \<le> txo_sum ts" "txo_sum ts \<le> prm_max_swap_amount_sat prm"
    using p(2) unfolding s check_amount_Inr by simp_all
  have use: "\<forall>t\<in>set ts. min_confirmations srv \<le> confirmations t height \<and>
      prm_min_utxo_amount_sat prm \<le> txo_value (txo_tx_out t)"
    using ok by (simp only: usable_txo_def not_less)
  have sel: "pa_amount_msat a = amount" "pa_outputs a = map txo_outpoint ts" "bolt11 preq = pa_payment_request a"
      "pr_label preq = pa_label a" "pr_payment_hash preq = inv_payment_hash iv"
      "pa_payment_hash a = swap_hash (swap_public (ss_swap st))"
    by (simp_all add: a preq)
  have dust: "\<exists>out. tx_output tx = [out] \<and> dust_limit_sat (srv_swap_service srv) \<le> txo_value out"
    using claim_tx_shape [OF c] by blast
  show ?thesis
    unfolding sel(1) using iv p(1) g t sel(2-) sub sum [symmetric] lim use f e c dust by blast
qed

text \<open>C14: the payment's timelock ends in time: the height at which the payment can still settle, plus
  the blocks reserved for claiming, is not above the height at which the oldest output can be
  refunded by the user alone, and the node is left the minimum viable delta beyond the invoice's.\<close>

theorem payout_timelock_margin:
  assumes "pay_swap_prepare srv req w = (Inr (a, preq), w')"
  shows "\<exists>iv st txos height w1 w2 w3 w4. parse_invoice srv req = Some iv \<and>
    get_swap_by_hash (srv_swap_repository srv) (inv_payment_hash iv) w1 = (Inr st, w2) \<and>
    get_txos_for_address (srv_chain_repository srv) (sp_address (swap_public (ss_swap st))) w2 = (Inr txos, w3) \<and>
    get_blockheight (srv_chain_client srv) w3 = (Inr height, w4) \<and>
    unat height + unat (cltv_limit preq) + unat (min_claim_blocks srv) \<le>
      unat (Min (txo_block_height ` set txos)) + unat (lock_time (swap_public (ss_swap st))) \<and>
    0 < cltv_limit preq \<and>
    unat (min_viable_cltv srv) \<le> unat (cltv_limit preq) - unat (inv_min_final_cltv iv)"
proof -
  from prepare_Inr [OF assms] obtain iv amount prm st cltv txos height blocks ts fee key tx w1 w2 w3 w4 w5 w6 where
    inv: "check_invoice srv req = Inr (iv, amount, amount div 1000)"
    and "get_swap_parameters srv w = (Inr prm, w1)" "check_amount prm (amount div 1000) = Inr ()"
    and g: "get_swap_by_hash (srv_swap_repository srv) (inv_payment_hash iv) w1 = (Inr st, w2)"
    and "ss_preimage st = None" and cltv: "try_u32_of_u64 (inv_min_final_cltv iv) = Some cltv"
    and t: "get_txos_for_address (srv_chain_repository srv) (sp_address (swap_public (ss_swap st))) w2 = (Inr txos, w3)"
    and "txos \<noteq> []" and h: "get_blockheight (srv_chain_client srv) w3 = (Inr height, w4)"
    and left: "payout_blocks_left srv st (Min (txo_block_height ` set txos)) height cltv = Inr blocks"
    and "filter_or_keep srv (filter (usable_txo srv prm height) txos) w4 = (Inr ts, w5)"
    "txo_sum ts = amount div 1000" "srv_fee_estimator srv 6 w5 = (Inr fee, w6)"
    "compressed_of_slice (sv_crypto (srv_swap_service srv)) (replicate 33 2) = Some key"
    "create_claim_tx (srv_swap_service srv) (srv_lib srv)
      (map (\<lambda>t. \<lparr>cu_swap = ss_swap st, cu_utxo = t, paid_with_request = None, cu_preimage = 0\<rparr>) ts)
      fee height (p2wpkh (sv_crypto (srv_swap_service srv)) key (srv_network srv)) w6 = (Inr tx, w')"
    "a = \<lparr>pa_creation_time = srv_now srv w', pa_label = pr_label preq,
         pa_payment_hash = swap_hash (swap_public (ss_swap st)), pa_outputs = map txo_outpoint ts,
         pa_amount_msat = amount, pa_destination = inv_payee iv, pa_payment_request = req\<rparr>"
    and preq: "preq = \<lparr>bolt11 = req, cltv_limit = blocks, pr_payment_hash = inv_payment_hash iv,
         pr_label = attempt_label srv (inv_payment_hash iv) (srv_now srv w'),
         fee_limit_msat = fee_limit srv amount, timeout_seconds = pay_timeout_seconds srv\<rparr>"
    apply (elim exE conjE)
    apply (rule that)
    apply assumption+
    done
  have iv: "parse_invoice srv req = Some iv" using inv by (simp only: check_invoice_Inr)
  have lim: "cltv_limit preq = blocks" by (simp add: preq)
  have cl: "unat cltv = unat (inv_min_final_cltv iv)"
    using cltv by (auto simp: try_u32_of_u64_def unat_ucast_narrow split: if_splits)
  have "0 < blocks" "unat (min_viable_cltv srv) \<le> unat blocks - unat (inv_min_final_cltv iv)"
    unfolding cl [symmetric] using left by (auto simp: payout_blocks_left_Inr word_gt_0 word_le_nat_alt unat_saturating_sub)
  moreover have "unat height + unat blocks + unat (min_claim_blocks srv) \<le>
      unat (Min (txo_block_height ` set txos)) + unat (lock_time (swap_public (ss_swap st)))"
    using left by (rule payout_margin)
  ultimately show ?thesis unfolding lim using iv g t h by blast
qed

section \<open>A small server\<close>

definition ex_repository :: "'w swap_repository" where
  "ex_repository =
     \<lparr>add_swap = (\<lambda>s. ret ()), get_swap_by_hash = (\<lambda>h. ret \<lparr>ss_swap = ex_swap, ss_preimage = None\<rparr>),
      get_swap_by_address = (\<lambda>a. ret \<lparr>ss_swap = ex_swap, ss_preimage = None\<rparr>),
      get_swap_by_payment_request = (\<lambda>r. fail GetSwapsNotFound), get_swap_locks = (\<lambda>h. ret []),
      get_swap_payment_attempts = (\<lambda>h. ret []), get_swaps = (\<lambda>as. ret Map.empty),
      get_swaps_with_paid_outpoints = (\<lambda>as. ret Map.empty), get_unhandled_payment_attempts = ret [],
      lock_add_payment_attempt = (\<lambda>a. ret ()), lock_swap_refund = (\<lambda>h r. ret ()),
      unlock_add_payment_result = (\<lambda>h l r. ret ()), unlock_swap_refund = (\<lambda>h r. ret ())\<rparr>"

definition ex_chain_repository :: "'w chain_repository" where
  "ex_chain_repository =
     \<lparr>add_block = (\<lambda>b os is. ret []), add_watch_address = (\<lambda>a. ret ()),
      filter_watch_addresses = (\<lambda>as. ret as), get_block_headers = ret [], get_tip = ret None,
      get_txos_for_address = (\<lambda>a. ret [cu_utxo ex_claimable]),
      get_txos_for_address_with_spends = (\<lambda>a. ret []), get_utxos = ret [], undo_block = (\<lambda>h. ret ())\<rparr>"

definition ex_funding :: transaction where
  "ex_funding = \<lparr>tx_version = 2, tx_lock_time = 0, tx_input = [],
     tx_output = [\<lparr>txo_value = 1000, txo_script = [1]\<rparr>]\<rparr>"

definition ex_client :: "'w chain_client" where
  "ex_client =
     \<lparr>broadcast_tx = (\<lambda>t. ret ()), get_blockheight = ret 109, get_tip_hash = ret 14,
      get_block = (\<lambda>h. fail BlockNotFound), get_block_header = (\<lambda>h. fail BlockNotFound),
      get_sender_addresses = (\<lambda>ps. ret []), get_transaction = (\<lambda>t. ret ex_funding)\<rparr>"

definition ex_refund_tx :: transaction where
  "ex_refund_tx = \<lparr>tx_version = 2, tx_lock_time = 0,
     tx_input = [\<lparr>previous_output = OutPoint 7 0, script_sig = [], tx_sequence = 0, tx_witness = []\<rparr>],
     tx_output = []\<rparr>"

definition ex_server :: "'w swap_server" where
  "ex_server =
     \<lparr>srv_network = ''regtest'', max_swap_amount_sat = 4000000, min_confirmations = 1,
      min_claim_blocks = 72, min_utxo_amount_sat = 500, min_viable_cltv = 72,
      pay_fee_limit_base_msat = 5000, pay_fee_limit_ppm = 4000, pay_timeout_seconds = 120,
      srv_chain_client = ex_client, filter_txos = (\<lambda>ts. ret ts),
      srv_chain_repository = ex_chain_repository,
      srv_lightning_client = \<lparr>get_payment_state = (\<lambda>h l. fail PaymentNotFound),
        get_preimage = (\<lambda>h. ret None), has_pending_or_complete_payment = (\<lambda>h. ret False),
        pay = (\<lambda>r. ret (PaymentSuccess 9))\<rparr>,
      rnd_32 = ret 5, srv_swap_service = ex_service, srv_swap_repository = ex_repository,
      srv_fee_estimator = (\<lambda>b. ret \<lparr>sat_per_kw = 253\<rparr>),
      srv_lib = ex_bitcoin_lib\<lparr>address_from_script := (\<lambda>n s. Some ''a'')\<rparr>,
      parse_pubkey = Some,
      parse_invoice = (\<lambda>r. Some \<lparr>inv_amount_msat = Some 1000000, inv_payment_hash = 77,
        inv_min_final_cltv = 18, inv_payee = [2]\<rparr>),
      decode_transaction = (\<lambda>b. Some ex_refund_tx), parse_pub_nonce = Some,
      show_hash = (\<lambda>h. ''h''), srv_now = (\<lambda>w. 7)\<rparr>"

lemma ex_min_confirmation: "Min {100 :: u64} = 100" by simp

lemma ex_prepare:
  "\<exists>a preq. pay_swap_prepare ex_server ''lnbc'' () = (Inr (a, preq), ()) \<and> cltv_limit preq = 207 \<and>
     pa_outputs a = [OutPoint 7 0] \<and> pa_amount_msat a = 1000000"
  by (simp add: pay_swap_prepare_def ex_server_def Let_def seq_def map_err_def of_option_def
      check_invoice_def bind_res_def get_swap_parameters_def check_amount_def ex_repository_def
      try_u32_of_u64_def ex_chain_repository_def ex_client_def payout_blocks_left_def ex_claimable_def
      usable_txo_def filter_or_keep_def attempt_def txo_sum_def confirmations_def saturating_add_def
      saturating_sub_def swap_state_blocks_left_def try_i64_of_u64_def try_i32_of_i64_def
      i64_saturating_sub_def ex_swap_def create_claim_tx_def claim_total_def lock_time_from_height_def
      ex_service_def ex_crypto_def unsigned_claim_tx_def checked_add_def div_ceil_def
      claim_witness_def taproot_spend_info_def key_agg_cache_def attempt_label_def fee_limit_def
      ex_bitcoin_lib_def)

lemma payout_is_covered_witness:
  "\<exists>a preq. pay_swap_prepare ex_server ''lnbc'' () = (Inr (a, preq), ()) \<and>
     unat (pa_amount_msat a) = 1000 * 1000"
proof -
  obtain a preq where a: "pay_swap_prepare ex_server ''lnbc'' () = (Inr (a, preq), ())"
    using ex_prepare by blast
  have "filter_selects ex_server" by (simp add: filter_selects_def ex_server_def)
  from payout_is_covered [OF a this] a show ?thesis by (auto simp: ex_server_def)
qed

lemma payout_timelock_margin_witness:
  "\<exists>a preq. pay_swap_prepare ex_server ''lnbc'' () = (Inr (a, preq), ()) \<and>
     109 + unat (cltv_limit preq) + 72 \<le> 100 + 288"
proof -
  obtain a preq where a: "pay_swap_prepare ex_server ''lnbc'' () = (Inr (a, preq), ())"
    using ex_prepare by blast
  from payout_timelock_margin [OF a] a show ?thesis
    by (auto simp: ex_server_def ex_repository_def ex_chain_repository_def ex_client_def
        ex_claimable_def ex_swap_def)
qed

lemma refund_run_all:
  assumes "run_all (refund_prevout srv) ins w = (rs, w')" and "collect_res rs = Inr ps"
  shows "list_all2 (\<lambda>i p. \<exists>tx v v'. get_transaction (srv_chain_client srv) (op_txid (previous_output i)) v =
      (Inr tx, v') \<and> unat (op_vout (previous_output i)) < length (tx_output tx) \<and>
      p = tx_output tx ! unat (op_vout (previous_output i))) ins ps"
  using assms
proof (induction ins arbitrary: w rs ps)
  case (Cons i ins)
  then show ?case
    by (auto simp: refund_prevout_def Let_def run_Inr if_fail_Inr not_le split: prod.splits sum.splits)
      blast
qed auto

lemma refund_lock_Inr:
  "refund_swap_lock srv h rid w = (Inr u, w') \<longleftrightarrow> lock_swap_refund (srv_swap_repository srv) h rid w = (Inr (), w')"
  by (auto simp: refund_swap_lock_def attempt_def split: prod.splits sum.splits lock_swap_error.splits)

lemma refund_check_Inr:
  "refund_swap_check srv h rid w = (Inr u, w') \<longleftrightarrow>
     has_pending_or_complete_payment (srv_lightning_client srv) h w = (Inr False, w')"
  by (auto simp: refund_swap_check_def attempt_def split: prod.splits sum.splits bool.splits)

lemma run_all_case:
  "(case run_all f xs w of (rs, v) \<Rightarrow> g rs v) = x \<longleftrightarrow>
     (\<exists>rs v. run_all f xs w = (rs, v) \<and> g rs v = x)"
  by (cases "run_all f xs w") simp

lemma refund_prepare_Inr:
  assumes "refund_swap_prepare srv req w = (Inr (s, sig, nonce), w')"
  shows "\<exists>tx their a st prevouts w1 rs w2.
    decode_transaction srv (rr_transaction req) = Some tx \<and>
    parse_pub_nonce srv (rr_pub_nonce req) = Some their \<and>
    unat (rr_input_index req) < length (tx_input tx) \<and>
    parse_address (srv_lib srv) (srv_network srv) (rr_address req) = Some a \<and>
    get_swap_by_address (srv_swap_repository srv) a w = (Inr st, w1) \<and>
    run_all (refund_prevout srv) (tx_input tx) w1 = (rs, w2) \<and> collect_res rs = Inr prevouts \<and>
    address_from_script (srv_lib srv) (srv_network srv)
      (txo_script (prevouts ! unat (rr_input_index req))) = Some a \<and>
    partial_sign_refund_tx (srv_swap_service srv) (ss_swap st) tx prevouts (unat (rr_input_index req))
      their w2 = (Inr (sig, nonce), w') \<and> s = ss_swap st"
  using assms
  by (clarsimp simp: refund_swap_prepare_def Let_def run_Inr if_fail_Inr not_le run_all_case)

lemma refund_swap_Inr:
  assumes "refund_swap srv req w = (Inr (sig, nonce), w')"
  obtains s rnd w3 w4 w5 where "refund_swap_prepare srv req w = (Inr (s, sig, nonce), w3)"
    and "rnd_32 srv w3 = (Inr rnd, w4)"
    and "lock_swap_refund (srv_swap_repository srv) (swap_hash (swap_public s)) (show_hash srv rnd) w4 =
      (Inr (), w5)"
    and "has_pending_or_complete_payment (srv_lightning_client srv) (swap_hash (swap_public s)) w5 =
      (Inr False, w')"
  using assms by (auto simp: refund_swap_def Let_def run_Inr refund_lock_Inr refund_check_Inr)

text \<open>C3: a refund signature is released only for the right output and only once the refund's lock is
  held and the node, asked after that, knows no payment that is pending or complete: the signed
  input spends an output of a transaction the chain knows to the swap's own address, every input
  is resolved, and the signature is the service's for exactly this transaction and input.\<close>

theorem refund_release:
  assumes "refund_swap srv req w = (Inr (sig, nonce), w')"
  shows "\<exists>tx a st prevouts w1 w2 their w3 rnd w4 w5.
    decode_transaction srv (rr_transaction req) = Some tx \<and>
    parse_pub_nonce srv (rr_pub_nonce req) = Some their \<and>
    unat (rr_input_index req) < length (tx_input tx) \<and>
    parse_address (srv_lib srv) (srv_network srv) (rr_address req) = Some a \<and>
    get_swap_by_address (srv_swap_repository srv) a w = (Inr st, w1) \<and>
    list_all2 (\<lambda>i p. \<exists>tx v v'. get_transaction (srv_chain_client srv) (op_txid (previous_output i)) v =
      (Inr tx, v') \<and> unat (op_vout (previous_output i)) < length (tx_output tx) \<and>
      p = tx_output tx ! unat (op_vout (previous_output i))) (tx_input tx) prevouts \<and>
    address_from_script (srv_lib srv) (srv_network srv)
      (txo_script (prevouts ! unat (rr_input_index req))) = Some a \<and>
    partial_sign_refund_tx (srv_swap_service srv) (ss_swap st) tx prevouts (unat (rr_input_index req))
      their w2 = (Inr (sig, nonce), w3) \<and>
    rnd_32 srv w3 = (Inr rnd, w4) \<and>
    lock_swap_refund (srv_swap_repository srv) (swap_hash (swap_public (ss_swap st))) (show_hash srv rnd) w4 =
      (Inr (), w5) \<and>
    has_pending_or_complete_payment (srv_lightning_client srv) (swap_hash (swap_public (ss_swap st))) w5 =
      (Inr False, w')"
proof -
  obtain s rnd w3 w4 w5 where prep: "refund_swap_prepare srv req w = (Inr (s, sig, nonce), w3)"
    and rnd: "rnd_32 srv w3 = (Inr rnd, w4)"
    and lock: "lock_swap_refund (srv_swap_repository srv) (swap_hash (swap_public s)) (show_hash srv rnd) w4 =
      (Inr (), w5)"
    and check: "has_pending_or_complete_payment (srv_lightning_client srv) (swap_hash (swap_public s)) w5 =
      (Inr False, w')"
    using assms by (rule refund_swap_Inr)
  from refund_prepare_Inr [OF prep] obtain tx their a st prevouts w1 rs w2 where
    facts: "decode_transaction srv (rr_transaction req) = Some tx"
      "parse_pub_nonce srv (rr_pub_nonce req) = Some their"
      "unat (rr_input_index req) < length (tx_input tx)"
      "parse_address (srv_lib srv) (srv_network srv) (rr_address req) = Some a"
      "get_swap_by_address (srv_swap_repository srv) a w = (Inr st, w1)"
    and all: "run_all (refund_prevout srv) (tx_input tx) w1 = (rs, w2)" "collect_res rs = Inr prevouts"
    and sig: "address_from_script (srv_lib srv) (srv_network srv)
      (txo_script (prevouts ! unat (rr_input_index req))) = Some a"
      "partial_sign_refund_tx (srv_swap_service srv) (ss_swap st) tx prevouts (unat (rr_input_index req))
      their w2 = (Inr (sig, nonce), w3)" and s: "s = ss_swap st"
    by (elim exE conjE)
  from refund_run_all [OF all] facts sig rnd lock check show ?thesis unfolding s by blast
qed

lemma ex_decoded: "decode_transaction ex_server b = Some ex_refund_tx" "parse_pub_nonce ex_server n = Some n"
  by (simp_all add: ex_server_def)

lemma refund_release_witness:
  "\<exists>sig nonce. refund_swap ex_server \<lparr>rr_transaction = [1], rr_input_index = 0, rr_address = ''a'',
      rr_pub_nonce = [2]\<rparr> () = (Inr (sig, nonce), ()) \<and>
    (\<exists>prevouts. partial_sign_refund_tx ex_service ex_swap ex_refund_tx prevouts 0 [2] () = (Inr (sig, nonce), ()))"
proof -
  obtain sig nonce where r: "refund_swap ex_server \<lparr>rr_transaction = [1], rr_input_index = 0,
      rr_address = ''a'', rr_pub_nonce = [2]\<rparr> () = (Inr (sig, nonce), ())"
    by (simp add: refund_swap_def refund_swap_prepare_def ex_server_def Let_def seq_def map_err_def
        of_option_def ex_repository_def ex_refund_tx_def refund_prevout_def ex_client_def ex_funding_def
        partial_sign_refund_tx_def ex_service_def ex_crypto_def taproot_spend_info_def key_agg_cache_def
        bind_res_def refund_swap_lock_def refund_swap_check_def attempt_def ex_bitcoin_lib_def)
  from refund_release [OF r] obtain a st prevouts v where
    "get_swap_by_address (srv_swap_repository ex_server) a () = (Inr st, ())"
    "partial_sign_refund_tx (srv_swap_service ex_server) (ss_swap st) ex_refund_tx prevouts 0 [2] v =
      (Inr (sig, nonce), ())"
    by (auto simp: ex_decoded)
  with r show ?thesis by (auto simp: ex_server_def ex_repository_def)
qed

end
