(* ===== verification/Payment_Monitor.thy ===== *)
theory Payment_Monitor
  imports Swap_Repository
begin

text \<open>
  The historical payment monitor (\<open>swap/payment_monitor.rs\<close>): it takes the payment attempts that
  were not handled when the process started, asks the lightning node for their state, records the
  result of those that are settled or unknown to the node, and polls the rest.

  The errors of the three services are boxed in the code; here they keep their origin.
\<close>

datatype payment_monitor_error =
    MonitorAttempts get_payment_attempts_error
  | MonitorLightning lightning_error
  | MonitorLock lock_swap_error

record 'w payment_monitor =
  pm_lightning_client :: "'w lightning_client"
  pm_payment_attempts :: "payment_attempt list"
  pm_poll_interval :: nat
  pm_swap_repository :: "'w swap_repository"

definition record_result ::
    "'w payment_monitor \<Rightarrow> payment_attempt \<Rightarrow> payment_result \<Rightarrow> ('w, payment_monitor_error, unit) op" where
  "record_result pm a result =
     map_err MonitorLock (unlock_add_payment_result (pm_swap_repository pm)
       (pa_payment_hash a) (pa_label a) result)"

text \<open>The loop over the attempts; the pending ones are kept in their order.\<close>

fun do_check_payments ::
    "'w payment_monitor \<Rightarrow> payment_attempt list \<Rightarrow> ('w, payment_monitor_error, payment_attempt list) op" where
  "do_check_payments pm [] = ret []"
| "do_check_payments pm (a # as) =
     attempt (get_payment_state (pm_lightning_client pm) (pa_payment_hash a) (pa_label a)) (\<lambda>r.
       case r of
         Inl PaymentNotFound \<Rightarrow>
           seq (record_result pm a (PaymentFailure ''cancelled'')) (\<lambda>_. do_check_payments pm as)
       | Inl e \<Rightarrow> fail (MonitorLightning e)
       | Inr (StateSuccess p) \<Rightarrow>
           seq (record_result pm a (PaymentSuccess p)) (\<lambda>_. do_check_payments pm as)
       | Inr (StateFailure e) \<Rightarrow>
           seq (record_result pm a (PaymentFailure e)) (\<lambda>_. do_check_payments pm as)
       | Inr StatePending \<Rightarrow>
           seq (do_check_payments pm as) (\<lambda>pending. ret (a # pending)))"

definition pm_initialize ::
    "'w payment_monitor \<Rightarrow> ('w, payment_monitor_error, 'w payment_monitor) op" where
  "pm_initialize pm =
     seq (map_err MonitorAttempts (get_unhandled_payment_attempts (pm_swap_repository pm)))
       (\<lambda>unhandled.
     seq (do_check_payments pm unhandled) (\<lambda>pending.
     ret (pm\<lparr>pm_payment_attempts := pending\<rparr>)))"

text \<open>
  The polling loop, with fuel; \<open>wait\<close> is the \<open>select!\<close> between the cancellation and the sleep, as
  for the chain monitor. A failed round keeps the attempts as they were.
\<close>

fun pm_start ::
    "nat \<Rightarrow> ('w \<Rightarrow> bool) \<Rightarrow> (nat \<Rightarrow> 'w \<Rightarrow> bool \<times> 'w) \<Rightarrow> 'w payment_monitor \<Rightarrow>
     ('w, payment_monitor_error exn, unit) op" where
  "pm_start 0 token wait pm w = (Inl Diverged, w)"
| "pm_start (Suc n) token wait pm w =
     (if token w \<or> pm_payment_attempts pm = [] then (Inr (), w)
      else (case do_check_payments pm (pm_payment_attempts pm) w of (r, w1) \<Rightarrow>
        let pm' = (case r of Inr pending \<Rightarrow> pm\<lparr>pm_payment_attempts := pending\<rparr> | Inl e \<Rightarrow> pm) in
        case wait (pm_poll_interval pm) w1 of
          (True, w2) \<Rightarrow> (Inr (), w2)
        | (False, w2) \<Rightarrow> pm_start n token wait pm' w2))"

section \<open>What a round does\<close>

text \<open>
  The monitor over the swap database and a node: the repository works on the first component of
  the state, the node on the second.
\<close>

definition lift_swap_repository :: "'d swap_repository \<Rightarrow> ('d \<times> 'n) swap_repository" where
  "lift_swap_repository r =
     \<lparr>add_swap = (\<lambda>s. on_fst (add_swap r s)),
      get_swap_by_hash = (\<lambda>h. on_fst (get_swap_by_hash r h)),
      get_swap_by_address = (\<lambda>a. on_fst (get_swap_by_address r a)),
      get_swap_by_payment_request = (\<lambda>p. on_fst (get_swap_by_payment_request r p)),
      get_swap_locks = (\<lambda>h. on_fst (get_swap_locks r h)),
      get_swap_payment_attempts = (\<lambda>h. on_fst (get_swap_payment_attempts r h)),
      get_swaps = (\<lambda>as. on_fst (get_swaps r as)),
      get_swaps_with_paid_outpoints = (\<lambda>as. on_fst (get_swaps_with_paid_outpoints r as)),
      get_unhandled_payment_attempts = on_fst (get_unhandled_payment_attempts r),
      lock_add_payment_attempt = (\<lambda>a. on_fst (lock_add_payment_attempt r a)),
      lock_swap_refund = (\<lambda>h i. on_fst (lock_swap_refund r h i)),
      unlock_add_payment_result = (\<lambda>h l p. on_fst (unlock_add_payment_result r h l p)),
      unlock_swap_refund = (\<lambda>h i. on_fst (unlock_swap_refund r h i))\<rparr>"

definition lift_lightning :: "'n lightning_client \<Rightarrow> ('d \<times> 'n) lightning_client" where
  "lift_lightning c =
     \<lparr>get_payment_state = (\<lambda>h l. on_snd (get_payment_state c h l)),
      get_preimage = (\<lambda>h. on_snd (get_preimage c h)),
      has_pending_or_complete_payment = (\<lambda>h. on_snd (has_pending_or_complete_payment c h)),
      pay = (\<lambda>r. on_snd (pay c r))\<rparr>"

definition pg_payment_monitor ::
    "swap_repo_cfg \<Rightarrow> 'n lightning_client \<Rightarrow> payment_attempt list \<Rightarrow> nat \<Rightarrow> (swap_db pg \<times> 'n) payment_monitor" where
  "pg_payment_monitor cfg lc as d =
     \<lparr>pm_lightning_client = lift_lightning lc, pm_payment_attempts = as, pm_poll_interval = d,
      pm_swap_repository = lift_swap_repository (pg_swap_repository cfg)\<rparr>"

lemma lift_swap_locks:
  assumes "swap_locks r locks"
  shows "swap_locks (lift_swap_repository r) (\<lambda>w :: 'd \<times> 'n. locks (fst w))"
proof -
  have ops: "lock_add_payment_attempt (lift_swap_repository r) a = on_fst (lock_add_payment_attempt r a)"
    "lock_swap_refund (lift_swap_repository r) h i = on_fst (lock_swap_refund r h i)"
    "unlock_add_payment_result (lift_swap_repository r) h l p = on_fst (unlock_add_payment_result r h l p)"
    "unlock_swap_refund (lift_swap_repository r) h i = on_fst (unlock_swap_refund r h i)" for a h i l p
    by (simp_all add: lift_swap_repository_def)
  note laws = swap_locks.pay_lock_ok [OF assms] swap_locks.refund_lock_ok [OF assms]
    swap_locks.pay_unlock_ok [OF assms] swap_locks.refund_unlock_ok [OF assms]
    swap_locks.pay_lock_err [OF assms] swap_locks.refund_lock_err [OF assms]
    swap_locks.pay_unlock_err [OF assms] swap_locks.refund_unlock_err [OF assms]
  show ?thesis
    by (unfold_locales; unfold ops on_fst_eq; elim conjE; drule laws; assumption)
qed

interpretation lifted_locks:
  swap_locks "lift_swap_repository (pg_swap_repository cfg)" "\<lambda>w. locks_of (pg_data (fst w))"
  by (rule lift_swap_locks) (rule pg_locks.swap_locks_axioms)

definition settled :: "'n lightning_client \<Rightarrow> 'n \<Rightarrow> payment_attempt \<Rightarrow> bool" where
  "settled lc n a \<longleftrightarrow> fst (get_payment_state lc (pa_payment_hash a) (pa_label a) n) \<noteq> Inr StatePending"

text \<open>The locks that a round leaves, and the attempts that have a result after it.\<close>

definition locks_left ::
    "'n lightning_client \<Rightarrow> 'n \<Rightarrow> payment_attempt list \<Rightarrow> (sha256 \<Rightarrow> swap_lock list) \<Rightarrow> sha256 \<Rightarrow> swap_lock list" where
  "locks_left lc n as ls h =
     filter (\<lambda>k. \<not> list_ex (\<lambda>a. pa_payment_hash a = h \<and> payment_attempt_label k = Some (pa_label a) \<and>
       settled lc n a) as) (ls h)"

definition handled_in :: "label \<Rightarrow> swap_db \<Rightarrow> bool" where
  "handled_in l d \<longleftrightarrow> list_all (\<lambda>r. ar_label r = l \<longrightarrow> ar_success r \<noteq> None) (db_attempts d)"

lemma pay_unlock_attempts:
  "\<exists>f. db_attempts (pay_unlock_effect h l res d) = map (\<lambda>r. if ar_label r = l then f r else r) (db_attempts d) \<and>
     (\<forall>r. ar_label (f r) = ar_label r \<and> ar_success (f r) \<noteq> None)"
proof (cases res)
  case (PaymentSuccess p)
  then show ?thesis
    by (intro exI [of _ "\<lambda>r. r\<lparr>ar_success := Some True\<rparr>"])
       (simp add: pay_unlock_effect_def store_effect_def update_attempts_def update_swaps_def delete_locks_def)
next
  case (PaymentFailure e)
  then show ?thesis
    by (intro exI [of _ "\<lambda>r. r\<lparr>ar_success := Some False, ar_error := Some e\<rparr>"])
       (simp add: pay_unlock_effect_def store_effect_def update_attempts_def delete_locks_def)
qed

lemma handled_in_map:
  assumes "\<forall>r. ar_label (f r) = ar_label r \<and> ar_success (f r) \<noteq> None"
    and "db_attempts d' = map (\<lambda>r. if ar_label r = l then f r else r) (db_attempts d)"
  shows "handled_in l d'" and "handled_in l' d \<Longrightarrow> handled_in l' d'"
  using assms by (auto simp: handled_in_def list_all_iff)

lemma handled_in_unlock:
  "handled_in l (pay_unlock_effect h l res d)"
  "handled_in l' d \<Longrightarrow> handled_in l' (pay_unlock_effect h l res d)"
proof -
  obtain f where "db_attempts (pay_unlock_effect h l res d) = map (\<lambda>r. if ar_label r = l then f r else r) (db_attempts d)"
    "\<forall>r. ar_label (f r) = ar_label r \<and> ar_success (f r) \<noteq> None"
    using pay_unlock_attempts [of h l res d] by (elim exE conjE)
  note map = handled_in_map [OF this(2,1)]
  show "handled_in l (pay_unlock_effect h l res d)" by (rule map)
  show "handled_in l' d \<Longrightarrow> handled_in l' (pay_unlock_effect h l res d)" by (rule map)
qed

lemma locks_left_Nil [simp]: "locks_left lc n [] ls = ls"
  by (simp add: locks_left_def fun_eq_iff)

lemma locks_left_pending: "\<not> settled lc n a \<Longrightarrow> locks_left lc n (a # as) ls = locks_left lc n as ls"
  by (simp add: locks_left_def fun_eq_iff)

lemma locks_left_settled:
  "settled lc n a \<Longrightarrow> locks_left lc n (a # as) ls =
     locks_left lc n as (ls(pa_payment_hash a :=
       filter (\<lambda>k. payment_attempt_label k \<noteq> Some (pa_label a)) (ls (pa_payment_hash a))))"
proof (rule ext)
  fix h
  assume a: "settled lc n a"
  show "locks_left lc n (a # as) ls h = locks_left lc n as (ls(pa_payment_hash a :=
       filter (\<lambda>k. payment_attempt_label k \<noteq> Some (pa_label a)) (ls (pa_payment_hash a)))) h"
  proof (cases "h = pa_payment_hash a")
    case True
    show ?thesis
      unfolding locks_left_def True fun_upd_same filter_filter using a by (intro filter_cong) auto
  next
    case False
    then show ?thesis by (auto simp: locks_left_def)
  qed
qed

lemma record_result_Inr:
  "record_result (pg_payment_monitor cfg lc as0 d) a res (s, n) = (Inr u, w') \<Longrightarrow>
     snd w' = n \<and> pg_data (fst w') = pay_unlock_effect (pa_payment_hash a) (pa_label a) res (pg_data s)"
  by (auto simp: record_result_def map_err_Inr_iff pg_payment_monitor_def lift_swap_repository_def
      pg_swap_repository_def on_fst_eq dest!: pg_unlock_pay_Inr)

lemma check_payments_step:
  assumes run: "do_check_payments (pg_payment_monitor cfg lc as0 d) (a # as) (s, n) = (Inr pending, w')"
    and stable: "\<And>h l. snd (get_payment_state lc h l n) = n"
  shows "(\<not> settled lc n a \<and> (\<exists>rest. pending = a # rest \<and>
       do_check_payments (pg_payment_monitor cfg lc as0 d) as (s, n) = (Inr rest, w'))) \<or>
     (settled lc n a \<and> (\<exists>s1 res. pg_data s1 = pay_unlock_effect (pa_payment_hash a) (pa_label a) res (pg_data s) \<and>
       do_check_payments (pg_payment_monitor cfg lc as0 d) as (s1, n) = (Inr pending, w')))"
proof -
  define m where "m = pg_payment_monitor cfg lc as0 d"
  have lc: "pm_lightning_client m = lift_lightning lc" by (simp add: m_def pg_payment_monitor_def)
  obtain r where r: "get_payment_state lc (pa_payment_hash a) (pa_label a) n = (r, n)"
    using stable by (metis prod.collapse)
  note rec = record_result_Inr [of cfg lc as0 d, folded m_def]
  from run r have "case r of Inl PaymentNotFound \<Rightarrow>
      seq (record_result m a (PaymentFailure ''cancelled'')) (\<lambda>_. do_check_payments m as) (s, n) = (Inr pending, w')
    | Inl e \<Rightarrow> False
    | Inr (StateSuccess p) \<Rightarrow> seq (record_result m a (PaymentSuccess p)) (\<lambda>_. do_check_payments m as) (s, n) = (Inr pending, w')
    | Inr (StateFailure e) \<Rightarrow> seq (record_result m a (PaymentFailure e)) (\<lambda>_. do_check_payments m as) (s, n) = (Inr pending, w')
    | Inr StatePending \<Rightarrow> seq (do_check_payments m as) (\<lambda>pending. ret (a # pending)) (s, n) = (Inr pending, w')"
    unfolding m_def [symmetric]
    by (simp add: attempt_def lc lift_lightning_def on_snd_def split: sum.splits payment_state.splits lightning_error.splits)
  then show ?thesis
    unfolding m_def [symmetric] settled_def r fst_conv
    by (fastforce simp: seq_Inr_iff dest: rec split: sum.splits payment_state.splits lightning_error.splits)
qed

lemma check_payments_round:
  assumes "do_check_payments (pg_payment_monitor cfg lc as0 d) as (s, n) = (Inr pending, (s', n'))"
    and "\<And>h l. snd (get_payment_state lc h l n) = n"
  shows "n' = n \<and> pending = filter (\<lambda>a. \<not> settled lc n a) as \<and>
    locks_of (pg_data s') = locks_left lc n as (locks_of (pg_data s)) \<and>
    list_all (\<lambda>a. settled lc n a \<longrightarrow> handled_in (pa_label a) (pg_data s')) as \<and>
    (\<forall>l. handled_in l (pg_data s) \<longrightarrow> handled_in l (pg_data s'))"
  using assms
proof (induction as arbitrary: s pending)
  case (Cons a as)
  from check_payments_step [OF Cons.prems(1,2)] show ?case
  proof (elim disjE conjE exE)
    fix rest assume a: "\<not> settled lc n a" "pending = a # rest"
      and "do_check_payments (pg_payment_monitor cfg lc as0 d) as (s, n) = (Inr rest, (s', n'))"
    from Cons.IH [OF this(3) Cons.prems(2)] a show ?thesis by (simp add: locks_left_pending)
  next
    fix s1 res assume a: "settled lc n a"
      and s1: "pg_data s1 = pay_unlock_effect (pa_payment_hash a) (pa_label a) res (pg_data s)"
      and "do_check_payments (pg_payment_monitor cfg lc as0 d) as (s1, n) = (Inr pending, (s', n'))"
    from Cons.IH [OF this(3) Cons.prems(2)] a show ?thesis
      by (simp add: s1 locks_left_settled locks_of_effects handled_in_unlock fun_upd_def)
  qed
qed simp

text \<open>A round of the historical payment monitor that completes keeps exactly the attempts the node
  reports as pending, in their order; every other attempt has its result recorded and its own lock
  released, and no other lock is touched.\<close>

lemma check_payments_settles:
  assumes "do_check_payments (pg_payment_monitor cfg lc as0 d) as (s, n) = (Inr pending, (s', n'))"
    and "\<And>h l. snd (get_payment_state lc h l n) = n"
  shows "n' = n \<and> pending = filter (\<lambda>a. \<not> settled lc n a) as \<and>
    locks_of (pg_data s') = locks_left lc n as (locks_of (pg_data s)) \<and>
    list_all (\<lambda>a. settled lc n a \<longrightarrow> handled_in (pa_label a) (pg_data s')) as"
  using check_payments_round [OF assms] by blast

definition ex_lightning :: "unit lightning_client" where
  "ex_lightning =
     \<lparr>get_payment_state = (\<lambda>h l. if l = ''77-6'' then ret (StateSuccess 9) else fail PaymentNotFound),
      get_preimage = (\<lambda>h. ret None), has_pending_or_complete_payment = (\<lambda>h. ret False),
      pay = (\<lambda>r. fail ConnectionFailed)\<rparr>"

section \<open>The loop ends\<close>

text \<open>
  The node answers every question, and answering does not change it; time does, by \<open>tick\<close>, while the
  monitor sleeps. A round over a database on which no statement fails completes.
\<close>

definition answering :: "'n lightning_client \<Rightarrow> 'n \<Rightarrow> bool" where
  "answering lc n \<longleftrightarrow> (\<forall>h l. \<exists>r. get_payment_state lc h l n = (r, n) \<and> (isl r \<longrightarrow> r = Inl PaymentNotFound))"

definition all_swaps :: "payment_attempt list \<Rightarrow> swap_db pg \<Rightarrow> bool" where
  "all_swaps as s \<longleftrightarrow> pg_faults s = [] \<and> list_all (\<lambda>a. has_swap (pg_data s) (pa_payment_hash a)) as"

lemma unlock_runs:
  assumes "pg_faults s = []" and "has_swap (pg_data s) h"
  shows "\<exists>s'. pg_unlock_add_payment_result h l res s = (Inr (), s') \<and> pg_faults s' = [] \<and>
    (\<forall>g. has_swap (pg_data s') g = has_swap (pg_data s) g)"
  using assms
  by (cases res) (auto simp: pg_unlock_add_payment_result_def transact_def Let_def lock_swap_for_update_def
      has_swap_def seq_def map_err_def exec_no_fault query_no_fault store_result_def delete_locks_def
      update_swaps_def update_attempts_def image_iff bex_Un)

lemma check_payments_runs:
  assumes "answering lc n" and "all_swaps as s" and "all_swaps bs s"
  shows "\<exists>pending s'. do_check_payments (pg_payment_monitor cfg lc as0 d) as (s, n) = (Inr pending, (s', n)) \<and>
    all_swaps bs s'"
  using assms(2,3)
proof (induction as arbitrary: s)
  case (Cons a as)
  define m where "m = pg_payment_monitor cfg lc as0 d"
  have m: "pm_lightning_client m = lift_lightning lc"
    "pm_swap_repository m = lift_swap_repository (pg_swap_repository cfg)"
    by (simp_all add: m_def pg_payment_monitor_def)
  obtain r where r: "get_payment_state lc (pa_payment_hash a) (pa_label a) n = (r, n)"
      "isl r \<longrightarrow> r = Inl PaymentNotFound"
    using assms(1) unfolding answering_def by blast
  have recorded: "\<exists>s1. record_result m a res (s, n) = (Inr (), (s1, n)) \<and> all_swaps as s1 \<and> all_swaps bs s1" for res
  proof -
    from Cons.prems unlock_runs [of s "pa_payment_hash a" "pa_label a" res] obtain s1 where
      "pg_unlock_add_payment_result (pa_payment_hash a) (pa_label a) res s = (Inr (), s1)"
      "pg_faults s1 = []" "\<forall>g. has_swap (pg_data s1) g = has_swap (pg_data s) g"
      by (auto simp: all_swaps_def)
    with Cons.prems show ?thesis
      by (intro exI [of _ s1])
         (simp add: record_result_def m lift_swap_repository_def pg_swap_repository_def on_fst_def map_err_def
           all_swaps_def)
  qed
  have settled: "\<exists>pending s'. seq (record_result m a res) (\<lambda>_. do_check_payments m as) (s, n) = (Inr pending, (s', n)) \<and>
      all_swaps bs s'" for res
    using recorded [of res] Cons.IH by (fastforce simp: m_def [symmetric] seq_def)
  have pending: "\<exists>pending s'. seq (do_check_payments m as) (\<lambda>pending. ret (a # pending)) (s, n) = (Inr pending, (s', n)) \<and>
      all_swaps bs s'"
    using Cons.IH [of s] Cons.prems by (fastforce simp: m_def [symmetric] seq_def all_swaps_def)
  show ?case
    unfolding m_def [symmetric]
    using r settled pending
    by (cases r) (auto simp: attempt_def m lift_lightning_def on_snd_def split: payment_state.split)
qed (auto simp: all_swaps_def)

lemma monitor_update [simp]:
  "pg_payment_monitor cfg lc as d\<lparr>pm_payment_attempts := bs\<rparr> = pg_payment_monitor cfg lc bs d"
  "pm_payment_attempts (pg_payment_monitor cfg lc as d) = as" "pm_poll_interval (pg_payment_monitor cfg lc as d) = d"
  by (simp_all add: pg_payment_monitor_def)

lemma locks_left_gone:
  "settled lc n a \<Longrightarrow> a \<in> set as \<Longrightarrow> k \<in> set (locks_left lc n as ls (pa_payment_hash a)) \<Longrightarrow>
     payment_attempt_label k \<noteq> Some (pa_label a)"
  by (auto simp: locks_left_def list_ex_iff)

lemma locks_left_subset: "set (locks_left lc n as ls h) \<subseteq> set (ls h)"
  by (auto simp: locks_left_def)

definition released :: "payment_attempt \<Rightarrow> swap_db \<Rightarrow> bool" where
  "released a d \<longleftrightarrow> handled_in (pa_label a) d \<and>
     list_all (\<lambda>k. payment_attempt_label k \<noteq> Some (pa_label a)) (locks_of d (pa_payment_hash a))"

definition undisturbed :: "('n \<Rightarrow> 'n) \<Rightarrow> (nat \<Rightarrow> 's \<times> 'n \<Rightarrow> bool \<times> 's \<times> 'n) \<Rightarrow> bool" where
  "undisturbed tick wait \<longleftrightarrow> (\<forall>d s n. wait d (s, n) = (False, (s, tick n)))"

text \<open>When the node answers and has settled every attempt by the round \<open>K\<close>, no statement fails and the
  token is not cancelled, the loop returns within \<open>K + 2\<close> rounds, every attempt has its result recorded,
  and its lock is gone.\<close>

lemma pm_start_ends:
  assumes wait: "undisturbed tick wait"
    and "\<forall>k. answering lc ((tick ^^ k) n)"
    and "\<forall>k\<ge>K. list_all (settled lc ((tick ^^ k) n)) as"
    and "all_swaps as s"
  shows "\<exists>s' n'. pm_start (K + 2) (\<lambda>_. False) wait (pg_payment_monitor cfg lc as d) (s, n) = (Inr (), (s', n')) \<and>
    list_all (\<lambda>a. released a (pg_data s')) as \<and>
    (\<forall>a. released a (pg_data s) \<longrightarrow> released a (pg_data s'))"
  using assms(2-)
proof (induction K arbitrary: as s n)
  case 0
  then obtain pending s1 where run: "do_check_payments (pg_payment_monitor cfg lc as d) as (s, n) = (Inr pending, (s1, n))"
    using check_payments_runs [of lc n as s as cfg as d] by (metis funpow_0)
  have st: "\<And>h l. snd (get_payment_state lc h l n) = n" using 0(1) [rule_format, of 0]
    by (metis answering_def funpow_0 snd_conv)
  note rd = check_payments_round [OF run st]
  have all: "list_all (settled lc n) as" using 0(2) by (metis funpow_0 le0)
  then have p: "pending = []" using rd by (auto simp: list_all_iff)
  show ?case
  proof (cases "as = []")
    case True
    then show ?thesis by simp
  next
    case False
    have "list_all (\<lambda>a. released a (pg_data s1)) as"
      using rd all locks_left_gone [of lc n _ as] by (auto simp: released_def list_all_iff)
    moreover have "\<forall>a. released a (pg_data s) \<longrightarrow> released a (pg_data s1)"
      using rd locks_left_subset [of lc n as] by (fastforce simp: released_def list_all_iff)
    ultimately show ?thesis
      using False run p wait [unfolded undisturbed_def]
      by (simp add: numeral_2_eq_2)
  qed
next
  case (Suc K)
  show ?case
  proof (cases "as = []")
    case True
    then show ?thesis by simp
  next
    case False
    from Suc.prems obtain pending s1 where run:
      "do_check_payments (pg_payment_monitor cfg lc as d) as (s, n) = (Inr pending, (s1, n))"
      "all_swaps as s1"
      using check_payments_runs [of lc n as s as cfg as d] by (metis funpow_0)
    have st: "\<And>h l. snd (get_payment_state lc h l n) = n" using Suc.prems(1) [rule_format, of 0]
      by (metis answering_def funpow_0 snd_conv)
    note rd = check_payments_round [OF run(1) st]
    have shift: "(tick ^^ k) (tick n) = (tick ^^ Suc k) n" for k by (metis funpow_Suc_right o_apply)
    have "\<forall>k. answering lc ((tick ^^ k) (tick n))" using Suc.prems(1) shift by metis
    moreover have "\<forall>k\<ge>K. list_all (settled lc ((tick ^^ k) (tick n))) pending"
      using Suc.prems(2) rd shift by (auto simp: list_all_iff simp del: funpow.simps)
    moreover have "all_swaps pending s1" using run(2) rd by (auto simp: all_swaps_def list_all_iff)
    ultimately obtain s' n' where fin:
      "pm_start (K + 2) (\<lambda>_. False) wait (pg_payment_monitor cfg lc pending d) (s1, tick n) = (Inr (), (s', n'))"
      "list_all (\<lambda>a. released a (pg_data s')) pending"
      "\<forall>a. released a (pg_data s1) \<longrightarrow> released a (pg_data s')"
      using Suc.IH [of "tick n" pending s1] by blast
    have now: "\<forall>a. released a (pg_data s) \<longrightarrow> released a (pg_data s1)"
      "\<forall>a\<in>set as. settled lc n a \<longrightarrow> released a (pg_data s1)"
      using rd locks_left_subset [of lc n as] locks_left_gone [of lc n _ as]
      by (fastforce simp: released_def list_all_iff)+
    have "pm_start (Suc K + 2) (\<lambda>_. False) wait (pg_payment_monitor cfg lc as d) (s, n) = (Inr (), (s', n'))"
      using False run(1) fin(1) wait [unfolded undisturbed_def] by simp
    moreover have "list_all (\<lambda>a. released a (pg_data s')) as"
      using fin(2,3) now(2) rd by (auto simp: list_all_iff)
    ultimately show ?thesis using fin(3) now(1) by blast
  qed
qed

definition ex_slow_node :: "nat lightning_client" where
  "ex_slow_node =
     \<lparr>get_payment_state = (\<lambda>h l n. (Inr (if n < 1 then StatePending else StateSuccess 9), n)),
      get_preimage = (\<lambda>h. ret None), has_pending_or_complete_payment = (\<lambda>h. ret False),
      pay = (\<lambda>r. fail ConnectionFailed)\<rparr>"

end
