(* ===== verification/Preimage_Monitor.thy ===== *)
theory Preimage_Monitor
  imports Payment_Monitor
begin

text \<open>
  The preimage monitor (\<open>claim/preimage_monitor.rs\<close>): for every swap with an unspent output and no
  preimage it asks the lightning node for the preimage, and stores the one it gets.

  The queries run concurrently and are handled in the order in which they complete; \<open>qm_order\<close>
  lists the keys of a map of swaps in the order of the \<open>HashMap\<close> and of that completion.
\<close>

datatype preimage_monitor_error =
    PreimageChain chain_repository_error
  | PreimageSwaps get_swaps_error

record 'w preimage_monitor =
  qm_chain_repository :: "'w chain_repository"
  qm_lightning_client :: "'w lightning_client"
  qm_poll_interval :: nat
  qm_swap_repository :: "'w swap_repository"
  qm_order :: "(address \<rightharpoonup> swap_state) \<Rightarrow> address list"

text \<open>One query with the handling of its result; every error is logged and skipped.\<close>

definition query_preimage :: "'w preimage_monitor \<Rightarrow> sha256 \<Rightarrow> ('w, preimage_monitor_error, unit) op" where
  "query_preimage qm h =
     attempt (get_preimage (qm_lightning_client qm) h) (\<lambda>r.
       case r of
         Inr (Some p) \<Rightarrow>
           attempt (unlock_add_payment_result (qm_swap_repository qm) h (pi_label p)
             (PaymentSuccess (pi_preimage p))) (\<lambda>_. ret ())
       | _ \<Rightarrow> ret ())"

definition missing_preimages :: "address list \<Rightarrow> (address \<rightharpoonup> swap_state) \<Rightarrow> sha256 list" where
  "missing_preimages as swaps =
     List.map_filter (\<lambda>a. case swaps a of
       Some s \<Rightarrow> if ss_preimage s = None then Some (swap_hash (swap_public (ss_swap s))) else None
     | None \<Rightarrow> None) as"

definition do_query_preimages :: "'w preimage_monitor \<Rightarrow> ('w, preimage_monitor_error, unit) op" where
  "do_query_preimages qm =
     seq (map_err PreimageChain (get_utxos (qm_chain_repository qm))) (\<lambda>utxos.
     let addresses = map au_address utxos in
     seq (map_err PreimageSwaps (get_swaps (qm_swap_repository qm) addresses)) (\<lambda>swaps.
      for_each (query_preimage qm) (missing_preimages (qm_order qm swaps) swaps)))"

fun qm_start ::
    "nat \<Rightarrow> ('w \<Rightarrow> bool) \<Rightarrow> (nat \<Rightarrow> 'w \<Rightarrow> bool \<times> 'w) \<Rightarrow> 'w preimage_monitor \<Rightarrow>
     ('w, preimage_monitor_error exn, unit) op" where
  "qm_start 0 token wait qm w = (Inl Diverged, w)"
| "qm_start (Suc n) token wait qm w =
     (if token w then (Inr (), w)
      else (case do_query_preimages qm w of (_, w1) \<Rightarrow>
        case wait (qm_poll_interval qm) w1 of
          (True, w2) \<Rightarrow> (Inr (), w2)
        | (False, w2) \<Rightarrow> qm_start n token wait qm w2))"

section \<open>What a round stores\<close>

definition pg_preimage_monitor ::
    "swap_repo_cfg \<Rightarrow> (swap_db pg \<times> 'n) chain_repository \<Rightarrow> 'n lightning_client \<Rightarrow>
     ((address \<rightharpoonup> swap_state) \<Rightarrow> address list) \<Rightarrow> nat \<Rightarrow> (swap_db pg \<times> 'n) preimage_monitor" where
  "pg_preimage_monitor cfg cr lc order d =
     \<lparr>qm_chain_repository = cr, qm_lightning_client = lift_lightning lc, qm_poll_interval = d,
      qm_swap_repository = lift_swap_repository (pg_swap_repository cfg), qm_order = order\<rparr>"

definition has_preimage :: "sha256 \<Rightarrow> preimage \<Rightarrow> swap_db \<Rightarrow> bool" where
  "has_preimage h p d \<longleftrightarrow>
     list_all (\<lambda>r. sr_payment_hash r = of_b32 h \<longrightarrow> sr_preimage r = Some (of_b32 p)) (db_swaps d)"

lemma pg_unlock_no_fault:
  assumes "pg_faults s = []"
  shows "pg_unlock_add_payment_result h l res s =
    (if has_swap (pg_data s) h then (Inr (), s\<lparr>pg_data := pay_unlock_effect h l res (pg_data s)\<rparr>)
     else (Inl SwapNotFound, s))"
  using assms
  by (cases res)
     (simp_all add: pg_unlock_add_payment_result_def transact_def Let_def lock_swap_for_update_def seq_def
       map_err_def sql_run has_swap_def store_result_def pay_unlock_effect_def store_effect_def)

lemma swaps_of_unlock_success:
  "db_swaps (pay_unlock_effect h l (PaymentSuccess p) d) =
     map (\<lambda>r. if sr_payment_hash r = of_b32 h then r\<lparr>sr_preimage := Some (of_b32 p)\<rparr> else r) (db_swaps d)"
  by (simp add: pay_unlock_effect_def store_effect_def update_attempts_def update_swaps_def delete_locks_def)

lemma has_preimage_unlock:
  "has_preimage h p (pay_unlock_effect h l (PaymentSuccess p) d)"
  "has_preimage h p d \<Longrightarrow> h' \<noteq> h \<or> p' = p \<Longrightarrow> has_preimage h p (pay_unlock_effect h' l (PaymentSuccess p') d)"
  by (auto simp: has_preimage_def swaps_of_unlock_success list_all_iff)

lemma has_swap_unlock [simp]:
  "has_swap (pay_unlock_effect h l (PaymentSuccess p) d) h' \<longleftrightarrow> has_swap d h'"
proof -
  define g where "g = (\<lambda>r :: swap_row. if sr_payment_hash r = of_b32 h then r\<lparr>sr_preimage := Some (of_b32 p)\<rparr> else r)"
  have "sr_payment_hash (g r) = sr_payment_hash r" for r by (simp add: g_def)
  then show ?thesis unfolding has_swap_def swaps_of_unlock_success g_def [symmetric] by simp
qed

lemma of_b32_of_to_b32:
  assumes "to_b32 bs = Some w"
  shows "of_b32 w = bs"
proof -
  have len: "length bs = 32" using assms by (simp add: to_b32_def split: if_splits)
  have "range of_b32 = {bs. length bs = 32}"
  proof (rule card_subset_eq)
    show "finite {bs :: bytes. length bs = 32}"
      using finite_lists_length_eq [of "UNIV :: u8 set" 32] by simp
    show "range of_b32 \<subseteq> {bs. length bs = 32}" by (auto simp: of_b32_def)
    have "inj of_b32" by (simp add: inj_def)
    then show "card (range of_b32) = card {bs :: bytes. length bs = 32}"
      using card_lists_length_eq [of "UNIV :: u8 set" 32] by (simp add: card_image card_word)
  qed
  then obtain v where "bs = of_b32 v" using len by (metis (mono_tags) mem_Collect_eq rangeE)
  with assms show ?thesis by simp
qed

lemma map_swap_state_hash:
  "map_swap_state cfg r = Inr st \<Longrightarrow> sr_payment_hash r = of_b32 (swap_hash (swap_public (ss_swap st)))"
  by (auto simp: map_swap_state_def bind_res_Inr of_b32_of_to_b32)

lemma collect_swaps_hash:
  "collect_swaps cfg rs m = Inr m' \<Longrightarrow> m' a = Some st \<Longrightarrow> m a = Some st \<or>
     of_b32 (swap_hash (swap_public (ss_swap st))) \<in> sr_payment_hash ` set rs"
proof (induction cfg rs m rule: collect_swaps.induct)
  case (2 cfg r rs m)
  from 2(2) obtain x where x: "map_swap_state cfg r = Inr x"
    and rest: "collect_swaps cfg rs (m(sp_address (swap_public (ss_swap x)) \<mapsto> x)) = Inr m'"
    by (auto simp: bind_res_Inr)
  from 2(1) [OF rest 2(3)] map_swap_state_hash [OF x] show ?case by (auto split: if_splits)
qed simp

lemma get_swaps_has_swap:
  assumes "pg_get_swaps cfg as s = (Inr swaps, s')" and "swaps a = Some st"
  shows "has_swap (pg_data s) (swap_hash (swap_public (ss_swap st)))"
proof -
  obtain rows s1 where "query (\<lambda>d. filter (\<lambda>r. sr_address r \<in> set as) (db_swaps d)) s = (Inr rows, s1)"
    and c: "collect_swaps cfg rows Map.empty = Inr swaps"
    using assms(1) by (auto simp: pg_get_swaps_def run_Inr)
  then have "set rows \<subseteq> set (db_swaps (pg_data s))" by (auto dest!: query_Inr)
  with collect_swaps_hash [OF c assms(2)] show ?thesis by (auto simp: has_swap_def)
qed

text \<open>One query on a database that answers and a node that is not changed by questions.\<close>

lemma query_preimage_run:
  assumes "pg_faults s = []" and "\<And>h. snd (get_preimage lc h n) = n"
  shows "\<exists>s'. query_preimage (pg_preimage_monitor cfg cr lc order d) h (s, n) = (Inr (), (s', n)) \<and>
    pg_faults s' = [] \<and>
    (case fst (get_preimage lc h n) of
       Inr (Some p) \<Rightarrow> pg_data s' = (if has_swap (pg_data s) h
         then pay_unlock_effect h (pi_label p) (PaymentSuccess (pi_preimage p)) (pg_data s) else pg_data s)
     | _ \<Rightarrow> s' = s)"
proof -
  obtain r where r: "get_preimage lc h n = (r, n)" using assms(2) by (metis prod.collapse)
  show ?thesis
    using assms(1)
    by (cases r)
       (auto simp: query_preimage_def pg_preimage_monitor_def attempt_def lift_lightning_def on_snd_def r
         lift_swap_repository_def on_fst_def pg_swap_repository_def pg_unlock_no_fault split: option.split)
qed

lemma query_all_run:
  assumes "pg_faults s = []" and "\<And>h. snd (get_preimage lc h n) = n"
    and "fst (get_preimage lc h n) = Inr (Some p)"
  shows "\<exists>s'. for_each (query_preimage (pg_preimage_monitor cfg cr lc order d)) hs (s, n) = (Inr (), (s', n)) \<and>
    (has_preimage h (pi_preimage p) (pg_data s) \<or> h \<in> set hs \<and> has_swap (pg_data s) h \<longrightarrow>
       has_preimage h (pi_preimage p) (pg_data s'))"
  using assms(1)
proof (induction hs arbitrary: s)
  case (Cons g hs)
  from query_preimage_run [OF Cons.prems assms(2)] obtain s1 where
    s1: "query_preimage (pg_preimage_monitor cfg cr lc order d) g (s, n) = (Inr (), (s1, n))" "pg_faults s1 = []"
    and eff: "case fst (get_preimage lc g n) of
       Inr (Some q) \<Rightarrow> pg_data s1 = (if has_swap (pg_data s) g
         then pay_unlock_effect g (pi_label q) (PaymentSuccess (pi_preimage q)) (pg_data s) else pg_data s)
     | _ \<Rightarrow> s1 = s" by blast
  have kept: "has_swap (pg_data s1) h = has_swap (pg_data s) h"
    using eff by (auto split: sum.splits option.splits if_splits)
  have old: "has_preimage h (pi_preimage p) (pg_data s) \<Longrightarrow> has_preimage h (pi_preimage p) (pg_data s1)"
    using eff assms(3) by (cases "g = h") (auto simp: has_preimage_unlock split: sum.splits option.splits if_splits)
  have new: "g = h \<Longrightarrow> has_swap (pg_data s) h \<Longrightarrow> has_preimage h (pi_preimage p) (pg_data s1)"
    using eff assms(3) by (simp add: has_preimage_unlock)
  from Cons.IH [OF s1(2)] s1(1) kept old new show ?case by auto
qed simp

lemma missing_preimages_iff:
  "h \<in> set (missing_preimages as swaps) \<longleftrightarrow>
     (\<exists>a\<in>set as. \<exists>st. swaps a = Some st \<and> ss_preimage st = None \<and> h = swap_hash (swap_public (ss_swap st)))"
  by (induction as) (auto simp: missing_preimages_def List.map_filter_simps split: option.splits if_splits)

text \<open>C25: after a round of the preimage monitor on a database that answers, every swap that has an
  unspent output and no preimage, and whose preimage the node knows, has that preimage stored: a
  result that was lost with a crash or a failed statement is recovered.\<close>

theorem missed_preimages_stored:
  assumes "pg_faults s = []" and "get_utxos cr (s, n) = (Inr utxos, (s, n))"
    and "pg_get_swaps cfg (map au_address utxos) s = (Inr swaps, s)"
    and "set (order swaps) = dom swaps" and "\<And>h. snd (get_preimage lc h n) = n"
    and "swaps a = Some st" and "ss_preimage st = None"
    and "fst (get_preimage lc (swap_hash (swap_public (ss_swap st))) n) = Inr (Some p)"
  shows "\<exists>s'. do_query_preimages (pg_preimage_monitor cfg cr lc order d) (s, n) = (Inr (), (s', n)) \<and>
    has_preimage (swap_hash (swap_public (ss_swap st))) (pi_preimage p) (pg_data s')"
proof -
  let ?h = "swap_hash (swap_public (ss_swap st))" and ?hs = "missing_preimages (order swaps) swaps"
  have "?h \<in> set ?hs" unfolding missing_preimages_iff using assms(4,6,7) by auto
  with query_all_run [OF assms(1,5,8), of cfg cr order d ?hs] get_swaps_has_swap [OF assms(3,6)] obtain s' where
    "for_each (query_preimage (pg_preimage_monitor cfg cr lc order d)) ?hs (s, n) = (Inr (), (s', n))"
    "has_preimage ?h (pi_preimage p) (pg_data s')" by blast
  then show ?thesis
    using assms(2,3)
    by (simp add: do_query_preimages_def Let_def pg_preimage_monitor_def lift_swap_repository_def
        on_fst_def pg_swap_repository_def)
qed

definition ex_chain_reader :: "'w chain_repository" where
  "ex_chain_reader =
     \<lparr>add_block = (\<lambda>b os is. ret []), add_watch_address = (\<lambda>a. ret ()),
      filter_watch_addresses = (\<lambda>as. ret as), get_block_headers = ret [], get_tip = ret None,
      get_txos_for_address = (\<lambda>a. ret []), get_txos_for_address_with_spends = (\<lambda>a. ret []),
      get_utxos = ret [\<lparr>au_address = ''a'', au_utxo = cu_utxo ex_claimable\<rparr>], undo_block = (\<lambda>h. ret ())\<rparr>"

definition ex_paying_node :: "unit lightning_client" where
  "ex_paying_node = ex_lightning
     \<lparr>get_preimage := (\<lambda>h. ret (if h = 77 then Some \<lparr>pi_preimage = 9, pi_label = ''77-6''\<rparr> else None))\<rparr>"

lemma ex_get_swaps: "pg_get_swaps ex_swap_cfg [''a''] ex_swap_db =
    (Inr [''a'' \<mapsto> \<lparr>ss_swap = ex_swap, ss_preimage = None\<rparr>], ex_swap_db)"
proof -
  have db: "db_swaps (pg_data ex_swap_db) = [swap_row_of ex_swap 5]" "pg_faults ex_swap_db = []"
    by (simp_all add: ex_swap_db_def pg_add_swap_def seq_def map_err_def sql_run insert_swap_def ex_swap_def
        secs_of_time_def of_option_def empty_swap_db_def)
  have "map_swap_state ex_swap_cfg (swap_row_of ex_swap 5) = Inr \<lparr>ss_swap = ex_swap, ss_preimage = None\<rparr>"
    using map_swap_state_row [OF ex_storable, of 5] by (simp add: ex_swap_def secs_of_time_def)
  then show ?thesis
    by (simp add: pg_get_swaps_def seq_def map_err_def sql_run db bind_res_def)
       (simp add: ex_swap_def swap_row_of_def)
qed

lemma missed_preimages_stored_witness:
  "\<exists>s'. do_query_preimages (pg_preimage_monitor ex_swap_cfg ex_chain_reader ex_paying_node
      (\<lambda>m. if m ''a'' = None then [] else [''a'']) 60) (ex_swap_db, ()) = (Inr (), (s', ())) \<and>
    has_preimage 77 9 (pg_data s')"
proof -
  have h: "swap_hash (swap_public (ss_swap \<lparr>ss_swap = ex_swap, ss_preimage = None\<rparr>)) = 77"
    by (simp add: ex_swap_def)
  have "\<exists>s'. do_query_preimages (pg_preimage_monitor ex_swap_cfg ex_chain_reader ex_paying_node
      (\<lambda>m. if m ''a'' = None then [] else [''a'']) 60) (ex_swap_db, ()) = (Inr (), (s', ())) \<and>
    has_preimage (swap_hash (swap_public (ss_swap \<lparr>ss_swap = ex_swap, ss_preimage = None\<rparr>)))
      (pi_preimage \<lparr>pi_preimage = 9, pi_label = ''77-6''\<rparr>) (pg_data s')"
  proof (rule missed_preimages_stored)
    show "pg_get_swaps ex_swap_cfg (map au_address [\<lparr>au_address = ''a'', au_utxo = cu_utxo ex_claimable\<rparr>])
        ex_swap_db = (Inr [''a'' \<mapsto> \<lparr>ss_swap = ex_swap, ss_preimage = None\<rparr>], ex_swap_db)"
      using ex_get_swaps by simp
    show "fst (get_preimage ex_paying_node
        (swap_hash (swap_public (ss_swap \<lparr>ss_swap = ex_swap, ss_preimage = None\<rparr>))) ()) =
      Inr (Some \<lparr>pi_preimage = 9, pi_label = ''77-6''\<rparr>)"
      unfolding h by (simp add: ex_paying_node_def)
  qed (simp_all add: ex_swap_db_data ex_chain_reader_def)
  then show ?thesis unfolding h by simp
qed

end
