(* ===== verification/Swap_Protocol.thy ===== *)
theory Swap_Protocol
  imports Public_Server Preimage_Monitor
begin

text \<open>
  The handlers and monitors of one process together, over the swap database and the lightning
  node: payments and refunds of swaps run concurrently, the process may stop at any point and
  start again, statements may fail. A step is a part of a handler between two of its awaits; the
  parts are the ones of \<open>Public_Server\<close>, \<open>Payment_Monitor\<close> and \<open>Preimage_Monitor\<close>.

  The lightning client is a parameter, and so is the state of the node behind it. What the handlers
  rely on is the locale \<open>lightning_node\<close>; \<open>Refund_Safety\<close> shows that the clients of the repository provide it.
\<close>

section \<open>The node\<close>

text \<open>What there is to know of a payment that swapd asked the node to make.\<close>

datatype node_state = NodePending | NodeComplete | NodeFailed

record node_payment =
  np_hash :: sha256
  np_label :: label
  np_state :: node_state

type_synonym node = "node_payment list"

text \<open>Time passes: a pending payment may settle, and a settled one stays as it is.\<close>

definition settles_to :: "node_payment \<Rightarrow> node_payment \<Rightarrow> bool" where
  "settles_to q q' \<longleftrightarrow> np_hash q' = np_hash q \<and> np_label q' = np_label q \<and>
     (np_state q \<noteq> NodePending \<longrightarrow> np_state q' = np_state q)"

abbreviation settles :: "node \<Rightarrow> node \<Rightarrow> bool" where "settles \<equiv> list_all2 settles_to"

lemma settles_to_trans: "settles_to p q \<Longrightarrow> settles_to q r \<Longrightarrow> settles_to p r"
  by (auto simp: settles_to_def)

lemma settles_trans: "settles k m \<Longrightarrow> settles m n \<Longrightarrow> settles k n"
  by (rule list_all2_trans [OF settles_to_trans])

lemma settles_refl [simp]: "settles n n"
  by (rule list.rel_refl) (simp add: settles_to_def)

lemma settles_labels: "settles n n' \<Longrightarrow> map np_label n' = map np_label n"
  by (induction rule: list_all2_induct) (simp_all add: settles_to_def)

lemma settles_failed:
  assumes "settles n n'" and "\<forall>q\<in>set n. np_hash q \<in> H \<longrightarrow> np_state q = NodeFailed"
  shows "\<forall>q\<in>set n'. np_hash q \<in> H \<longrightarrow> np_state q = NodeFailed"
  using assms by (induction rule: list_all2_induct) (auto simp: settles_to_def)

text \<open>
  The last check before a refund: \<open>live h n\<close> is what must not be the case after the answer \<open>false\<close>, for the
  states \<open>possible\<close> of the node.
\<close>

locale payment_check =
  fixes check :: "sha256 \<Rightarrow> ('n, lightning_error, bool) op" and live :: "sha256 \<Rightarrow> 'n \<Rightarrow> bool"
    and possible :: "'n \<Rightarrow> bool"
  assumes check_false: "possible n \<Longrightarrow> check h n = (Inr False, n') \<Longrightarrow> \<not> live h n'"

text \<open>
  The node behind a client, with the payments \<open>view\<close> in it: its calls make no payment, time may pass
  while they run, the check finds every payment of the hash that can still settle or has succeeded,
  and the label that comes with a preimage is empty or that of a payment. Nothing is said of the
  state that \<open>get_payment_state\<close> reports.
\<close>

locale lightning_node =
  payment_check "has_pending_or_complete_payment cl" "\<lambda>h n. \<exists>q\<in>set (view n). np_hash q = h \<and> np_state q \<noteq> NodeFailed" possible
  for cl :: "'n lightning_client" and view :: "'n \<Rightarrow> node" and possible :: "'n \<Rightarrow> bool" +
  assumes state_moves: "possible n \<Longrightarrow> get_payment_state cl h l n = (r, n') \<Longrightarrow> possible n' \<and> settles (view n) (view n')"
    and preimage_moves: "possible n \<Longrightarrow> get_preimage cl h n = (p, n') \<Longrightarrow> possible n' \<and> settles (view n) (view n')"
    and preimage_label: "possible n \<Longrightarrow> get_preimage cl h n = (Inr (Some x), n') \<Longrightarrow>
      pi_label x \<in> insert [] (np_label ` set (view n))"
    and check_moves: "possible n \<Longrightarrow> has_pending_or_complete_payment cl h n = (c, n') \<Longrightarrow>
      possible n' \<and> settles (view n) (view n')"

section \<open>The system\<close>

record 'n system =
  sys_db :: "swap_db pg"
  sys_node :: 'n
  sys_payers :: "(payment_attempt \<times> bool) set"   \<comment> \<open>locked attempts, \<open>True\<close> once sent to the node\<close>
  sys_refunds :: "(sha256 \<times> string) set"          \<comment> \<open>refunds that hold a lock, before the last check\<close>
  sys_released :: "sha256 set"                     \<comment> \<open>swaps for which a signature was released\<close>
  sys_historic :: "payment_attempt list"           \<comment> \<open>what the historical payment monitor polls\<close>

text \<open>A server over the swap tables and a node.\<close>

definition pg_server ::
    "swap_repo_cfg \<Rightarrow> 'n lightning_client \<Rightarrow> (swap_db pg \<times> 'n) swap_server \<Rightarrow> (swap_db pg \<times> 'n) swap_server" where
  "pg_server cfg client srv =
     srv\<lparr>srv_swap_repository := lift_swap_repository (pg_swap_repository cfg),
         srv_lightning_client := lift_lightning client\<rparr>"

definition set_world :: "swap_db pg \<times> 'n \<Rightarrow> 'n system \<Rightarrow> 'n system" where
  "set_world w s = s\<lparr>sys_db := fst w, sys_node := snd w\<rparr>"

abbreviation "world s \<equiv> (sys_db s, sys_node s)"

definition labels_of :: "swap_db \<Rightarrow> label set" where
  "labels_of d = ar_label ` set (db_attempts d)"

text \<open>
  The steps. A label is made of the hash and the nanoseconds of the clock, and is new; a refund id
  is 32 random bytes, and is new. A request to pay reaches the node or not; then \<open>pay\<close> may return any
  result at any time, whether the payment has settled or not, or fail, and then the lock stays. The
  node goes on by itself, and while it is asked. \<open>shared\<close> adds the start of a second process on the
  same database and node, whose monitor loads the unhandled attempts while this one runs.
\<close>

inductive step ::
    "bool \<Rightarrow> swap_repo_cfg \<Rightarrow> 'n lightning_client \<Rightarrow> ('n \<Rightarrow> node) \<Rightarrow> ('n \<Rightarrow> bool) \<Rightarrow>
     (swap_db pg \<times> 'n) swap_server \<Rightarrow> 'n system \<Rightarrow> 'n system \<Rightarrow> bool"
  for shared :: bool and cfg :: swap_repo_cfg and cl :: "'n lightning_client" and view :: "'n \<Rightarrow> node"
    and possible :: "'n \<Rightarrow> bool" and srv :: "(swap_db pg \<times> 'n) swap_server"
where
  Faults: "step shared cfg cl view possible srv s (s\<lparr>sys_db := (sys_db s)\<lparr>pg_faults := fs\<rparr>\<rparr>)"
| Add_swap: "pg_add_swap sw (sys_db s) = (r, db) \<Longrightarrow> step shared cfg cl view possible srv s (s\<lparr>sys_db := db\<rparr>)"
| Pay_lock: "pa_label a \<notin> insert [] (labels_of (pg_data (sys_db s))) \<Longrightarrow>
    pay_swap_lock (pg_server cfg cl srv) a (world s) = (r, w) \<Longrightarrow>
    step shared cfg cl view possible srv s ((set_world w s)
      \<lparr>sys_payers := (if isl r then sys_payers s else insert (a, False) (sys_payers s))\<rparr>)"
| Pay_send: "(a, False) \<in> sys_payers s \<Longrightarrow> possible n \<Longrightarrow>
    view n = view (sys_node s) @ [\<lparr>np_hash = pa_payment_hash a, np_label = pa_label a, np_state = NodePending\<rparr>] \<Longrightarrow>
    step shared cfg cl view possible srv s
      (s\<lparr>sys_payers := insert (a, True) (sys_payers s - {(a, False)}), sys_node := n\<rparr>)"
| Pay_error: "step shared cfg cl view possible srv s (s\<lparr>sys_payers := sys_payers s - {p}\<rparr>)"
| Node_moves: "possible n \<Longrightarrow> settles (view (sys_node s)) (view n) \<Longrightarrow>
    step shared cfg cl view possible srv s (s\<lparr>sys_node := n\<rparr>)"
| Pay_result: "(a, True) \<in> sys_payers s \<Longrightarrow>
    pay_swap_finish (pg_server cfg cl srv) (pa_payment_hash a) (pa_label a) res (world s) = (r, w) \<Longrightarrow>
    step shared cfg cl view possible srv s ((set_world w s)\<lparr>sys_payers := sys_payers s - {(a, True)}\<rparr>)"
| Refund_lock: "list_all (\<lambda>k. lr_refund_id k \<noteq> Some rid) (db_locks (pg_data (sys_db s))) \<Longrightarrow>
    refund_swap_lock (pg_server cfg cl srv) h rid (world s) = (r, w) \<Longrightarrow>
    step shared cfg cl view possible srv s ((set_world w s)
      \<lparr>sys_refunds := (if isl r then sys_refunds s else insert (h, rid) (sys_refunds s))\<rparr>)"
| Refund_check: "(h, rid) \<in> sys_refunds s \<Longrightarrow>
    refund_swap_check (pg_server cfg cl srv) h rid (world s) = (r, w) \<Longrightarrow>
    step shared cfg cl view possible srv s ((set_world w s)\<lparr>sys_refunds := sys_refunds s - {(h, rid)},
      sys_released := (if isl r then sys_released s else insert h (sys_released s))\<rparr>)"
| Refund_dropped: "step shared cfg cl view possible srv s (s\<lparr>sys_refunds := sys_refunds s - {p}\<rparr>)"
| Monitor_check: "a \<in> set (sys_historic s) \<Longrightarrow>
    do_check_payments (pg_payment_monitor cfg cl as d) [a] (world s) = (r, w) \<Longrightarrow>
    step shared cfg cl view possible srv s ((set_world w s)
      \<lparr>sys_historic := (if r = Inr [] then removeAll a (sys_historic s) else sys_historic s)\<rparr>)"
| Monitor_dropped: "step shared cfg cl view possible srv s (s\<lparr>sys_historic := []\<rparr>)"
| Preimage_query: "query_preimage (pg_preimage_monitor cfg cr cl order d) h (world s) = (r, w) \<Longrightarrow>
    step shared cfg cl view possible srv s (set_world w s)"
| Restart: "pg_get_unhandled_payment_attempts cfg (sys_db s) = (r, db) \<Longrightarrow>
    step shared cfg cl view possible srv s (s\<lparr>sys_db := db, sys_payers := {}, sys_refunds := {},
      sys_historic := (case r of Inr as \<Rightarrow> as | Inl e \<Rightarrow> [])\<rparr>)"
| Second_process: "shared \<Longrightarrow> pg_get_unhandled_payment_attempts cfg (sys_db s) = (Inr as, db) \<Longrightarrow>
    step shared cfg cl view possible srv s (s\<lparr>sys_db := db, sys_historic := sys_historic s @ as\<rparr>)"

text \<open>The beginning: empty tables, and a node that has made no payment of swapd.\<close>

definition initial_system :: "swap_db pg \<Rightarrow> 'n \<Rightarrow> 'n system" where
  "initial_system db n =
     \<lparr>sys_db = db, sys_node = n, sys_payers = {}, sys_refunds = {}, sys_released = {}, sys_historic = []\<rparr>"

inductive reachable ::
    "bool \<Rightarrow> swap_repo_cfg \<Rightarrow> 'n lightning_client \<Rightarrow> ('n \<Rightarrow> node) \<Rightarrow> ('n \<Rightarrow> bool) \<Rightarrow>
     (swap_db pg \<times> 'n) swap_server \<Rightarrow> 'n system \<Rightarrow> bool"
  for shared :: bool and cfg :: swap_repo_cfg and cl :: "'n lightning_client" and view :: "'n \<Rightarrow> node"
    and possible :: "'n \<Rightarrow> bool" and srv :: "(swap_db pg \<times> 'n) swap_server"
where
  Start: "possible n \<Longrightarrow> view n = [] \<Longrightarrow>
    reachable shared cfg cl view possible srv (initial_system \<lparr>pg_data = empty_swap_db, pg_faults = fs\<rparr> n)"
| Next: "reachable shared cfg cl view possible srv s \<Longrightarrow> step shared cfg cl view possible srv s s' \<Longrightarrow>
    reachable shared cfg cl view possible srv s'"

section \<open>What the steps keep\<close>

definition pay_locked :: "(sha256 \<Rightarrow> swap_lock list) \<Rightarrow> sha256 \<Rightarrow> label \<Rightarrow> bool" where
  "pay_locked ls h l \<longleftrightarrow> list_ex (\<lambda>k. payment_attempt_label k = Some l) (ls h)"

definition refund_locked :: "(sha256 \<Rightarrow> swap_lock list) \<Rightarrow> sha256 \<Rightarrow> string \<Rightarrow> bool" where
  "refund_locked ls h rid \<longleftrightarrow> list_ex (\<lambda>k. refund_id k = Some rid) (ls h)"

text \<open>
  The invariant over the locks \<open>ls\<close> and the labels \<open>labs\<close> of the database: an attempt that is locked
  but not sent has its lock, and a label of its own that is neither on the node nor with the
  monitor; a released swap has a refund lock that nobody will take away, and only failed payments.
  A payment that is on the node need not have its lock any more.
\<close>

definition agree ::
    "(sha256 \<Rightarrow> swap_lock list) \<Rightarrow> label set \<Rightarrow> node \<Rightarrow> (payment_attempt \<times> bool) set \<Rightarrow>
     (sha256 \<times> string) set \<Rightarrow> sha256 set \<Rightarrow> payment_attempt list \<Rightarrow> bool" where
  "agree ls labs n ps rs rel hist \<longleftrightarrow>
     exclusive ls \<and> np_label ` set n \<subseteq> labs \<and> pa_label ` set hist \<subseteq> labs \<and>
     (\<forall>p\<in>ps. pa_label (fst p) \<in> labs) \<and>
     (\<forall>p\<in>ps. \<forall>q\<in>ps. pa_label (fst p) = pa_label (fst q) \<longrightarrow> p = q) \<and>
     (\<forall>a. (a, False) \<in> ps \<longrightarrow> pay_locked ls (pa_payment_hash a) (pa_label a) \<and>
        pa_label a \<notin> insert [] (np_label ` set n) \<and> pa_label a \<notin> pa_label ` set hist) \<and>
     (\<forall>r\<in>rs. refund_locked ls (fst r) (snd r)) \<and>
     (\<forall>h\<in>rel. (\<exists>rid. refund_locked ls h rid \<and> (h, rid) \<notin> rs) \<and>
        (\<forall>q\<in>set n. np_hash q = h \<longrightarrow> np_state q = NodeFailed))"

lemma agreeI:
  assumes "exclusive ls" and "np_label ` set n \<subseteq> labs"
    and "pa_label ` set hist \<subseteq> labs" and "\<And>p. p \<in> ps \<Longrightarrow> pa_label (fst p) \<in> labs"
    and "\<And>p q. p \<in> ps \<Longrightarrow> q \<in> ps \<Longrightarrow> pa_label (fst p) = pa_label (fst q) \<Longrightarrow> p = q"
    and "\<And>a. (a, False) \<in> ps \<Longrightarrow> pay_locked ls (pa_payment_hash a) (pa_label a)"
    and "\<And>a. (a, False) \<in> ps \<Longrightarrow> pa_label a \<notin> insert [] (np_label ` set n) \<and> pa_label a \<notin> pa_label ` set hist"
    and "\<And>h rid. (h, rid) \<in> rs \<Longrightarrow> refund_locked ls h rid"
    and "\<And>h. h \<in> rel \<Longrightarrow> \<exists>rid. refund_locked ls h rid \<and> (h, rid) \<notin> rs"
    and "\<And>q. q \<in> set n \<Longrightarrow> np_hash q \<in> rel \<Longrightarrow> np_state q = NodeFailed"
  shows "agree ls labs n ps rs rel hist"
  using assms unfolding agree_def by auto

lemma agreeD:
  assumes "agree ls labs n ps rs rel hist"
  shows "exclusive ls" and "np_label ` set n \<subseteq> labs"
    and "pa_label ` set hist \<subseteq> labs" and "p \<in> ps \<Longrightarrow> pa_label (fst p) \<in> labs"
    and "p \<in> ps \<Longrightarrow> q \<in> ps \<Longrightarrow> pa_label (fst p) = pa_label (fst q) \<Longrightarrow> p = q"
    and "(a, False) \<in> ps \<Longrightarrow> pay_locked ls (pa_payment_hash a) (pa_label a)"
    and "(a, False) \<in> ps \<Longrightarrow> pa_label a \<notin> insert [] (np_label ` set n) \<and> pa_label a \<notin> pa_label ` set hist"
    and "(h, rid) \<in> rs \<Longrightarrow> refund_locked ls h rid"
    and "h \<in> rel \<Longrightarrow> \<exists>rid. refund_locked ls h rid \<and> (h, rid) \<notin> rs"
    and "e \<in> set n \<Longrightarrow> np_hash e \<in> rel \<Longrightarrow> np_state e = NodeFailed"
  using assms unfolding agree_def by (elim conjE; force)+

lemma exclusive_refund_pay: "exclusive ls \<Longrightarrow> refund_locked ls h rid \<Longrightarrow> \<not> pay_locked ls h l"
  by (fastforce simp: exclusive_def refund_locked_def pay_locked_def list_ex_iff)

lemma exclusive_filter_lock: "exclusive ls \<Longrightarrow> exclusive (ls(h := filter P (ls h)))"
  by (fastforce simp: exclusive_def)

lemma locked_other:
  "pay_locked ls h l \<Longrightarrow> h \<noteq> h' \<or> l \<noteq> l' \<Longrightarrow>
     pay_locked (ls(h' := filter (\<lambda>k. payment_attempt_label k \<noteq> Some l') (ls h'))) h l"
  by (auto simp: pay_locked_def list_ex_iff)

lemma refund_locked_pay_unlock:
  "exclusive ls \<Longrightarrow> refund_locked ls h rid \<Longrightarrow>
     refund_locked (ls(h' := filter (\<lambda>k. payment_attempt_label k \<noteq> Some l) (ls h'))) h rid"
  by (fastforce simp: refund_locked_def list_ex_iff exclusive_def)

text \<open>Releasing the lock of a payment that is not about to be sent.\<close>

lemma agree_unlock:
  assumes "agree ls labs n ps rs rel hist" and "\<And>a. (a, False) \<in> ps \<Longrightarrow> pa_label a \<noteq> l"
  shows "agree (ls(h := filter (\<lambda>k. payment_attempt_label k \<noteq> Some l) (ls h))) labs n ps rs rel hist"
    (is "agree ?ls _ _ _ _ _ _")
proof -
  note old = agreeD [OF assms(1)]
  have refund: "refund_locked ls g i \<Longrightarrow> refund_locked ?ls g i" for g i
    by (rule refund_locked_pay_unlock [OF old(1)])
  show ?thesis
  proof (rule agreeI)
    show "pay_locked ?ls (pa_payment_hash a) (pa_label a)" if "(a, False) \<in> ps" for a
      using locked_other [OF old(6) [OF that]] assms(2) [OF that] by simp
    show "\<exists>i. refund_locked ?ls g i \<and> (g, i) \<notin> rs" if "g \<in> rel" for g
      using old(9) [OF that] refund by blast
  qed (use old in \<open>auto simp: exclusive_filter_lock intro: refund\<close>)
qed

text \<open>Time passes on the node.\<close>

lemma agree_settle:
  assumes "agree ls labs n ps rs rel hist" and "settles n n'"
  shows "agree ls labs n' ps rs rel hist"
proof -
  have "np_label ` set n' = np_label ` set n" using settles_labels [OF assms(2)] by (metis set_map)
  moreover have "\<forall>q\<in>set n'. np_hash q \<in> rel \<longrightarrow> np_state q = NodeFailed"
    using settles_failed [OF assms(2)] agreeD(10) [OF assms(1)] by blast
  ultimately show ?thesis using assms(1) unfolding agree_def by auto
qed

lemma agree_pay_lock:
  assumes "agree ls labs n ps rs rel hist" and "ls (pa_payment_hash a) = []" and "pa_label a \<notin> insert [] labs"
  shows "agree (ls(pa_payment_hash a := [\<lparr>refund_id = None, payment_attempt_label = Some (pa_label a)\<rparr>]))
    (insert (pa_label a) labs) n (insert (a, False) ps) rs rel hist"
    (is "agree ?ls _ _ _ _ _ _")
proof -
  note old = agreeD [OF assms(1)]
  have pay: "pay_locked ls h l \<Longrightarrow> pay_locked ?ls h l" for h l
    using assms(2) by (auto simp: pay_locked_def)
  have refund: "refund_locked ls h rid \<Longrightarrow> refund_locked ?ls h rid" for h rid
    using assms(2) by (auto simp: refund_locked_def)
  have new: "pay_locked ?ls (pa_payment_hash a) (pa_label a)" by (simp add: pay_locked_def)
  show ?thesis
  proof (rule agreeI)
    show "exclusive ?ls" using old(1) by (auto simp: exclusive_def)
    show "p = q" if "p \<in> insert (a, False) ps" "q \<in> insert (a, False) ps" "pa_label (fst p) = pa_label (fst q)" for p q
      using that assms(3) old(4) [of p] old(4) [of q] old(5) [of p q] by (auto simp del: split_paired_All)
    show "pa_label b \<notin> insert [] (np_label ` set n) \<and> pa_label b \<notin> pa_label ` set hist" if "(b, False) \<in> insert (a, False) ps" for b
      using that old(2,3) old(7) [of b] assms(3) by (cases "b = a") auto
    show "\<exists>rid. refund_locked ?ls h rid \<and> (h, rid) \<notin> rs" if "h \<in> rel" for h
      using old(9) [OF that] refund by auto
  qed (use old new in \<open>auto intro: pay refund\<close>)
qed

lemma agree_pay_send:
  assumes "agree ls labs n ps rs rel hist" and "(a, False) \<in> ps"
  shows "agree ls labs (n @ [\<lparr>np_hash = pa_payment_hash a, np_label = pa_label a, np_state = NodePending\<rparr>])
    (insert (a, True) (ps - {(a, False)})) rs rel hist" (is "agree _ _ ?n ?ps _ _ _")
proof -
  note old = agreeD [OF assms(1)]
  have a: "pay_locked ls (pa_payment_hash a) (pa_label a)" "pa_label a \<in> labs"
      "pa_label a \<notin> insert [] (np_label ` set n)" "pa_label a \<notin> pa_label ` set hist"
    using old(6,7) [OF assms(2)] old(4) [OF assms(2)] by auto
  have inj: "p = (a, False)" if "p \<in> ps" "pa_label (fst p) = pa_label a" for p
    using old(5) [OF that(1) assms(2)] that(2) by simp
  have live: "pa_payment_hash a \<notin> rel"
    using old(1,9) a(1) exclusive_refund_pay by blast
  show ?thesis
  proof (rule agreeI)
    show "p = q" if "p \<in> ?ps" "q \<in> ?ps" "pa_label (fst p) = pa_label (fst q)" for p q
      using that inj old(5) by (metis Diff_iff fst_conv insert_iff)
    show "pa_label b \<notin> insert [] (np_label ` set ?n) \<and> pa_label b \<notin> pa_label ` set hist" if "(b, False) \<in> ?ps" for b
    proof -
      have "(b, False) \<in> ps" "b \<noteq> a" using that by auto
      then have "pa_label b \<noteq> pa_label a" using inj by (metis fst_conv)
      with old(7) [OF \<open>(b, False) \<in> ps\<close>] show ?thesis by auto
    qed
    show "np_state q = NodeFailed" if "q \<in> set ?n" "np_hash q \<in> rel" for q
      using that live old(10) by auto
  qed (use old a in \<open>auto intro: old(6) old(8) old(9)\<close>)
qed

lemma agree_forget:
  assumes "agree ls labs n ps rs rel hist" and "ps' \<subseteq> ps" and "rs' \<subseteq> rs" and "set hist' \<subseteq> set hist"
  shows "agree ls labs n ps' rs' rel hist'"
proof -
  note old = agreeD [OF assms(1)]
  show ?thesis
  proof (rule agreeI)
    show "\<exists>rid. refund_locked ls h rid \<and> (h, rid) \<notin> rs'" if "h \<in> rel" for h
      using old(9) [OF that] assms(3) by auto
    show "pa_label a \<notin> insert [] (np_label ` set n) \<and> pa_label a \<notin> pa_label ` set hist'" if "(a, False) \<in> ps'" for a
      using old(7) [of a] that assms(2,4) by auto
    show "p = q" if "p \<in> ps'" "q \<in> ps'" "pa_label (fst p) = pa_label (fst q)" for p q
      using old(5) [OF _ _ that(3)] that(1,2) assms(2) by auto
    show "pa_label ` set hist' \<subseteq> labs" using old(3) assms(4) by auto
  qed (use old assms in \<open>auto intro: old(6) old(8)\<close>)
qed

lemma agree_refund_lock:
  assumes "agree ls labs n ps rs rel hist" and "\<forall>k\<in>set (ls h). payment_attempt_label k = None"
    and "\<And>g. \<not> refund_locked ls g rid"
  shows "agree (ls(h := ls h @ [\<lparr>refund_id = Some rid, payment_attempt_label = None\<rparr>])) labs n ps
    (insert (h, rid) rs) rel hist" (is "agree ?ls _ _ _ _ _ _")
proof -
  note old = agreeD [OF assms(1)]
  have pay: "pay_locked ls g l \<Longrightarrow> pay_locked ?ls g l" for g l by (auto simp: pay_locked_def)
  have refund: "refund_locked ls g i \<Longrightarrow> refund_locked ?ls g i" for g i by (auto simp: refund_locked_def)
  show ?thesis
  proof (rule agreeI)
    show "exclusive ?ls" using old(1) assms(2) by (auto simp: exclusive_def)
    show "\<exists>i. refund_locked ?ls g i \<and> (g, i) \<notin> insert (h, rid) rs" if "g \<in> rel" for g
      using old(9) [OF that] refund assms(3) by (metis insertE prod.inject)
    show "refund_locked ?ls g i" if "(g, i) \<in> insert (h, rid) rs" for g i
      using that old(8) refund by (auto simp: refund_locked_def)
  qed (use old in \<open>auto intro: pay\<close>)
qed

lemma agree_release:
  assumes "agree ls labs n ps rs rel hist" and "(h, rid) \<in> rs"
    and "\<not> (\<exists>q\<in>set n. np_hash q = h \<and> np_state q \<noteq> NodeFailed)"
  shows "agree ls labs n ps (rs - {(h, rid)}) (insert h rel) hist"
proof -
  note old = agreeD [OF assms(1)]
  show ?thesis
  proof (rule agreeI)
    show "\<exists>i. refund_locked ls g i \<and> (g, i) \<notin> rs - {(h, rid)}" if "g \<in> insert h rel" for g
      using that old(9) [of g] old(8) [OF assms(2)] by auto
    show "np_state q = NodeFailed" if "q \<in> set n" "np_hash q \<in> insert h rel" for q
      using that old(10) assms(3) by auto
  qed (use old in auto)
qed

lemma agree_refund_unlock:
  assumes "agree ls labs n ps rs rel hist" and "(h, rid) \<in> rs"
  shows "agree (ls(h := filter (\<lambda>k. refund_id k \<noteq> Some rid) (ls h))) labs n ps (rs - {(h, rid)}) rel hist"
    (is "agree ?ls _ _ _ _ _ _")
proof -
  note old = agreeD [OF assms(1)]
  have pay: "pay_locked ls g l \<Longrightarrow> pay_locked ?ls g l" for g l
    using old(1) by (fastforce simp: pay_locked_def list_ex_iff exclusive_def)
  have refund: "refund_locked ls g i \<Longrightarrow> (g, i) \<noteq> (h, rid) \<Longrightarrow> refund_locked ?ls g i" for g i
    by (auto simp: refund_locked_def list_ex_iff)
  show ?thesis
  proof (rule agreeI)
    show "exclusive ?ls" using old(1) by (rule exclusive_filter_lock)
    show "\<exists>i. refund_locked ?ls g i \<and> (g, i) \<notin> rs - {(h, rid)}" if "g \<in> rel" for g
      using old(9) [OF that] refund assms(2) by (metis DiffD1)
    show "refund_locked ?ls g i" if "(g, i) \<in> rs - {(h, rid)}" for g i
      using that old(8) refund by blast
  qed (use old in \<open>auto intro: pay\<close>)
qed

section \<open>The steps keep the invariant\<close>

abbreviation "locks s \<equiv> locks_of (pg_data s)"
abbreviation "labels s \<equiv> labels_of (pg_data s)"

lemma server_fields [simp]:
  "srv_swap_repository (pg_server cfg cl srv) = lift_swap_repository (pg_swap_repository cfg)"
  "srv_lightning_client (pg_server cfg cl srv) = lift_lightning cl"
  by (simp_all add: pg_server_def)

lemma lifted_ops [simp]:
  "lock_add_payment_attempt (lift_swap_repository (pg_swap_repository cfg)) a = on_fst (pg_lock_add_payment_attempt a)"
  "lock_swap_refund (lift_swap_repository (pg_swap_repository cfg)) h i = on_fst (pg_lock_swap_refund h i)"
  "unlock_add_payment_result (lift_swap_repository (pg_swap_repository cfg)) h l p = on_fst (pg_unlock_add_payment_result h l p)"
  "unlock_swap_refund (lift_swap_repository (pg_swap_repository cfg)) h i = on_fst (pg_unlock_swap_refund h i)"
  by (simp_all add: lift_swap_repository_def pg_swap_repository_def)

lemma labels_of_effects:
  "labels_of (pay_lock_effect a secs d) = insert (pa_label a) (labels_of d)"
  "labels_of (refund_lock_effect h rid d) = labels_of d"
  "labels_of (refund_unlock_effect h rid d) = labels_of d"
  "labels_of (pay_unlock_effect h l res d) = labels_of d"
proof -
  have "map ar_label (db_attempts (pay_unlock_effect h l res d)) = map ar_label (db_attempts d)"
    using pay_unlock_attempts [of h l res d] by auto
  then show "labels_of (pay_unlock_effect h l res d) = labels_of d"
    unfolding labels_of_def by (metis set_map)
qed (simp_all add: labels_of_def pay_lock_effect_def insert_attempt_def insert_lock_def insert_attempt_outputs_def
    refund_lock_effect_def refund_unlock_effect_def delete_locks_def)

text \<open>What the parts of the handlers do to the locks and labels, whatever they return.\<close>

lemma unlock_cases:
  assumes "pg_unlock_add_payment_result h l res s = (r, s')"
  shows "labels s' = labels s \<and> (locks s' = locks s \<or>
    locks s' = (locks s)(h := filter (\<lambda>k. payment_attempt_label k \<noteq> Some l) (locks s h)))"
  using assms
  by (cases r) (auto simp: lock_op_Inl labels_of_effects locks_of_effects dest!: pg_unlock_pay_Inr)

lemma pay_swap_lock_cases:
  assumes "pay_swap_lock (pg_server cfg cl srv) a (db, n) = (r, w)"
  shows "snd w = n \<and>
    (if isl r then locks (fst w) = locks db \<and> labels (fst w) = labels db
     else locks db (pa_payment_hash a) = [] \<and> labels (fst w) = insert (pa_label a) (labels db) \<and>
       locks (fst w) = (locks db)(pa_payment_hash a := [\<lparr>refund_id = None, payment_attempt_label = Some (pa_label a)\<rparr>]))"
proof -
  obtain x db' where x: "pg_lock_add_payment_attempt a db = (x, db')" by fastforce
  show ?thesis
  proof (cases x)
    case (Inl e)
    with assms x lock_op_Inl(1) [of a db e db'] show ?thesis
      by (cases e) (auto simp: pay_swap_lock_def attempt_def on_fst_def)
  next
    case (Inr u)
    with assms x pg_lock_pay_Inr [of a db u db'] show ?thesis
      by (auto simp: pay_swap_lock_def attempt_def on_fst_def labels_of_effects locks_of_effects)
  qed
qed

lemma pay_swap_finish_cases:
  assumes "pay_swap_finish (pg_server cfg cl srv) h l res (db, n) = (r, w)"
  shows "snd w = n \<and> labels (fst w) = labels db \<and> (locks (fst w) = locks db \<or>
    locks (fst w) = (locks db)(h := filter (\<lambda>k. payment_attempt_label k \<noteq> Some l) (locks db h)))"
proof -
  obtain x db' where x: "pg_unlock_add_payment_result h l res db = (x, db')" by fastforce
  then have "w = (db', n)"
    using assms by (cases res) (auto simp: pay_swap_finish_def attempt_def on_fst_def)
  with unlock_cases [OF x] show ?thesis by simp
qed

lemma refund_swap_lock_cases:
  assumes "refund_swap_lock (pg_server cfg cl srv) h rid (db, n) = (r, w)"
  shows "snd w = n \<and> labels (fst w) = labels db \<and>
    (if isl r then locks (fst w) = locks db
     else (\<forall>k\<in>set (locks db h). payment_attempt_label k = None) \<and>
       locks (fst w) = (locks db)(h := locks db h @ [\<lparr>refund_id = Some rid, payment_attempt_label = None\<rparr>]))"
proof -
  obtain x db' where x: "pg_lock_swap_refund h rid db = (x, db')" by fastforce
  show ?thesis
  proof (cases x)
    case (Inl e)
    with assms x lock_op_Inl(2) [of h rid db e db'] show ?thesis
      by (cases e) (auto simp: refund_swap_lock_def attempt_def on_fst_def)
  next
    case (Inr u)
    with assms x pg_lock_refund_Inr [of h rid db u db'] show ?thesis
      by (auto simp: refund_swap_lock_def attempt_def on_fst_def labels_of_effects locks_of_effects)
  qed
qed

lemma refund_swap_check_cases:
  assumes "refund_swap_check (pg_server cfg cl srv) h rid (db, n) = (r, w)"
  obtains c where "has_pending_or_complete_payment cl h n = (c, snd w)" and "labels (fst w) = labels db"
    and "if isl r then locks (fst w) = locks db \<or>
       locks (fst w) = (locks db)(h := filter (\<lambda>k. refund_id k \<noteq> Some rid) (locks db h))
     else locks (fst w) = locks db \<and> c = Inr False"
proof -
  obtain c n' where c: "has_pending_or_complete_payment cl h n = (c, n')" by fastforce
  obtain x db' where x: "pg_unlock_swap_refund h rid db = (x, db')" by fastforce
  then have "labels db' = labels db \<and> (locks db' = locks db \<or>
      locks db' = (locks db)(h := filter (\<lambda>k. refund_id k \<noteq> Some rid) (locks db h)))"
    by (cases x) (auto simp: lock_op_Inl labels_of_effects locks_of_effects dest!: pg_unlock_refund_Inr)
  moreover have "w = (if c = Inr False then (db, n') else (db', n')) \<and> isl r = (c \<noteq> Inr False)"
    using assms x c
    by (cases c) (auto simp: refund_swap_check_def attempt_def lift_lightning_def on_snd_def on_fst_def split: if_splits bool.splits)
  ultimately show thesis using c by (intro that [of c]) (auto split: if_splits)
qed

text \<open>A round of the monitor on one attempt, and one query for a preimage, whatever the node answers.\<close>

lemma check_payment_cases:
  assumes "do_check_payments (pg_payment_monitor cfg cl as d) [a] (db, n) = (r, w)"
  obtains x where "get_payment_state cl (pa_payment_hash a) (pa_label a) n = (x, snd w)" and "labels (fst w) = labels db"
    and "locks (fst w) = locks db \<or> locks (fst w) = (locks db)(pa_payment_hash a :=
      filter (\<lambda>k. payment_attempt_label k \<noteq> Some (pa_label a)) (locks db (pa_payment_hash a)))"
proof -
  obtain x n' where x: "get_payment_state cl (pa_payment_hash a) (pa_label a) n = (x, n')" by fastforce
  let ?u = "\<lambda>res. pg_unlock_add_payment_result (pa_payment_hash a) (pa_label a) res db"
  have "snd w = n' \<and> (fst w = db \<or> (\<exists>res y. ?u res = (y, fst w)))"
    using assms x
    by (auto simp: attempt_def pg_payment_monitor_def lift_lightning_def on_snd_def record_result_def map_err_def
        seq_def on_fst_def split: prod.splits sum.splits lightning_error.splits payment_state.splits)
  with x that unlock_cases show thesis by metis
qed

lemma query_preimage_cases:
  assumes "query_preimage (pg_preimage_monitor cfg cr cl order d) h (db, n) = (r, w)"
  obtains x where "get_preimage cl h n = (x, snd w)" and "labels (fst w) = labels db"
    and "locks (fst w) = locks db \<or> (\<exists>p. x = Inr (Some p) \<and>
      locks (fst w) = (locks db)(h := filter (\<lambda>k. payment_attempt_label k \<noteq> Some (pi_label p)) (locks db h)))"
proof -
  obtain x n' where x: "get_preimage cl h n = (x, n')" by fastforce
  have "snd w = n' \<and> (fst w = db \<or> (\<exists>p y. x = Inr (Some p) \<and>
      pg_unlock_add_payment_result h (pi_label p) (PaymentSuccess (pi_preimage p)) db = (y, fst w)))"
    using assms x
    by (auto simp: query_preimage_def attempt_def pg_preimage_monitor_def lift_lightning_def on_snd_def on_fst_def
        split: prod.splits sum.splits option.splits)
  with x that unlock_cases show thesis by metis
qed

lemma add_swap_cases:
  assumes "pg_add_swap sw s = (r, s')"
  shows "locks s' = locks s \<and> labels s' = labels s"
proof -
  have "\<exists>rows. pg_data s' = (pg_data s)\<lparr>db_swaps := rows\<rparr>"
    using assms
    by (cases r) (auto simp: pg_add_swap_def op_iffs insert_swap_def dest!: stmt_Inr stmt_Inl
        split: if_splits intro: exI [of _ "db_swaps (pg_data s)"] dest!: sym [of _ "pg_data s'"])
  then show ?thesis by (auto simp: locks_of_def labels_of_def fun_eq_iff)
qed

text \<open>What the loaded attempts carry: a label of the table, if the map hands out its own entries.\<close>

definition entries_labelled :: "label set \<Rightarrow> payment_attempt labelled \<Rightarrow> bool" where
  "entries_labelled labs m \<longleftrightarrow>
     (\<forall>l\<in>set (fst m). \<exists>a. snd m l = Some a \<and> pa_label a \<in> labs)"

lemma collect_attempts_labels:
  assumes "collect_attempts cfg rows m = Inr m'" and "entries_labelled labs m"
    and "\<forall>r\<in>set rows. ar_label (fst r) \<in> labs"
  shows "entries_labelled labs m'"
  using assms
proof (induction cfg rows m rule: collect_attempts.induct)
  case (2 cfg row out rows m)
  then obtain a where a: "parse_attempt cfg row = Inr a"
    "collect_attempts cfg rows (modify_entry (ar_label row) (push_outputs (output_of_row out))
         (entry_or_insert (ar_label row) a m)) = Inr m'"
    by (auto simp: bind_res_Inr)
  have "pa_label a = ar_label row"
    using a(1) by (auto simp: parse_attempt_def bind_res_Inr)
  then have "entries_labelled labs (modify_entry (ar_label row) (push_outputs (output_of_row out))
         (entry_or_insert (ar_label row) a m))"
    using "2.prems"(2,3)
    by (auto simp: entries_labelled_def modify_entry_def entry_or_insert_def push_outputs_def split: option.splits)
  with "2.IH" [OF a(2)] "2.prems"(3) show ?case by simp
qed simp

definition map_order_ok :: "swap_repo_cfg \<Rightarrow> bool" where
  "map_order_ok cfg \<longleftrightarrow> (\<forall>ls. mset (rc_iteration_order cfg ls) = mset ls)"

lemma unhandled_cases:
  assumes "pg_get_unhandled_payment_attempts cfg s = (r, s')" and "map_order_ok cfg"
  shows "pg_data s' = pg_data s \<and> (\<forall>as. r = Inr as \<longrightarrow> pa_label ` set as \<subseteq> labels s)"
proof -
  obtain q s1 where q: "query (attempt_join (\<lambda>pa. ar_success pa = None)) s = (q, s1)" by fastforce
  have keep: "pg_data s1 = pg_data s" using q by (rule query_keeps_data)
  show ?thesis
  proof (cases q)
    case (Inl e)
    with assms q keep show ?thesis by (auto simp: pg_get_unhandled_payment_attempts_def)
  next
    case (Inr rows)
    let ?c = "collect_attempts cfg rows ([], Map.empty)"
    have run: "s' = s1" "\<And>as. r = Inr as \<Longrightarrow> \<exists>m. ?c = Inr m \<and> as = into_values cfg m"
      using assms q Inr
      by (cases ?c; auto simp: pg_get_unhandled_payment_attempts_def seq_def map_err_def)+
    have rows: "rows = attempt_join (\<lambda>pa. ar_success pa = None) (pg_data s)"
      using q Inr query_Inr by fastforce
    have "\<forall>x\<in>set rows. ar_label (fst x) \<in> labels s"
      by (auto simp: rows attempt_join_def labels_of_def split: list.splits)
    then have ents: "?c = Inr m \<Longrightarrow> entries_labelled (labels s) m" for m
      using collect_attempts_labels [of cfg rows "([], Map.empty)" m "labels s"]
      by (simp add: entries_labelled_def)
    have "pa_label ` set as \<subseteq> labels s" if "r = Inr as" for as
    proof -
      obtain m where m: "?c = Inr m" "as = into_values cfg m" using run(2) [OF \<open>r = Inr as\<close>] by blast
      have "set (rc_iteration_order cfg (fst m)) = set (fst m)"
        using assms(2) unfolding map_order_ok_def by (metis mset_eq_setD)
      with ents [OF m(1)] show ?thesis
        unfolding m(2) into_values_def entries_labelled_def by fastforce
    qed
    with keep run(1) show ?thesis by simp
  qed
qed

text \<open>Loading the attempts into a new monitor.\<close>

lemma agree_load:
  assumes "agree ls labs n ps rs rel hist" and "pa_label ` set hist' \<subseteq> labs"
  shows "agree ls labs n {} {} rel hist'"
  using agreeD(9) [OF assms(1)] assms unfolding agree_def by auto

context lightning_node
begin

definition agree_system :: "'n system \<Rightarrow> bool" where
  "agree_system s \<longleftrightarrow> possible (sys_node s) \<and>
     agree (locks_of (pg_data (sys_db s))) (labels_of (pg_data (sys_db s))) (view (sys_node s))
       (sys_payers s) (sys_refunds s) (sys_released s) (sys_historic s)"

lemma agree_system_moves:
  assumes "agree_system s" and "possible (snd w)" and "settles (view (sys_node s)) (view (snd w))"
    and "labels (fst w) = labels (sys_db s)"
    and "locks (fst w) = locks (sys_db s) \<or>
      locks (fst w) = (locks (sys_db s))(h := filter (\<lambda>k. payment_attempt_label k \<noteq> Some l) (locks (sys_db s) h))"
    and "\<And>a. (a, False) \<in> sys_payers s \<Longrightarrow> pa_label a \<noteq> l"
  shows "agree_system (set_world w s)"
  using assms(5)
proof
  assume "locks (fst w) = locks (sys_db s)"
  with assms agree_settle [OF _ assms(3)] show ?thesis by (simp add: agree_system_def set_world_def)
next
  assume "locks (fst w) = (locks (sys_db s))(h := filter (\<lambda>k. payment_attempt_label k \<noteq> Some l) (locks (sys_db s) h))"
  with assms agree_settle [OF agree_unlock [OF _ assms(6)] assms(3)] show ?thesis
    by (simp add: agree_system_def set_world_def)
qed

lemma waiting_label:
  assumes "agree_system s" and "(a, False) \<in> sys_payers s"
  shows "pa_label a \<noteq> []" and "pa_label a \<notin> np_label ` set (view (sys_node s))"
    and "pa_label a \<notin> pa_label ` set (sys_historic s)" and "(b, True) \<in> sys_payers s \<Longrightarrow> pa_label a \<noteq> pa_label b"
proof -
  from assms(1) have a: "agree (locks (sys_db s)) (labels (sys_db s)) (view (sys_node s)) (sys_payers s)
      (sys_refunds s) (sys_released s) (sys_historic s)" by (simp add: agree_system_def)
  show "pa_label a \<noteq> []" "pa_label a \<notin> np_label ` set (view (sys_node s))"
    "pa_label a \<notin> pa_label ` set (sys_historic s)" using agreeD(7) [OF a assms(2)] by simp_all
  show "pa_label a \<noteq> pa_label b" if "(b, True) \<in> sys_payers s" using agreeD(5) [OF a assms(2) that] by auto
qed

lemma refund_check_agree:
  assumes "agree_system s" and "(h, rid) \<in> sys_refunds s"
    and "refund_swap_check (pg_server cfg cl srv) h rid (world s) = (r, w)"
  shows "agree_system ((set_world w s)\<lparr>sys_refunds := sys_refunds s - {(h, rid)},
    sys_released := (if isl r then sys_released s else insert h (sys_released s))\<rparr>)"
  using assms(3)
proof (rule refund_swap_check_cases)
  fix c assume c: "has_pending_or_complete_payment cl h (sys_node s) = (c, snd w)"
    and w: "labels (fst w) = labels (sys_db s)" "if isl r then locks (fst w) = locks (sys_db s) \<or>
       locks (fst w) = (locks (sys_db s))(h := filter (\<lambda>k. refund_id k \<noteq> Some rid) (locks (sys_db s) h))
     else locks (fst w) = locks (sys_db s) \<and> c = Inr False"
  from assms(1) have p: "possible (sys_node s)"
    and a: "agree (locks (sys_db s)) (labels (sys_db s)) (view (sys_node s)) (sys_payers s) (sys_refunds s)
      (sys_released s) (sys_historic s)" by (simp_all add: agree_system_def)
  note moves = check_moves [OF p c]
  have a': "agree (locks (sys_db s)) (labels (sys_db s)) (view (snd w)) (sys_payers s) (sys_refunds s)
      (sys_released s) (sys_historic s)" using agree_settle [OF a] moves by blast
  show ?thesis
  proof (cases "isl r")
    case True
    with w agree_refund_unlock [OF a' assms(2)] moves
      agree_forget [OF a', of "sys_payers s" "sys_refunds s - {(h, rid)}" "sys_historic s"]
    show ?thesis by (auto simp: agree_system_def set_world_def)
  next
    case False
    with w have "c = Inr False" "locks (fst w) = locks (sys_db s)" by simp_all
    with agree_release [OF a' assms(2)] check_false [OF p] c w(1) moves False show ?thesis
      by (simp add: agree_system_def set_world_def)
  qed
qed

lemma monitor_agree:
  assumes "agree_system s" and "a \<in> set (sys_historic s)"
    and "do_check_payments (pg_payment_monitor cfg cl as d) [a] (world s) = (r, w)"
  shows "agree_system (set_world w s)"
  using assms(3)
proof (rule check_payment_cases)
  fix x assume x: "get_payment_state cl (pa_payment_hash a) (pa_label a) (sys_node s) = (x, snd w)"
    and w: "labels (fst w) = labels (sys_db s)" "locks (fst w) = locks (sys_db s) \<or>
      locks (fst w) = (locks (sys_db s))(pa_payment_hash a :=
        filter (\<lambda>k. payment_attempt_label k \<noteq> Some (pa_label a)) (locks (sys_db s) (pa_payment_hash a)))"
  have "possible (sys_node s)" using assms(1) by (simp add: agree_system_def)
  from state_moves [OF this x] w show ?thesis
    using waiting_label(3) [OF assms(1)] assms(2) by (intro agree_system_moves [OF assms(1)]) auto
qed

lemma preimage_agree:
  assumes "agree_system s"
    and "query_preimage (pg_preimage_monitor cfg cr cl order d) h (world s) = (r, w)"
  shows "agree_system (set_world w s)"
  using assms(2)
proof (rule query_preimage_cases)
  fix x assume x: "get_preimage cl h (sys_node s) = (x, snd w)" and w: "labels (fst w) = labels (sys_db s)"
    "locks (fst w) = locks (sys_db s) \<or> (\<exists>p. x = Inr (Some p) \<and>
      locks (fst w) = (locks (sys_db s))(h := filter (\<lambda>k. payment_attempt_label k \<noteq> Some (pi_label p)) (locks (sys_db s) h)))"
  have p: "possible (sys_node s)" using assms(1) by (simp add: agree_system_def)
  define l where "l = (case x of Inr (Some y) \<Rightarrow> pi_label y | _ \<Rightarrow> [])"
  have "l \<in> insert [] (np_label ` set (view (sys_node s)))"
    using preimage_label [OF p] x by (auto simp: l_def split: sum.splits option.splits)
  then have "pa_label a \<noteq> l" if "(a, False) \<in> sys_payers s" for a
    using waiting_label(1,2) [OF assms(1) that] by auto
  with preimage_moves [OF p x] w show ?thesis
    by (intro agree_system_moves [OF assms(1), where h = h and l = l]) (auto simp: l_def)
qed

lemma step_agree:
  assumes "step False cfg cl view possible srv s s'" and "agree_system s" and "map_order_ok cfg"
  shows "agree_system s'"
  using assms(1)
proof cases
  case (Faults fs)
  with assms(2) show ?thesis by (simp add: agree_system_def)
next
  case (Add_swap sw r db)
  with assms(2) add_swap_cases [OF Add_swap(2)] show ?thesis by (simp add: agree_system_def)
next
  case (Pay_lock a r w)
  with assms(2) pay_swap_lock_cases [OF Pay_lock(3)] show ?thesis
    by (auto simp: agree_system_def set_world_def split: if_splits intro: agree_pay_lock)
next
  case (Pay_send a n)
  with agree_pay_send assms(2) show ?thesis by (simp add: agree_system_def)
next
  case (Pay_error p)
  with agree_forget [of _ _ _ "sys_payers s" _ _ _ "sys_payers s - {p}"] assms(2) show ?thesis
    by (auto simp: agree_system_def)
next
  case (Node_moves n)
  with agree_settle assms(2) show ?thesis by (auto simp: agree_system_def)
next
  case (Pay_result a res r w)
  have "agree_system (set_world w s)"
    using pay_swap_finish_cases [OF Pay_result(3)] waiting_label(4) [OF assms(2) _ Pay_result(2)] assms(2)
    by (intro agree_system_moves [OF assms(2)]) (auto simp: agree_system_def)
  with agree_forget [of _ _ _ "sys_payers s" _ _ _ "sys_payers s - {(a, True)}"] Pay_result(1) show ?thesis
    by (auto simp: agree_system_def set_world_def)
next
  case (Refund_lock rid h r w)
  have new: "\<not> refund_locked (locks (sys_db s)) g rid" for g
    using Refund_lock(2) by (auto simp: refund_locked_def list_ex_iff locks_of_def list_all_iff)
  show ?thesis
    using Refund_lock(1) refund_swap_lock_cases [OF Refund_lock(3)] assms(2) new
    by (auto simp: agree_system_def set_world_def split: if_splits intro: agree_refund_lock)
next
  case (Refund_check h rid r w)
  from refund_check_agree [OF assms(2) Refund_check(2,3)] Refund_check(1) show ?thesis by simp
next
  case (Refund_dropped p)
  with agree_forget [of _ _ _ "sys_payers s" "sys_refunds s" _ _ "sys_payers s" "sys_refunds s - {p}"] assms(2)
  show ?thesis by (auto simp: agree_system_def)
next
  case (Monitor_check a "as" d r w)
  have "agree_system (set_world w s)" by (rule monitor_agree [OF assms(2) Monitor_check(2,3)])
  with agree_forget [of _ _ _ _ _ _ "sys_historic s" _ _ "if r = Inr [] then removeAll a (sys_historic s) else sys_historic s"]
  show ?thesis using Monitor_check(1) by (auto simp: agree_system_def set_world_def)
next
  case (Monitor_dropped)
  with agree_forget [of _ _ _ _ _ _ "sys_historic s" _ _ "[]"] assms(2) show ?thesis by (auto simp: agree_system_def)
next
  case (Preimage_query cr order d h r w)
  show ?thesis unfolding Preimage_query(1) by (rule preimage_agree [OF assms(2) Preimage_query(2)])
next
  case (Restart r db)
  show ?thesis
    using unhandled_cases [OF Restart(2) assms(3)] Restart(1) assms(2)
    by (auto simp: agree_system_def split: sum.split intro: agree_load)
next
  case (Second_process "as" db)
  then show ?thesis by simp
qed

lemma reachable_agree:
  assumes "reachable False cfg cl view possible srv s" and "map_order_ok cfg"
  shows "agree_system s"
  using assms
proof induction
  case (Start n fs)
  then show ?case
    by (simp add: agree_system_def agree_def initial_system_def empty_swap_db_def locks_of_def labels_of_def exclusive_def)
next
  case (Next s s')
  then show ?case by (blast intro: step_agree)
qed

lemma released_failed:
  assumes "reachable False cfg cl view possible srv s" and "map_order_ok cfg"
    and "h \<in> sys_released s" and "q \<in> set (view (sys_node s))" and "np_hash q = h"
  shows "np_state q = NodeFailed"
  using reachable_agree [OF assms(1,2)] agreeD(10) assms(3-5) unfolding agree_system_def by blast

end

section \<open>Concrete states of the tables\<close>

definition ex_attempt_row :: "bool option \<Rightarrow> string option \<Rightarrow> attempt_row" where
  "ex_attempt_row success err =
     \<lparr>ar_id = 1, ar_swap_payment_hash = of_b32 77, ar_label = ''77-6'', ar_creation_time = 6,
      ar_amount_msat = 1000000, ar_payment_request = ''lnbc'', ar_destination = [2],
      ar_success = success, ar_error = err\<rparr>"

definition ex_attempt_db :: "bool option \<Rightarrow> string option \<Rightarrow> lock_row list \<Rightarrow> swap_db pg" where
  "ex_attempt_db success err ls =
     \<lparr>pg_data = \<lparr>db_swaps = [swap_row_of ex_swap 5], db_attempts = [ex_attempt_row success err],
        db_attempt_outputs = [\<lparr>ao_attempt_id = 1, ao_tx_id = 7, ao_output_index = 0\<rparr>],
        db_locks = ls, db_next_attempt = 2\<rparr>, pg_faults = []\<rparr>"

definition ex_pay_lock :: lock_row where
  "ex_pay_lock = \<lparr>lr_swap_payment_hash = of_b32 77, lr_refund_id = None, lr_payment_attempt_label = Some ''77-6''\<rparr>"

definition ex_refund_lock :: lock_row where
  "ex_refund_lock = \<lparr>lr_swap_payment_hash = of_b32 77, lr_refund_id = Some ''r'', lr_payment_attempt_label = None\<rparr>"

definition ex_locked :: "swap_db pg" where "ex_locked = ex_attempt_db None None [ex_pay_lock]"
definition ex_cancelled :: "swap_db pg" where "ex_cancelled = ex_attempt_db (Some False) (Some ''cancelled'') []"
definition ex_refunding :: "swap_db pg" where "ex_refunding = ex_attempt_db (Some False) (Some ''cancelled'') [ex_refund_lock]"

lemmas ex_dbs = ex_locked_def ex_cancelled_def ex_refunding_def ex_attempt_db_def ex_attempt_row_def
  ex_pay_lock_def ex_refund_lock_def
lemmas ex_run = transact_def Let_def lock_swap_for_update_def seq_def map_err_def sql_run attempt_def on_fst_def

lemma ex_attempt_fields [simp]: "pa_payment_hash ex_attempt = 77" "pa_label ex_attempt = ''77-6''"
  by (simp_all add: ex_attempt_def)

lemma ex_swap_hash [simp]: "sr_payment_hash (swap_row_of ex_swap 5) = of_b32 77"
  by (simp add: swap_row_of_def ex_swap_def)

lemma ex_add: "pg_add_swap ex_swap \<lparr>pg_data = empty_swap_db, pg_faults = []\<rparr> = (Inr (), ex_swap_db)"
  by (simp add: ex_swap_db_def pg_add_swap_def seq_def map_err_def sql_run insert_swap_def ex_swap_def
      secs_of_time_def of_option_def empty_swap_db_def)

lemma ex_swap_db_eq:
  "ex_swap_db = \<lparr>pg_data = empty_swap_db\<lparr>db_swaps := [swap_row_of ex_swap 5]\<rparr>, pg_faults = []\<rparr>"
  by (simp add: ex_swap_db_def pg_add_swap_def seq_def map_err_def sql_run insert_swap_def ex_swap_def
      secs_of_time_def of_option_def empty_swap_db_def)

lemma ex_pay_locks: "pay_swap_lock (pg_server cfg cl srv) ex_attempt (ex_swap_db, n) = (Inr (), (ex_locked, n))"
  by (simp add: pay_swap_lock_def pg_lock_add_payment_attempt_def ex_run ex_swap_db_eq ex_dbs ex_attempt_def
      insert_lock_def insert_attempt_def insert_attempt_outputs_def secs_of_time_def of_option_def empty_swap_db_def)

lemma ex_unlocks:
  "pg_unlock_add_payment_result 77 ''77-6'' (PaymentFailure ''cancelled'') ex_locked = (Inr (), ex_cancelled)"
  by (simp add: pg_unlock_add_payment_result_def ex_run ex_dbs delete_locks_def store_result_def update_attempts_def)

lemma ex_refund_locks:
  "refund_swap_lock (pg_server cfg cl srv) 77 ''r'' (ex_cancelled, n) = (Inr (), (ex_refunding, n))"
  by (simp add: refund_swap_lock_def pg_lock_swap_refund_def ex_run ex_dbs insert_lock_def)

lemma ex_free: "labels ex_swap_db = {}" "db_locks (pg_data ex_cancelled) = []"
  by (simp_all add: labels_of_def ex_swap_db_eq empty_swap_db_def ex_cancelled_def ex_attempt_db_def)

end
