(* ===== verification/Lnd_Client.thy ===== *)
theory Lnd_Client
  imports Swap_Protocol
begin

text \<open>
  The LND client (\<open>lnd/client.rs\<close>) with its repository of labels (\<open>lnd/repository.rs\<close>,
  \<open>postgresql/lnd_repository.rs\<close>) and its wallet (\<open>lnd/wallet.rs\<close>).

  The node is outside of the repository: its calls are the operations of \<open>lnd_rpc\<close>, a stream is the
  list of the messages it will yield, each an error or an update, and its end is the end of the
  list. The attempts inside an update are only logged, which changes no state: of them the texts of a
  route and of the source of a failure are modelled. \<open>?\<close> on the error of a call is \<open>ConnectionFailed\<close>
  (\<open>From<tonic::Status>\<close> of the crate).
\<close>

section \<open>The node's calls\<close>

datatype lnd_status = LndUnknown | LndInFlight | LndSucceeded | LndFailed | LndInitiated

record lnd_payment =
  lp_payment_preimage :: string
  lp_status :: lnd_status
  lp_failure_reason :: string
  lp_payment_index :: u64

text \<open>The code of a status; 5 is \<open>NotFound\<close>.\<close>

record rpc_status =
  rpc_code :: nat
  rpc_message :: string

type_synonym lnd_stream = "(rpc_status + lnd_payment) list"

record 'w lnd_rpc =
  lnd_connect :: "('w, unit, unit) op"
  lnd_list_payments :: "bool \<Rightarrow> u64 \<Rightarrow> u64 \<Rightarrow> ('w, rpc_status, lnd_payment list) op"
  lnd_track_payment :: "bytes \<Rightarrow> ('w, rpc_status, lnd_stream) op"
  lnd_reset_mission_control :: "('w, rpc_status, unit) op"
  lnd_send_payment :: "string \<Rightarrow> i64 \<Rightarrow> i32 \<Rightarrow> i32 \<Rightarrow> ('w, rpc_status, lnd_stream) op"
  lnd_new_address :: "('w, rpc_status, string) op"

section \<open>The labels\<close>

datatype lnd_repository_error = LndRepositoryGeneral boxed_error

record 'w lnd_repository =
  add_label :: "label \<Rightarrow> u64 \<Rightarrow> ('w, lnd_repository_error, unit) op"
  get_label :: "u64 \<Rightarrow> ('w, lnd_repository_error, label option) op"
  get_payment_index :: "label \<Rightarrow> ('w, lnd_repository_error, u64 option) op"

record lnd_row =
  ld_payment_index :: i64
  ld_label :: label

definition lnd_err :: "sqlx_error \<Rightarrow> lnd_repository_error" where
  "lnd_err e = LndRepositoryGeneral (BoxSqlx e)"

text \<open>Both columns are unique.\<close>

definition insert_label :: "lnd_row \<Rightarrow> lnd_row list \<Rightarrow> sqlx_error + (unit \<times> lnd_row list)" where
  "insert_label row rows =
     (if ld_payment_index row \<in> ld_payment_index ` set rows then Inl (SqlxDatabase (Some ''lnd_payments_pkey''))
      else if ld_label row \<in> ld_label ` set rows then Inl (SqlxDatabase (Some ''lnd_payments_label_key''))
      else Inr ((), rows @ [row]))"

definition pg_add_label :: "label \<Rightarrow> u64 \<Rightarrow> (lnd_row list pg, lnd_repository_error, unit) op" where
  "pg_add_label l i = map_err lnd_err (stmt (insert_label \<lparr>ld_payment_index = i, ld_label = l\<rparr>))"

definition pg_get_label :: "u64 \<Rightarrow> (lnd_row list pg, lnd_repository_error, label option) op" where
  "pg_get_label i =
     seq (map_err lnd_err (query (\<lambda>rows. first_row (filter (\<lambda>r. ld_payment_index r = i) rows)))) (\<lambda>row.
     ret (map_option ld_label row))"

definition pg_get_payment_index :: "label \<Rightarrow> (lnd_row list pg, lnd_repository_error, u64 option) op" where
  "pg_get_payment_index l =
     seq (map_err lnd_err (query (\<lambda>rows. first_row (filter (\<lambda>r. ld_label r = l) rows)))) (\<lambda>row.
     ret (map_option ld_payment_index row))"

definition pg_lnd_repository :: "lnd_row list pg lnd_repository" where
  "pg_lnd_repository =
     \<lparr>add_label = pg_add_label, get_label = pg_get_label, get_payment_index = pg_get_payment_index\<rparr>"

section \<open>The client\<close>

text \<open>\<open>hex::decode\<close>, parsing an address, and the text of an error are parameters.\<close>

record 'w lnd_client =
  lc_rpc :: "'w lnd_rpc"
  lc_repository :: "'w lnd_repository"
  lc_network :: network
  lc_lib :: bitcoin_lib
  hex_decode :: "string \<Rightarrow> bytes option"
  error_text :: "boxed_error \<Rightarrow> string"

definition lnd_get_client :: "'w lnd_client \<Rightarrow> ('w, lightning_error, unit) op" where
  "lnd_get_client lc = map_err (\<lambda>_. ConnectionFailed) (lnd_connect (lc_rpc lc))"

fun of_lnd_repository_error :: "'w lnd_client \<Rightarrow> lnd_repository_error \<Rightarrow> lightning_error" where
  "of_lnd_repository_error lc (LndRepositoryGeneral e) = LightningGeneral (error_text lc e)"

definition decode_preimage :: "'w lnd_client \<Rightarrow> lnd_payment \<Rightarrow> lightning_error + preimage" where
  "decode_preimage lc p =
     bind_res (of_option LightningInvalidPreimage (hex_decode lc (lp_payment_preimage p))) (\<lambda>bs.
     of_option LightningInvalidPreimage (to_b32 bs))"

text \<open>The first message of the stream that follows a payment hash; \<open>absent\<close> is the answer to
  \<open>NotFound\<close>.\<close>

definition track_payment ::
    "'w lnd_client \<Rightarrow> sha256 \<Rightarrow> ('w, lightning_error, 'a) op \<Rightarrow> (lnd_payment \<Rightarrow> ('w, lightning_error, 'a) op) \<Rightarrow>
     ('w, lightning_error, 'a) op" where
  "track_payment lc h absent found =
     attempt (lnd_track_payment (lc_rpc lc) (of_b32 h)) (\<lambda>r.
       case r of
         Inl e \<Rightarrow> if rpc_code e = 5 then absent else fail (LightningGeneral (rpc_message e))
       | Inr stream \<Rightarrow>
           (case stream of
              [] \<Rightarrow> fail ConnectionFailed
            | Inl e # _ \<Rightarrow> fail ConnectionFailed
            | Inr p # _ \<Rightarrow> found p))"

definition state_of_payment :: "'w lnd_client \<Rightarrow> lnd_payment \<Rightarrow> lightning_error + payment_state" where
  "state_of_payment lc p =
     (case lp_status p of
        LndSucceeded \<Rightarrow> bind_res (decode_preimage lc p) (\<lambda>x. Inr (StateSuccess x))
      | LndFailed \<Rightarrow> Inr (StateFailure (lp_failure_reason p))
      | _ \<Rightarrow> Inr StatePending)"

definition lnd_get_payment_state ::
    "'w lnd_client \<Rightarrow> sha256 \<Rightarrow> label \<Rightarrow> ('w, lightning_error, payment_state) op" where
  "lnd_get_payment_state lc h l =
     seq (map_err (of_lnd_repository_error lc) (get_payment_index (lc_repository lc) l)) (\<lambda>payment_index.
     seq (lnd_get_client lc) (\<lambda>_.
     seq (lnd_get_client lc) (\<lambda>_.
     seq (case payment_index of
            None \<Rightarrow> ret None
          | Some i \<Rightarrow>
              seq (map_err (\<lambda>_. ConnectionFailed) (lnd_list_payments (lc_rpc lc) True i 1)) (\<lambda>payments.
              ret (first_row payments))) (\<lambda>payment.
     seq (case payment of
            Some p \<Rightarrow> ret p
          | None \<Rightarrow> track_payment lc h (fail PaymentNotFound) ret) (\<lambda>p.
     lift_res (state_of_payment lc p))))))"

definition lnd_get_preimage ::
    "'w lnd_client \<Rightarrow> sha256 \<Rightarrow> ('w, lightning_error, preimage_result option) op" where
  "lnd_get_preimage lc h =
     seq (lnd_get_client lc) (\<lambda>_.
     track_payment lc h (ret None) (\<lambda>p.
       if lp_payment_preimage p = [] then ret None
       else if lp_payment_preimage p = replicate 64 CHR ''0'' then ret None
       else
         seq (lift_res (decode_preimage lc p)) (\<lambda>preimage.
         seq (map_err (of_lnd_repository_error lc) (get_label (lc_repository lc) (lp_payment_index p))) (\<lambda>l.
         ret (Some \<lparr>pi_preimage = preimage, pi_label = (case l of None \<Rightarrow> '''' | Some l \<Rightarrow> l)\<rparr>)))))"

definition lnd_has_pending_or_complete_payment ::
    "'w lnd_client \<Rightarrow> sha256 \<Rightarrow> ('w, lightning_error, bool) op" where
  "lnd_has_pending_or_complete_payment lc h =
     seq (lnd_get_client lc) (\<lambda>_. track_payment lc h (ret False) (\<lambda>p. ret (lp_status p \<noteq> LndFailed)))"

text \<open>The loop over the updates; the label is recorded with the first.\<close>

fun pay_updates ::
    "'w lnd_client \<Rightarrow> label \<Rightarrow> bool \<Rightarrow> lnd_stream \<Rightarrow> ('w, lightning_error, payment_result) op" where
  "pay_updates lc l is_first [] = fail (LightningGeneral ''did not receive final update from payment'')"
| "pay_updates lc l is_first (Inl e # us) = fail ConnectionFailed"
| "pay_updates lc l is_first (Inr u # us) =
     seq (if is_first
          then map_err (of_lnd_repository_error lc) (add_label (lc_repository lc) l (lp_payment_index u))
          else ret ()) (\<lambda>_.
     case lp_status u of
       LndSucceeded \<Rightarrow> lift_res (bind_res (decode_preimage lc u) (\<lambda>x. Inr (PaymentSuccess x)))
     | LndFailed \<Rightarrow> ret (PaymentFailure (lp_failure_reason u))
     | _ \<Rightarrow> pay_updates lc l False us)"

definition lnd_pay :: "'w lnd_client \<Rightarrow> payment_request \<Rightarrow> ('w, lightning_error, payment_result) op" where
  "lnd_pay lc req =
     seq (lnd_get_client lc) (\<lambda>_.
     seq (map_err (\<lambda>_. ConnectionFailed) (lnd_reset_mission_control (lc_rpc lc))) (\<lambda>_.
     seq (map_err (\<lambda>_. ConnectionFailed) (lnd_send_payment (lc_rpc lc) (bolt11 req)
            (fee_limit_msat req) (ucast (timeout_seconds req)) (cltv_limit req))) (\<lambda>stream.
     pay_updates lc (pr_label req) True stream)))"

definition lnd_lightning_client :: "'w lnd_client \<Rightarrow> 'w lightning_client" where
  "lnd_lightning_client lc =
     \<lparr>get_payment_state = lnd_get_payment_state lc, get_preimage = lnd_get_preimage lc,
      has_pending_or_complete_payment = lnd_has_pending_or_complete_payment lc, pay = lnd_pay lc\<rparr>"

section \<open>What is logged of an attempt\<close>

unbundle bit_operations_syntax

definition short_channel_id_to_string :: "u64 \<Rightarrow> string" where
  "short_channel_id_to_string scid =
     (let block = drop_bit 40 scid AND 0xffffff;
          tx_index = drop_bit 16 scid AND 0xffffff;
          outnum = scid AND 0xffff in
      show_nat (unat block) @ ''x'' @ show_nat (unat tx_index) @ ''x'' @ show_nat (unat outnum))"

text \<open>The hops of a route are the ids of their channels.\<close>

definition hops_to_string :: "u64 list \<Rightarrow> string" where
  "hops_to_string hops =
     (case hops of
        [] \<Rightarrow> ''''
      | hop # rest \<Rightarrow>
          fold (\<lambda>h result. result @ '' -> '' @ short_channel_id_to_string h) rest (short_channel_id_to_string hop))"

definition failure_source :: "u64 list option \<Rightarrow> u32 \<Rightarrow> string" where
  "failure_source route source_index =
     (case route of
        None \<Rightarrow> ''unknown''
      | Some hops \<Rightarrow>
          if length hops > unat source_index then short_channel_id_to_string (hops ! unat source_index)
          else ''unknown'')"

lemma digits_before_x:
  assumes "xs @ ''x'' @ s = ys @ ''x'' @ t" and "list_all digit xs" and "list_all digit ys"
  shows "xs = ys \<and> s = t"
proof -
  have "CHR ''x'' \<notin> set zs" if "list_all digit zs" for zs using that by (auto simp: list_all_iff digit_def)
  then have "takeWhile (\<lambda>c. c \<noteq> CHR ''x'') (zs @ ''x'' @ u) = zs" if "list_all digit zs" for zs u
    using that by (subst takeWhile_append2) auto
  with assms have "xs = ys" by metis
  with assms(1) show ?thesis by simp
qed

text \<open>Different channels are logged differently.\<close>

lemma short_channel_id_inj: "short_channel_id_to_string a = short_channel_id_to_string b \<Longrightarrow> a = b"
proof -
  assume eq: "short_channel_id_to_string a = short_channel_id_to_string b"
  have show_inj: "m = n" if "show_nat m = show_nat n" for m n
    using that digits_value_show by (metis of_nat_eq_iff)
  have d: "list_all digit (show_nat n)" for n using show_nat_digits by blast
  note parts = eq [unfolded short_channel_id_to_string_def Let_def]
  from digits_before_x [OF parts d d] have 1: "drop_bit 40 a AND 0xffffff = drop_bit 40 b AND 0xffffff"
    and rest: "show_nat (unat (drop_bit 16 a AND 0xffffff)) @ ''x'' @ show_nat (unat (a AND 0xffff)) =
      show_nat (unat (drop_bit 16 b AND 0xffffff)) @ ''x'' @ show_nat (unat (b AND 0xffff))"
    using show_inj by (auto simp: word_unat_eq_iff)
  from digits_before_x [OF rest d d] have two: "drop_bit 16 a AND 0xffffff = drop_bit 16 b AND 0xffffff"
    and 3: "a AND 0xffff = b AND 0xffff"
    using show_inj by (auto simp: word_unat_eq_iff)
  show "a = b"
  proof (rule bit_word_eqI)
    fix n assume n: "n < LENGTH(64)"
    have m24: "(0xffffff :: 64 word) = mask 24" and m16: "(0xffff :: 64 word) = mask 16" by (simp_all add: mask_eq_exp_minus_1)
    consider "n < 16" | "16 \<le> n" "n < 40" | "40 \<le> n" by linarith
    then show "bit a n = bit b n"
    proof cases
      case 1
      then show ?thesis using arg_cong [OF 3, of "\<lambda>w. bit w n"] by (simp add: m16 bit_simps)
    next
      case 2
      then have "n - 16 < 64" "n - 16 < 24" by simp_all
      then show ?thesis using 2 arg_cong [OF two, of "\<lambda>w. bit w (n - 16)"] by (simp add: m24 bit_simps)
    next
      case 3
      then have "n - 40 < 64" "n - 40 < 24" using n by simp_all
      with 3 show ?thesis using arg_cong [OF 1, of "\<lambda>w. bit w (n - 40)"] by (simp add: m24 bit_simps)
    qed
  qed
qed

section \<open>The wallet\<close>

definition lnd_wallet :: "'w lnd_client \<Rightarrow> 'w wallet" where
  "lnd_wallet lc =
     seq (map_err (\<lambda>_. WalletGeneral (BoxMsg ''connection failed'')) (lnd_connect (lc_rpc lc))) (\<lambda>_.
     seq (map_err (\<lambda>e. WalletGeneral (BoxMsg (rpc_message e))) (lnd_new_address (lc_rpc lc))) (\<lambda>s.
     lift_res (of_option (InvalidAddress s) (parse_address (lc_lib lc) (lc_network lc) s))))"

section \<open>A node as its interface is documented\<close>

text \<open>
  The payments with the hashes they pay, in the order in which they were made.
  \<open>proto/lnd/lightning.proto\<close> says of \<open>ListPayments\<close> that \<open>index_offset\<close> is exclusive; a hash is
  tracked through its latest payment.
\<close>

type_synonym lnd_node = "(sha256 \<times> lnd_payment) list"

definition listed :: "lnd_node \<Rightarrow> bool \<Rightarrow> u64 \<Rightarrow> u64 \<Rightarrow> lnd_payment list" where
  "listed n incomplete offset max_payments =
     take (unat max_payments)
       (filter (\<lambda>p. offset < lp_payment_index p \<and> (incomplete \<or> lp_status p = LndSucceeded))
         (sort_key lp_payment_index (map snd n)))"

definition latest :: "lnd_node \<Rightarrow> bytes \<Rightarrow> lnd_payment option" where
  "latest n h = map_option snd (find (\<lambda>(g, p). of_b32 g = h) (rev n))"

type_synonym lnd_world = "lnd_row list pg \<times> lnd_node"

definition documented_rpc :: "(string \<Rightarrow> (rpc_status + lnd_payment) list) \<Rightarrow> lnd_world lnd_rpc" where
  "documented_rpc updates =
     \<lparr>lnd_connect = ret (),
      lnd_list_payments = (\<lambda>inc off k w. (Inr (listed (snd w) inc off k), w)),
      lnd_track_payment = (\<lambda>h w. (case latest (snd w) h of
         None \<Rightarrow> Inl \<lparr>rpc_code = 5, rpc_message = ''not found''\<rparr> | Some p \<Rightarrow> Inr [Inr p], w)),
      lnd_reset_mission_control = ret (),
      lnd_send_payment = (\<lambda>req fee timeout cltv. ret (updates req)),
      lnd_new_address = ret ''d''\<rparr>"

definition lnd_on_pg ::
    "(string \<Rightarrow> lnd_stream) \<Rightarrow> (string \<Rightarrow> bytes option) \<Rightarrow> bitcoin_lib \<Rightarrow> lnd_world lnd_client" where
  "lnd_on_pg updates hex lib =
     \<lparr>lc_rpc = documented_rpc updates,
      lc_repository =
        \<lparr>add_label = (\<lambda>l i. on_fst (pg_add_label l i)), get_label = (\<lambda>i. on_fst (pg_get_label i)),
         get_payment_index = (\<lambda>l. on_fst (pg_get_payment_index l))\<rparr>,
      lc_network = ''regtest'', lc_lib = lib, hex_decode = hex, error_text = (\<lambda>_. ''general'')\<rparr>"

lemmas lnd_defs = lnd_on_pg_def documented_rpc_def lnd_get_client_def on_fst_def seq_def map_err_def sql_run

definition label_keys :: "lnd_row list \<Rightarrow> bool" where
  "label_keys rows \<longleftrightarrow> distinct (map ld_label rows) \<and> distinct (map ld_payment_index rows)"

lemma first_row_key:
  assumes "distinct (map key rows)" and "r \<in> set rows"
  shows "first_row (filter (\<lambda>q. key q = key r) rows) = Some r"
proof -
  have "filter (\<lambda>q. key q = key r) rows = [r]"
    using assms
  proof (induction rows)
    case (Cons a rows)
    then have "a = r \<Longrightarrow> filter (\<lambda>q. key q = key r) rows = []" by (auto simp: filter_empty_conv image_iff)
    with Cons show ?case by auto
  qed simp
  then show ?thesis by (simp add: first_row_def)
qed

lemma lnd_reports_listed:
  assumes "label_keys rows" and "\<lparr>ld_payment_index = lp_payment_index p, ld_label = l\<rparr> \<in> set rows"
    and "listed n True (lp_payment_index p) 1 = [q]"
  shows "lnd_get_payment_state (lnd_on_pg updates hex lib) h l (\<lparr>pg_data = rows, pg_faults = []\<rparr>, n) =
    (state_of_payment (lnd_on_pg updates hex lib) q, (\<lparr>pg_data = rows, pg_faults = []\<rparr>, n))"
proof -
  have "first_row (filter (\<lambda>r. ld_label r = l) rows) = Some \<lparr>ld_payment_index = lp_payment_index p, ld_label = l\<rparr>"
    using first_row_key [of ld_label rows, OF _ assms(2)] assms(1) by (simp add: label_keys_def)
  with assms(3) show ?thesis
    by (simp add: lnd_get_payment_state_def lnd_defs pg_get_payment_index_def first_row_def split: option.splits)
qed

text \<open>The payment that is listed first after an index is the one with the next index.\<close>

lemma listed_next:
  assumes "(g, q) \<in> set n" and "i < lp_payment_index q"
    and "\<forall>(g', r)\<in>set n. i < lp_payment_index r \<longrightarrow> r = q \<or> lp_payment_index q < lp_payment_index r"
  shows "listed n True i 1 = [q]"
proof -
  define ls where "ls = filter (\<lambda>r. i < lp_payment_index r) (sort_key lp_payment_index (map snd n))"
  have q: "q \<in> set ls" using assms(1,2) by (force simp: ls_def)
  then obtain x xs where ls: "ls = x # xs" by (cases ls) auto
  have "sorted (map lp_payment_index (sort_key lp_payment_index (map snd n)))" by simp
  then have "sorted (map lp_payment_index ls)" unfolding ls_def by (rule sorted_filter)
  with q ls have le: "lp_payment_index x \<le> lp_payment_index q" by auto
  have "x \<in> set ls" by (simp add: ls)
  then obtain g' where "(g', x) \<in> set n" "i < lp_payment_index x" by (auto simp: ls_def)
  with assms(3) le have "x = q" by fastforce
  then show ?thesis by (simp add: listed_def ls_def [symmetric] ls)
qed

text \<open>C26: the state the client reports for a payment that is not the node's latest is the state of a
  later payment: the index of the payment is passed as an offset that is exclusive, so the first
  payment listed is the one after it. Only when no later payment exists is the hash looked up.\<close>

theorem lnd_reports_later_payment:
  assumes "label_keys rows" and "\<lparr>ld_payment_index = lp_payment_index p, ld_label = l\<rparr> \<in> set rows"
    and "(h, p) \<in> set n" and "(g, q) \<in> set n" and "lp_payment_index p < lp_payment_index q"
  shows "\<exists>(g', q')\<in>set n. lp_payment_index p < lp_payment_index q' \<and>
    lnd_get_payment_state (lnd_on_pg updates hex lib) h l (\<lparr>pg_data = rows, pg_faults = []\<rparr>, n) =
      (state_of_payment (lnd_on_pg updates hex lib) q', (\<lparr>pg_data = rows, pg_faults = []\<rparr>, n))"
proof -
  let ?ls = "filter (\<lambda>r. lp_payment_index p < lp_payment_index r) (sort_key lp_payment_index (map snd n))"
  have "q \<in> set ?ls" using assms(4,5) by force
  then obtain q' qs where ls: "?ls = q' # qs" by (cases ?ls) auto
  then have "q' \<in> set ?ls" by simp
  then obtain g' where q': "(g', q') \<in> set n" "lp_payment_index p < lp_payment_index q'" by auto
  have "listed n True (lp_payment_index p) 1 = [q']" by (simp add: listed_def ls)
  with q' lnd_reports_listed [OF assms(1,2)] show ?thesis by blast
qed

text \<open>The payment that is the node's latest is reported as it is, when it is also the latest of its
  hash.\<close>

lemma lnd_reports_latest_payment:
  assumes "label_keys rows" and "\<lparr>ld_payment_index = lp_payment_index p, ld_label = l\<rparr> \<in> set rows"
    and "latest n (of_b32 h) = Some p" and "\<forall>(g, q)\<in>set n. lp_payment_index q \<le> lp_payment_index p"
  shows "lnd_get_payment_state (lnd_on_pg updates hex lib) h l (\<lparr>pg_data = rows, pg_faults = []\<rparr>, n) =
    (state_of_payment (lnd_on_pg updates hex lib) p, (\<lparr>pg_data = rows, pg_faults = []\<rparr>, n))"
proof -
  have "first_row (filter (\<lambda>r. ld_label r = l) rows) = Some \<lparr>ld_payment_index = lp_payment_index p, ld_label = l\<rparr>"
    using first_row_key [of ld_label rows, OF _ assms(2)] assms(1) by (simp add: label_keys_def)
  moreover have "listed n True (lp_payment_index p) 1 = []"
    using assms(4) by (auto simp: listed_def filter_empty_conv)
  ultimately show ?thesis
    using assms(3)
    by (simp add: lnd_get_payment_state_def lnd_defs pg_get_payment_index_def first_row_def track_payment_def attempt_def
        split: option.splits)
qed

section \<open>What the monitor makes of it\<close>

definition result_of_state :: "payment_state \<Rightarrow> payment_result" where
  "result_of_state st =
     (case st of StateSuccess x \<Rightarrow> PaymentSuccess x | StateFailure e \<Rightarrow> PaymentFailure e
      | StatePending \<Rightarrow> PaymentFailure [])"

lemma check_settled:
  assumes "get_payment_state cl (pa_payment_hash a) (pa_label a) w = (Inr st, w)" and "st \<noteq> StatePending"
    and "has_swap d (pa_payment_hash a)"
  shows "do_check_payments (pg_payment_monitor cfg cl as i) [a] (\<lparr>pg_data = d, pg_faults = []\<rparr>, w) =
    (Inr [], (\<lparr>pg_data = pay_unlock_effect (pa_payment_hash a) (pa_label a) (result_of_state st) d, pg_faults = []\<rparr>, w))"
  using assms
  by (cases st) (simp_all add: attempt_def pg_payment_monitor_def lift_lightning_def on_snd_def record_result_def
      map_err_def seq_def on_fst_def pg_unlock_no_fault result_of_state_def)

text \<open>C27: the historical payment monitor takes the outcome of another payment for that of a payment in
  flight. When the payment that the node made next after it has settled, of whatever hash, then the
  attempt gets that outcome: a failure is recorded and the lock is given up, although the payment can
  still succeed, or the preimage of the other payment is stored as that of the swap.\<close>

theorem lnd_monitor_unlocks_pending:
  assumes "label_keys rows" and "\<lparr>ld_payment_index = lp_payment_index p, ld_label = pa_label a\<rparr> \<in> set rows"
    and "(pa_payment_hash a, p) \<in> set n" and "lp_status p = LndInFlight"
    and "(g, q) \<in> set n" and "lp_payment_index p < lp_payment_index q"
    and "\<forall>(g', r)\<in>set n. lp_payment_index p < lp_payment_index r \<longrightarrow> r = q \<or> lp_payment_index q < lp_payment_index r"
    and "state_of_payment (lnd_on_pg updates hex lib) q = Inr st" and "st \<noteq> StatePending"
    and "has_swap d (pa_payment_hash a)"
  shows "case do_check_payments (pg_payment_monitor cfg (lnd_lightning_client (lnd_on_pg updates hex lib)) as i) [a]
      (\<lparr>pg_data = d, pg_faults = []\<rparr>, \<lparr>pg_data = rows, pg_faults = []\<rparr>, n) of
    (r, s, w) \<Rightarrow> r = Inr [] \<and> w = (\<lparr>pg_data = rows, pg_faults = []\<rparr>, n) \<and>
      (\<forall>k\<in>set (locks_of (pg_data s) (pa_payment_hash a)). payment_attempt_label k \<noteq> Some (pa_label a)) \<and>
      pg_data s = pay_unlock_effect (pa_payment_hash a) (pa_label a) (result_of_state st) d"
proof -
  from lnd_reports_listed [OF assms(1,2) listed_next [OF assms(5-7)]] assms(8)
  have "get_payment_state (lnd_lightning_client (lnd_on_pg updates hex lib)) (pa_payment_hash a) (pa_label a)
      (\<lparr>pg_data = rows, pg_faults = []\<rparr>, n) = (Inr st, (\<lparr>pg_data = rows, pg_faults = []\<rparr>, n))"
    by (simp add: lnd_lightning_client_def)
  from check_settled [OF this assms(9,10)] show ?thesis by (simp add: locks_of_effects)
qed

definition ex_lnd_node :: lnd_node where
  "ex_lnd_node =
     [(77, \<lparr>lp_payment_preimage = [], lp_status = LndInFlight, lp_failure_reason = [], lp_payment_index = 1\<rparr>),
      (78, \<lparr>lp_payment_preimage = [], lp_status = LndFailed, lp_failure_reason = ''FAILURE_REASON_NO_ROUTE'',
            lp_payment_index = 2\<rparr>)]"

definition ex_lnd_labels :: "lnd_row list pg" where
  "ex_lnd_labels =
     \<lparr>pg_data = [\<lparr>ld_payment_index = 1, ld_label = ''77-6''\<rparr>, \<lparr>ld_payment_index = 2, ld_label = ''78-7''\<rparr>],
      pg_faults = []\<rparr>"

section \<open>Paying\<close>

definition final_status :: "lnd_status \<Rightarrow> bool" where
  "final_status s \<longleftrightarrow> s = LndSucceeded \<or> s = LndFailed"

definition result_of_update :: "'w lnd_client \<Rightarrow> lnd_payment \<Rightarrow> lightning_error + payment_result" where
  "result_of_update lc u =
     (case lp_status u of
        LndSucceeded \<Rightarrow> bind_res (decode_preimage lc u) (\<lambda>x. Inr (PaymentSuccess x))
      | _ \<Rightarrow> Inr (PaymentFailure (lp_failure_reason u)))"

lemma pay_updates_rest:
  "list_all (\<lambda>u. \<not> final_status (lp_status u)) us \<Longrightarrow> final_status (lp_status u) \<Longrightarrow>
     pay_updates lc l False (map Inr us @ Inr u # rest) w = (result_of_update lc u, w)"
proof (induction us)
  case Nil
  then show ?case by (cases "lp_status u") (auto simp: final_status_def result_of_update_def seq_def)
next
  case (Cons v us)
  then show ?case by (cases "lp_status v") (auto simp: final_status_def seq_def)
qed

lemma pay_updates_first:
  assumes "list_all (\<lambda>u. \<not> final_status (lp_status u)) us" and "final_status (lp_status u)"
    and "add_label (lc_repository lc) l (lp_payment_index (hd (us @ [u]))) w = (Inr (), w')"
  shows "pay_updates lc l True (map Inr us @ Inr u # rest) w = (result_of_update lc u, w')"
proof (cases us)
  case Nil
  with assms show ?thesis
    by (cases "lp_status u") (auto simp: final_status_def result_of_update_def seq_def map_err_def)
next
  case (Cons v vs)
  with assms pay_updates_rest [of vs u lc l rest w'] show ?thesis
    by (cases "lp_status v") (auto simp: final_status_def seq_def map_err_def)
qed

text \<open>A payment through LND returns the outcome of the first final update of the stream, whatever
  comes after it, and has recorded the label under the index of the first update by then, so that
  the label is found by the index and the index by the label; the labels recorded before stay.\<close>

lemma lnd_pay_result:
  assumes "updates (bolt11 req) = map Inr us @ Inr u # rest" and "list_all (\<lambda>u. \<not> final_status (lp_status u)) us"
    and "final_status (lp_status u)" and "i = lp_payment_index (hd (us @ [u]))"
    and "pr_label req \<notin> ld_label ` set rows" and "i \<notin> ld_payment_index ` set rows"
  shows "\<exists>s. lnd_pay (lnd_on_pg updates hex lib) req (\<lparr>pg_data = rows, pg_faults = []\<rparr>, n) =
      (result_of_update (lnd_on_pg updates hex lib) u, (s, n)) \<and>
    pg_get_label i s = (Inr (Some (pr_label req)), s) \<and>
    pg_get_payment_index (pr_label req) s = (Inr (Some i), s) \<and> set rows \<subseteq> set (pg_data s)"
proof -
  let ?s = "\<lparr>pg_data = rows @ [\<lparr>ld_payment_index = i, ld_label = pr_label req\<rparr>], pg_faults = []\<rparr>"
  let ?lc = "lnd_on_pg updates hex lib"
  have "filter (\<lambda>r. ld_payment_index r = i) rows = []" "filter (\<lambda>r. ld_label r = pr_label req) rows = []"
    using assms(5,6) by (auto simp: filter_empty_conv image_iff)
  then have stored: "pg_get_label i ?s = (Inr (Some (pr_label req)), ?s)"
    "pg_get_payment_index (pr_label req) ?s = (Inr (Some i), ?s)"
    by (simp_all add: pg_get_label_def pg_get_payment_index_def seq_def map_err_def sql_run first_row_def)
  have "pg_add_label (pr_label req) i \<lparr>pg_data = rows, pg_faults = []\<rparr> = (Inr (), ?s)"
    using assms(5,6) by (simp add: pg_add_label_def insert_label_def map_err_def sql_run)
  then have add: "add_label (lc_repository ?lc) (pr_label req) (lp_payment_index (hd (us @ [u])))
      (\<lparr>pg_data = rows, pg_faults = []\<rparr>, n) = (Inr (), (?s, n))"
    by (simp add: lnd_on_pg_def on_fst_def assms(4))
  have "lnd_pay ?lc req (\<lparr>pg_data = rows, pg_faults = []\<rparr>, n) =
      pay_updates ?lc (pr_label req) True (map Inr us @ Inr u # rest) (\<lparr>pg_data = rows, pg_faults = []\<rparr>, n)"
    unfolding assms(1) [symmetric] by (simp add: lnd_pay_def lnd_defs)
  with pay_updates_first [OF assms(2,3) add] stored show ?thesis by auto
qed

section \<open>Concrete runs\<close>

lemma ex_label_keys: "label_keys (pg_data ex_lnd_labels)"
  by (simp add: label_keys_def ex_lnd_labels_def)

lemma lnd_reports_later_payment_witness:
  "\<exists>(g', q')\<in>set ex_lnd_node. 1 < lp_payment_index q' \<and>
     lnd_get_payment_state (lnd_on_pg (\<lambda>r. []) (\<lambda>s. None) ex_bitcoin_lib) 77 ''77-6'' (ex_lnd_labels, ex_lnd_node) =
       (state_of_payment (lnd_on_pg (\<lambda>r. []) (\<lambda>s. None) ex_bitcoin_lib) q', (ex_lnd_labels, ex_lnd_node))"
  using lnd_reports_later_payment [OF ex_label_keys, of "snd (hd ex_lnd_node)" "''77-6''" 77 ex_lnd_node 78
      "snd (ex_lnd_node ! 1)" "\<lambda>r. []" "\<lambda>s. None" ex_bitcoin_lib]
  by (simp add: ex_lnd_labels_def ex_lnd_node_def)

lemma lnd_monitor_unlocks_pending_witness:
  "\<exists>s. do_check_payments (pg_payment_monitor ex_swap_cfg
       (lnd_lightning_client (lnd_on_pg (\<lambda>r. []) (\<lambda>s. None) ex_bitcoin_lib)) [] 120)
       [ex_attempt] (ex_locked, ex_lnd_labels, ex_lnd_node) = (Inr [], s, ex_lnd_labels, ex_lnd_node) \<and>
     locks_of (pg_data ex_locked) 77 \<noteq> [] \<and>
     (\<forall>k\<in>set (locks_of (pg_data s) 77). payment_attempt_label k \<noteq> Some ''77-6'') \<and>
     lp_status (the (latest ex_lnd_node (of_b32 77))) = LndInFlight"
proof -
  let ?p = "snd (hd ex_lnd_node)" and ?q = "snd (ex_lnd_node ! 1)"
  let ?lc = "lnd_on_pg (\<lambda>r. []) (\<lambda>s. None) ex_bitcoin_lib"
  have "\<lparr>ld_payment_index = lp_payment_index ?p, ld_label = pa_label ex_attempt\<rparr> \<in> set (pg_data ex_lnd_labels)"
    "(pa_payment_hash ex_attempt, ?p) \<in> set ex_lnd_node" "lp_status ?p = LndInFlight" "(78, ?q) \<in> set ex_lnd_node"
    "lp_payment_index ?p < lp_payment_index ?q"
    "\<forall>(g', r)\<in>set ex_lnd_node. lp_payment_index ?p < lp_payment_index r \<longrightarrow> r = ?q \<or> lp_payment_index ?q < lp_payment_index r"
    "state_of_payment ?lc ?q = Inr (StateFailure ''FAILURE_REASON_NO_ROUTE'')"
    "StateFailure ''FAILURE_REASON_NO_ROUTE'' \<noteq> StatePending"
    "has_swap (pg_data ex_locked) (pa_payment_hash ex_attempt)"
    by (simp_all add: ex_lnd_labels_def ex_lnd_node_def state_of_payment_def has_swap_def ex_dbs)
  note w = lnd_monitor_unlocks_pending [OF ex_label_keys this, of ex_swap_cfg "[]" 120]
  have eta: "\<lparr>pg_data = pg_data ex_locked, pg_faults = []\<rparr> = ex_locked"
    "\<lparr>pg_data = pg_data ex_lnd_labels, pg_faults = []\<rparr> = ex_lnd_labels"
    by (simp_all add: ex_dbs ex_lnd_labels_def)
  have "latest ex_lnd_node (of_b32 77) = Some ?p" by (simp add: latest_def ex_lnd_node_def)
  moreover have "lp_status ?p = LndInFlight" by (simp add: ex_lnd_node_def)
  moreover have "locks_of (pg_data ex_locked) 77 \<noteq> []" by (simp add: ex_dbs locks_of_def)
  ultimately show ?thesis using w [unfolded eta] by (auto split: prod.splits)
qed

end
