(* ===== verification/Cln_Client.thy ===== *)
theory Cln_Client
  imports Public_Server
begin

text \<open>
  The Core Lightning client (\<open>cln/client.rs\<close>) and its wallet (\<open>cln/wallet.rs\<close>).

  The node's calls are the operations of \<open>cln_rpc\<close>; the regular expression that finds the error code
  in a status is matched by \<open>captures\<close>. Two calls that are joined run one after the other here, in the order
  that \<open>cln_second_first\<close> gives for the state; the waits of \<open>wait_payment\<close> complete in the order of
  \<open>cln_completion\<close>. \<open>unwrap\<close> of an absent value is a panic.
\<close>

section \<open>The node's calls\<close>

datatype pays_status = PaysPending | PaysFailed | PaysComplete

datatype sendpays_status = SendpaysPending | SendpaysFailed | SendpaysComplete

record listpays_pay =
  lsp_label :: "string option"
  lsp_status :: pays_status
  lsp_preimage :: "bytes option"

record sendpay =
  sdp_groupid :: u64
  sdp_partid :: "u64 option"
  sdp_preimage :: "bytes option"

record pay_response =
  prs_preimage :: bytes
  prs_status :: pays_status
  prs_warning :: "string option"

record pay_args =
  pya_label :: string
  pya_bolt11 :: string
  pya_maxfee :: u64
  pya_retry_for :: u32
  pya_maxdelay :: u32

text \<open>A status of the transport is its message.\<close>

record 'w cln_rpc =
  cln_connect :: "('w, unit, unit) op"
  cln_list_pays :: "bytes \<Rightarrow> ('w, string, listpays_pay list) op"
  cln_list_send_pays :: "bytes \<Rightarrow> sendpays_status \<Rightarrow> ('w, string, sendpay list) op"
  cln_pay_rpc :: "pay_args \<Rightarrow> ('w, string, pay_response) op"
  cln_wait_send_pay :: "bytes \<Rightarrow> u64 \<Rightarrow> u64 option \<Rightarrow> ('w, string, bytes option) op"
  cln_new_addr :: "('w, string, string option \<times> string option) op"

record 'w cln_client =
  cl_rpc :: "'w cln_rpc"
  cl_network :: network
  cl_lib :: bitcoin_lib
  cln_second_first :: "'w \<Rightarrow> bool"
  cln_completion :: "sendpay list \<Rightarrow> sendpay list"

section \<open>The client\<close>

definition cln_get_client :: "'w cln_client \<Rightarrow> ('w, lightning_error, unit) op" where
  "cln_get_client lc = map_err (\<lambda>_. ConnectionFailed) (cln_connect (cl_rpc lc))"

text \<open>\<open>pay.label()\<close> is the empty string when there is no label.\<close>

definition label_of :: "listpays_pay \<Rightarrow> string" where
  "label_of p = (case lsp_label p of None \<Rightarrow> [] | Some l \<Rightarrow> l)"

definition cln_preimage :: "bytes option \<Rightarrow> lightning_error exn + preimage" where
  "cln_preimage p =
     (case p of
        None \<Rightarrow> Inl Panic
      | Some bs \<Rightarrow> of_option (Err LightningInvalidPreimage) (to_b32 bs))"

definition cln_get_payment_state ::
    "'w cln_client \<Rightarrow> sha256 \<Rightarrow> label \<Rightarrow> ('w, lightning_error exn, payment_state) op" where
  "cln_get_payment_state lc h l =
     seq (map_err Err (cln_get_client lc)) (\<lambda>_.
     seq (map_err (\<lambda>_. Err ConnectionFailed) (cln_list_pays (cl_rpc lc) (of_b32 h))) (\<lambda>pays.
     case find (\<lambda>p. label_of p = l) pays of
       None \<Rightarrow> fail (Err PaymentNotFound)
     | Some p \<Rightarrow>
         (case lsp_status p of
            PaysComplete \<Rightarrow> lift_res (bind_res (cln_preimage (lsp_preimage p)) (\<lambda>x. Inr (StateSuccess x)))
          | PaysPending \<Rightarrow> ret StatePending
          | PaysFailed \<Rightarrow> ret (StateFailure ''payment failed''))))"

definition cln_get_preimage ::
    "'w cln_client \<Rightarrow> sha256 \<Rightarrow> ('w, lightning_error, preimage_result option) op" where
  "cln_get_preimage lc h =
     seq (cln_get_client lc) (\<lambda>_.
     seq (map_err (\<lambda>_. ConnectionFailed) (cln_list_pays (cl_rpc lc) (of_b32 h))) (\<lambda>pays.
     case find (\<lambda>p. lsp_preimage p \<noteq> None) pays of
       None \<Rightarrow> ret None
     | Some p \<Rightarrow>
         seq (lift_res (of_option LightningInvalidPreimage (to_b32 (the (lsp_preimage p))))) (\<lambda>x.
         ret (Some \<lparr>pi_preimage = x, pi_label = label_of p\<rparr>))))"

text \<open>Two calls that are polled together: both run, in one order or the other.\<close>

definition both ::
    "('w \<Rightarrow> bool) \<Rightarrow> ('w, 'e, 'a) op \<Rightarrow> ('w, 'e, 'a) op \<Rightarrow> 'w \<Rightarrow> ('e + 'a) \<times> ('e + 'a) \<times> 'w" where
  "both swap m1 m2 w =
     (if swap w
      then (case m2 w of (r2, w1) \<Rightarrow> (case m1 w1 of (r1, w2) \<Rightarrow> (r1, r2, w2)))
      else (case m1 w of (r1, w1) \<Rightarrow> (case m2 w1 of (r2, w2) \<Rightarrow> (r1, r2, w2))))"

definition cln_has_pending_or_complete_payment ::
    "'w cln_client \<Rightarrow> sha256 \<Rightarrow> ('w, lightning_error, bool) op" where
  "cln_has_pending_or_complete_payment lc h =
     seq (cln_get_client lc) (\<lambda>_ w.
       case both (cln_second_first lc)
           (cln_list_send_pays (cl_rpc lc) (of_b32 h) SendpaysPending)
           (cln_list_send_pays (cl_rpc lc) (of_b32 h) SendpaysComplete) w of
         (Inl _, _, w') \<Rightarrow> (Inl ConnectionFailed, w')
       | (Inr (_ # _), _, w') \<Rightarrow> (Inr True, w')
       | (Inr [], Inl _, w') \<Rightarrow> (Inl ConnectionFailed, w')
       | (Inr [], Inr ps, w') \<Rightarrow> (Inr (ps \<noteq> []), w'))"

definition paid_with :: "bytes \<Rightarrow> lightning_error + payment_result option" where
  "paid_with bs = bind_res (of_option LightningInvalidPreimage (to_b32 bs)) (\<lambda>x. Inr (Some (PaymentSuccess x)))"

text \<open>
  The regular expression \<open>Some\((?<code>-?\d+)\)\<close>: the match at a position, and the first position
  with one. A digit is one of the ten of ASCII; any other that the expression takes fails to parse.
\<close>

fun sign_prefix :: "string \<Rightarrow> string \<times> string" where
  "sign_prefix [] = ([], [])"
| "sign_prefix (c # s) = (if c = CHR ''-'' then ([c], s) else ([], c # s))"

definition match_code :: "string \<Rightarrow> string option" where
  "match_code s =
     (if take 5 s \<noteq> ''Some('' then None
      else case sign_prefix (drop 5 s) of (sign, r) \<Rightarrow>
        if takeWhile digit r \<noteq> [] \<and> take 1 (dropWhile digit r) = '')''
        then Some (sign @ takeWhile digit r) else None)"

fun captures :: "string \<Rightarrow> string option" where
  "captures [] = None"
| "captures (c # s) = (case match_code (c # s) of Some code \<Rightarrow> Some code | None \<Rightarrow> captures s)"

text \<open>\<open>parse::<i32>()\<close> of a captured text.\<close>

definition parse_i32 :: "string \<Rightarrow> int option" where
  "parse_i32 s =
     (let n = (case sign_prefix s of (sign, ds) \<Rightarrow> if sign = [] then digits_value ds else - digits_value ds) in
      if - (2 ^ 31) \<le> n \<and> n < 2 ^ 31 then Some n else None)"

definition parse_cln_error :: "string \<Rightarrow> int option" where
  "parse_cln_error status = Option.bind (captures status) parse_i32"

text \<open>The codes of failures that leave the payment settled.\<close>

definition failed_part_codes :: "int list" where
  "failed_part_codes = [202, 203, 204, 208, 209]"

fun wait_parts :: "'w cln_client \<Rightarrow> sha256 \<Rightarrow> sendpay list \<Rightarrow> ('w, lightning_error, payment_result option) op" where
  "wait_parts lc h [] = ret None"
| "wait_parts lc h (p # ps) =
     attempt (cln_wait_send_pay (cl_rpc lc) (of_b32 h) (sdp_groupid p) (sdp_partid p)) (\<lambda>r.
       case r of
         Inr (Some bs) \<Rightarrow> lift_res (paid_with bs)
       | Inr None \<Rightarrow> wait_parts lc h ps
       | Inl status \<Rightarrow>
           (case parse_cln_error status of
              None \<Rightarrow> fail (LightningGeneral status)
            | Some code \<Rightarrow>
                if code \<in> set failed_part_codes then wait_parts lc h ps
                else fail (LightningGeneral status)))"

definition wait_payment :: "'w cln_client \<Rightarrow> sha256 \<Rightarrow> ('w, lightning_error, payment_result option) op" where
  "wait_payment lc h w =
     (case both (cln_second_first lc)
         (cln_list_send_pays (cl_rpc lc) (of_b32 h) SendpaysComplete)
         (cln_list_send_pays (cl_rpc lc) (of_b32 h) SendpaysPending) w of
        (Inl _, _, w') \<Rightarrow> (Inl ConnectionFailed, w')
      | (Inr _, Inl _, w') \<Rightarrow> (Inl ConnectionFailed, w')
      | (Inr completed, Inr pending, w') \<Rightarrow>
          (case List.map_filter sdp_preimage completed of
             bs # _ \<Rightarrow> (paid_with bs, w')
           | [] \<Rightarrow> wait_parts lc h (cln_completion lc pending) w'))"

definition wait_or_fail :: "'w cln_client \<Rightarrow> sha256 \<Rightarrow> ('w, lightning_error, payment_result) op" where
  "wait_or_fail lc h =
     seq (wait_payment lc h) (\<lambda>r.
     case r of Some result \<Rightarrow> ret result | None \<Rightarrow> ret (PaymentFailure ''unknown failure''))"

definition cln_pay :: "'w cln_client \<Rightarrow> payment_request \<Rightarrow> ('w, lightning_error, payment_result) op" where
  "cln_pay lc req =
     seq (cln_get_client lc) (\<lambda>_.
     attempt (cln_pay_rpc (cl_rpc lc)
         \<lparr>pya_label = pr_label req, pya_bolt11 = bolt11 req, pya_maxfee = fee_limit_msat req,
          pya_retry_for = ucast (timeout_seconds req), pya_maxdelay = cltv_limit req\<rparr>) (\<lambda>r.
       case r of
         Inl e \<Rightarrow> wait_or_fail lc (pr_payment_hash req)
       | Inr resp \<Rightarrow>
           (case prs_status resp of
              PaysComplete \<Rightarrow>
                seq (lift_res (of_option LightningInvalidPreimage (to_b32 (prs_preimage resp)))) (\<lambda>x.
                ret (PaymentSuccess x))
            | PaysPending \<Rightarrow> wait_or_fail lc (pr_payment_hash req)
            | PaysFailed \<Rightarrow>
                (case prs_warning resp of
                   Some w \<Rightarrow> wait_or_fail lc (pr_payment_hash req)
                 | None \<Rightarrow> ret (PaymentFailure ''unknown failure'')))))"

definition cln_wallet :: "'w cln_client \<Rightarrow> 'w wallet" where
  "cln_wallet lc =
     seq (map_err (\<lambda>_. WalletGeneral (BoxMsg ''connection failed'')) (cln_connect (cl_rpc lc))) (\<lambda>_.
     seq (map_err (\<lambda>e. WalletGeneral (BoxMsg e)) (cln_new_addr (cl_rpc lc))) (\<lambda>(bech32, p2tr).
     case (if bech32 \<noteq> None then bech32 else p2tr) of
       None \<Rightarrow> fail CreationFailed
     | Some s \<Rightarrow> lift_res (of_option (InvalidAddress s) (parse_address (cl_lib lc) (cl_network lc) s))))"

section \<open>What the node's interface promises\<close>

text \<open>
  The parts of the payments on the node. \<open>listsendpays\<close> documents that it lists the parts of the hash it
  is given, restricted to the status it is given; any call may fail, and the node goes on while it is
  asked: a part that has settled stays as it is, a pending one may settle, and there may be new ones.
\<close>

record part =
  pt_hash :: bytes
  pt_group :: u64
  pt_part :: "u64 option"
  pt_status :: sendpays_status
  pt_preimage :: bytes

definition same_part :: "part \<Rightarrow> part \<Rightarrow> bool" where
  "same_part p q \<longleftrightarrow> pt_hash p = pt_hash q \<and> pt_group p = pt_group q \<and> pt_part p = pt_part q"

definition part_goes_on :: "part \<Rightarrow> part \<Rightarrow> bool" where
  "part_goes_on p q \<longleftrightarrow> same_part p q \<and> (pt_status p \<noteq> SendpaysPending \<longrightarrow> q = p)"

definition parts_go_on :: "part list \<Rightarrow> part list \<Rightarrow> bool" where
  "parts_go_on ps qs \<longleftrightarrow> (\<forall>p\<in>set ps. \<exists>q\<in>set qs. part_goes_on p q)"

definition parts_of :: "bytes \<Rightarrow> sendpays_status \<Rightarrow> part list \<Rightarrow> part list" where
  "parts_of h st = filter (\<lambda>p. pt_hash p = h \<and> pt_status p = st)"

definition sendpay_of :: "part \<Rightarrow> sendpay" where
  "sendpay_of p =
     \<lparr>sdp_groupid = pt_group p, sdp_partid = pt_part p,
      sdp_preimage = (if pt_status p = SendpaysComplete then Some (pt_preimage p) else None)\<rparr>"

definition goes_on :: "('w \<Rightarrow> bool) \<Rightarrow> ('w \<Rightarrow> part list) \<Rightarrow> ('w, 'e, 'a) op \<Rightarrow> bool" where
  "goes_on ok parts m \<longleftrightarrow> (\<forall>w. ok w \<longrightarrow> ok (snd (m w)) \<and> parts_go_on (parts w) (parts (snd (m w))))"

definition lists_parts :: "('w \<Rightarrow> bool) \<Rightarrow> 'w cln_rpc \<Rightarrow> ('w \<Rightarrow> part list) \<Rightarrow> bool" where
  "lists_parts ok rpc parts \<longleftrightarrow>
     goes_on ok parts (cln_connect rpc) \<and>
     (\<forall>h st. goes_on ok parts (cln_list_send_pays rpc h st)) \<and>
     (\<forall>h st w. ok w \<longrightarrow>
        fst (cln_list_send_pays rpc h st w) \<in> insert (Inr (map sendpay_of (parts_of h st (parts w)))) (range Inl))"

lemma part_goes_on_trans: "part_goes_on p q \<Longrightarrow> part_goes_on q r \<Longrightarrow> part_goes_on p r"
  by (auto simp: part_goes_on_def same_part_def)

lemma parts_go_on_trans: "parts_go_on ps qs \<Longrightarrow> parts_go_on qs rs \<Longrightarrow> parts_go_on ps rs"
  unfolding parts_go_on_def by (meson part_goes_on_trans)

lemma connect_goes_on:
  assumes "lists_parts ok rpc parts" and "ok w" and "cln_connect rpc w = (c, w')"
  shows "ok w'" and "parts_go_on (parts w) (parts w')"
  using assms unfolding lists_parts_def goes_on_def by (metis snd_conv)+

lemma list_send_pays_Inr:
  assumes "lists_parts ok rpc parts" and "ok w" and "cln_list_send_pays rpc h st w = (Inr ps, w')"
  shows "ps = map sendpay_of (parts_of h st (parts w))" and "ok w'" and "parts_go_on (parts w) (parts w')"
proof -
  have "fst (cln_list_send_pays rpc h st w) \<in> insert (Inr (map sendpay_of (parts_of h st (parts w)))) (range Inl)"
    using assms(1,2) unfolding lists_parts_def by blast
  then show "ps = map sendpay_of (parts_of h st (parts w))" using assms(3) by auto
  show "ok w'" "parts_go_on (parts w) (parts w')"
    using assms unfolding lists_parts_def goes_on_def by (metis snd_conv)+
qed

text \<open>The answer \<open>false\<close>, with the states in which the two questions were answered.\<close>

lemma cln_check_run:
  assumes "lists_parts ok (cl_rpc lc) parts" and "\<forall>w. \<not> cln_second_first lc w" and "ok w"
    and "cln_has_pending_or_complete_payment lc h w = (Inr False, w')"
  obtains w1 w2 where "cln_connect (cl_rpc lc) w = (Inr (), w1)" and "ok w1"
    and "cln_list_send_pays (cl_rpc lc) (of_b32 h) SendpaysPending w1 = (Inr [], w2)"
    and "parts_of (of_b32 h) SendpaysPending (parts w1) = []" and "ok w2"
    and "cln_list_send_pays (cl_rpc lc) (of_b32 h) SendpaysComplete w2 = (Inr [], w')"
    and "parts_of (of_b32 h) SendpaysComplete (parts w2) = []" and "ok w'"
proof -
  let ?list = "cln_list_send_pays (cl_rpc lc) (of_b32 h)"
  obtain c w1 where c: "cln_connect (cl_rpc lc) w = (c, w1)" by fastforce
  obtain ps w2 where ps: "?list SendpaysPending w1 = (ps, w2)" by fastforce
  obtain cs w3 where cs: "?list SendpaysComplete w2 = (cs, w3)" by fastforce
  have run: "c = Inr () \<and> ps = Inr [] \<and> cs = Inr [] \<and> w3 = w'"
    using assms(2,4) c ps cs
    by (cases c) (auto simp: cln_has_pending_or_complete_payment_def cln_get_client_def seq_def map_err_def both_def
        split: sum.splits list.splits)
  have 1: "ok w1" by (rule connect_goes_on [OF assms(1,3) c])
  note 2 = list_send_pays_Inr [OF assms(1) 1, of _ _ "[]" w2]
  from run ps have "ok w2" using 2(2) by blast
  from list_send_pays_Inr [OF assms(1) this, of "of_b32 h" SendpaysComplete "[]" w'] run cs 2 [of "of_b32 h" SendpaysPending] ps c 1
  show thesis by (intro that) auto
qed

text \<open>C28: when the pending parts are asked for before the complete ones, the answer \<open>false\<close> of
  \<open>has_pending_or_complete_payment\<close> is right for any node that keeps to its documentation, although
  parts settle and new ones are made while it is asked: every part of the payment hash that the node
  had when the check began has failed when it ends.\<close>

theorem cln_check_sound:
  assumes "lists_parts ok (cl_rpc lc) parts" and "\<forall>w. \<not> cln_second_first lc w" and "ok w"
    and "cln_has_pending_or_complete_payment lc h w = (Inr False, w')"
    and "p \<in> set (parts w)" and "pt_hash p = of_b32 h"
  shows "\<exists>q\<in>set (parts w'). same_part p q \<and> pt_status q = SendpaysFailed"
proof (rule cln_check_run [OF assms(1-4)])
  fix w1 w2
  assume c: "cln_connect (cl_rpc lc) w = (Inr (), w1)" and ok: "ok w1" "ok w2"
    and ps: "cln_list_send_pays (cl_rpc lc) (of_b32 h) SendpaysPending w1 = (Inr [], w2)"
      "parts_of (of_b32 h) SendpaysPending (parts w1) = []"
    and cs: "cln_list_send_pays (cl_rpc lc) (of_b32 h) SendpaysComplete w2 = (Inr [], w')"
      "parts_of (of_b32 h) SendpaysComplete (parts w2) = []"
  from connect_goes_on(2) [OF assms(1,3) c] assms(5) obtain q where q: "q \<in> set (parts w1)" "same_part p q"
    by (auto simp: parts_go_on_def part_goes_on_def)
  have h: "pt_hash q = of_b32 h" using q(2) assms(6) by (simp add: same_part_def)
  then have settled: "pt_status q \<noteq> SendpaysPending" using ps(2) q(1) by (auto simp: parts_of_def filter_empty_conv)
  then have q2: "q \<in> set (parts w2)"
    using list_send_pays_Inr(3) [OF assms(1) ok(1) ps(1)] q(1) by (auto simp: parts_go_on_def part_goes_on_def)
  with settled have q3: "q \<in> set (parts w')"
    using list_send_pays_Inr(3) [OF assms(1) ok(2) cs(1)] by (auto simp: parts_go_on_def part_goes_on_def)
  have "pt_status q \<noteq> SendpaysComplete" using cs(2) h q2 by (auto simp: parts_of_def filter_empty_conv)
  with settled have "pt_status q = SendpaysFailed" by (cases "pt_status q") simp_all
  with q(2) q3 show ?thesis by blast
qed

text \<open>The code of a failure is found in the message, whatever is around it.\<close>

lemma captures_skip: "CHR ''S'' \<notin> set p \<Longrightarrow> captures (p @ s) = captures s"
  by (induction p) (auto simp: match_code_def)

lemma parse_cln_error_shown:
  assumes "CHR ''S'' \<notin> set p" and "n < 2 ^ 31"
  shows "parse_cln_error (p @ ''Some('' @ show_nat n @ '')'' @ q) = Some (int n)"
proof -
  obtain c ds where n: "show_nat n = c # ds" "digit c" "list_all digit ds"
    using show_nat_digits [of n] by (cases "show_nat n") auto
  then have "c \<noteq> CHR ''-''" by (auto simp: digit_def)
  moreover have "takeWhile digit (c # ds @ '')'' @ q) = c # ds" "dropWhile digit (c # ds @ '')'' @ q) = '')'' @ q"
    using n(2,3) by (simp_all add: digit_def list_all_iff takeWhile_append2 dropWhile_append2)
  ultimately have "match_code (''Some('' @ show_nat n @ '')'' @ q) = Some (show_nat n)"
    by (simp add: match_code_def n(1))
  then have "captures (p @ ''Some('' @ show_nat n @ '')'' @ q) = Some (show_nat n)"
    using captures_skip [OF assms(1)] by simp
  moreover have "sign_prefix (show_nat n) = ([], show_nat n)" using \<open>c \<noteq> CHR ''-''\<close> by (simp add: n(1))
  ultimately show ?thesis using assms(2) by (simp add: parse_cln_error_def parse_i32_def)
qed

text \<open>C29: nothing in the code asks for that order. When the node answers the question for complete parts
  first, and every part of the hash that is pending then has settled before the other question,
  nothing is found, whatever has completed in between: the check before a refund says that there is
  no payment, and \<open>pay\<close>, when its call has failed, reports the payment as failed, with the part
  complete on the node.\<close>

theorem cln_check_misses_settling:
  assumes "lists_parts ok (cl_rpc lc) parts" and "ok w" and "cln_completion lc [] = []"
    and "cln_connect (cl_rpc lc) w = (Inr (), w1)"
    and "cln_list_send_pays (cl_rpc lc) (of_b32 h) SendpaysComplete w1 = (Inr cs, w2)"
    and "cln_list_send_pays (cl_rpc lc) (of_b32 h) SendpaysPending w2 = (Inr ps, w3)"
    and "parts_of (of_b32 h) SendpaysComplete (parts w1) = []"
    and "parts_of (of_b32 h) SendpaysPending (parts w2) = []"
    and "p \<in> set (parts w2)" and "pt_status p = SendpaysComplete"
  shows "cln_has_pending_or_complete_payment (lc\<lparr>cln_second_first := \<lambda>_. True\<rparr>) h w = (Inr False, w3) \<and>
    wait_or_fail (lc\<lparr>cln_second_first := \<lambda>_. False\<rparr>) h w1 = (Inr (PaymentFailure ''unknown failure''), w3) \<and>
    p \<in> set (parts w3)"
proof -
  note 1 = connect_goes_on(1) [OF assms(1,2,4)]
  note 2 = list_send_pays_Inr [OF assms(1) 1 assms(5)]
  note 3 = list_send_pays_Inr [OF assms(1) 2(2) assms(6)]
  have none: "cs = []" "ps = []" using 2(1) 3(1) assms(7,8) by simp_all
  have "p \<in> set (parts w3)" using 3(3) assms(9,10) by (auto simp: parts_go_on_def part_goes_on_def)
  with assms(3-6) none show ?thesis
    by (simp add: cln_has_pending_or_complete_payment_def cln_get_client_def seq_def map_err_def both_def
        wait_or_fail_def wait_payment_def List.map_filter_def)
qed

section \<open>A node whose parts settle while it is asked\<close>

text \<open>
  The node's payments, and its future as the list of its states: a call is answered from the first,
  and then time passes. The list of truth values says which calls fail.
\<close>

record cln_payment =
  cp_hash :: sha256
  cp_label :: label
  cp_parts :: "part list"

type_synonym cln_node = "bool list \<times> cln_payment list list"

fun passes :: "'s list \<Rightarrow> 's list" where
  "passes (s # s' # ss) = s' # ss"
| "passes ss = ss"

definition answers_from :: "(cln_payment list \<Rightarrow> 'a) \<Rightarrow> (cln_node, string, 'a) op" where
  "answers_from f w =
     (case w of
        (True # fs, ss) \<Rightarrow> (Inl ''unavailable'', (fs, passes ss))
      | (fs, ss) \<Rightarrow> (Inr (f (hd ss)), (drop 1 fs, passes ss)))"

definition node_parts :: "cln_node \<Rightarrow> part list" where
  "node_parts w = concat (map cp_parts (hd (snd w)))"

definition pay_status :: "part list \<Rightarrow> pays_status" where
  "pay_status ps =
     (if list_ex (\<lambda>p. pt_status p = SendpaysPending) ps then PaysPending
      else if list_ex (\<lambda>p. pt_status p = SendpaysComplete) ps then PaysComplete else PaysFailed)"

definition pay_of :: "cln_payment \<Rightarrow> listpays_pay" where
  "pay_of p =
     \<lparr>lsp_label = Some (cp_label p), lsp_status = pay_status (cp_parts p),
      lsp_preimage = map_option pt_preimage (find (\<lambda>q. pt_status q = SendpaysComplete) (cp_parts p))\<rparr>"

definition settling_rpc :: "cln_node cln_rpc" where
  "settling_rpc =
     \<lparr>cln_connect = map_err (\<lambda>_. ()) (answers_from (\<lambda>_. ())),
      cln_list_pays = (\<lambda>h. answers_from (\<lambda>s. map pay_of (filter (\<lambda>p. of_b32 (cp_hash p) = h) s))),
      cln_list_send_pays = (\<lambda>h st. answers_from (\<lambda>s. map sendpay_of (parts_of h st (concat (map cp_parts s))))),
      cln_pay_rpc = (\<lambda>args. seq (answers_from (\<lambda>_. ())) (\<lambda>_. fail ''timeout'')),
      cln_wait_send_pay = (\<lambda>h g i. seq (answers_from (\<lambda>_. ())) (\<lambda>_. fail ''Some(202)'')),
      cln_new_addr = answers_from (\<lambda>_. (Some ''d'', None))\<rparr>"

definition settling_client :: "bool \<Rightarrow> cln_node cln_client" where
  "settling_client swap =
     \<lparr>cl_rpc = settling_rpc, cl_network = ''regtest'',
      cl_lib = \<lparr>compute_txid = (\<lambda>t. 1), compute_block_hash = (\<lambda>b. 1), bip34_block_height = (\<lambda>b. None),
        parse_address = (\<lambda>n s. Some s), address_from_script = (\<lambda>n s. None), address_script = (\<lambda>a. [])\<rparr>,
      cln_second_first = (\<lambda>_. swap), cln_completion = id\<rparr>"

lemma answers_from_eq:
  "answers_from f w = (if fst w \<noteq> [] \<and> hd (fst w) then Inl ''unavailable'' else Inr (f (hd (snd w))),
     (drop 1 (fst w), passes (snd w)))"
  by (cases w; cases "fst w") (auto simp: answers_from_def split: list.splits bool.splits)

text \<open>The states that follow each other: a settled part stays, and new parts of a payment are made only
  while one is pending. A payment has at least one part, and a part the hash of its payment.\<close>

definition payment_goes_on :: "cln_payment \<Rightarrow> cln_payment \<Rightarrow> bool" where
  "payment_goes_on p q \<longleftrightarrow> cp_hash q = cp_hash p \<and> cp_label q = cp_label p \<and>
     (\<exists>ps new. cp_parts q = ps @ new \<and> list_all2 part_goes_on (cp_parts p) ps \<and>
        (new \<noteq> [] \<longrightarrow> pay_status (cp_parts p) = PaysPending))"

definition well_formed :: "cln_payment \<Rightarrow> bool" where
  "well_formed p \<longleftrightarrow> cp_parts p \<noteq> [] \<and> list_all (\<lambda>q. pt_hash q = of_b32 (cp_hash p)) (cp_parts p)"

fun coherent :: "cln_payment list list \<Rightarrow> bool" where
  "coherent (s # s' # ss) = (list_all well_formed s \<and> list_all2 payment_goes_on s s' \<and> coherent (s' # ss))"
| "coherent [s] = list_all well_formed s"
| "coherent [] = False"

lemma payment_goes_on_parts:
  "cp_hash q = cp_hash p \<Longrightarrow> cp_label q = cp_label p \<Longrightarrow> list_all2 part_goes_on (cp_parts p) (cp_parts q) \<Longrightarrow>
     payment_goes_on p q"
  by (auto simp: payment_goes_on_def)

lemma coherent_passes: "coherent ss \<Longrightarrow> coherent (passes ss)"
  by (cases ss rule: passes.cases) auto

lemma payment_goes_on_refl: "payment_goes_on p p"
  by (rule payment_goes_on_parts) (auto simp: part_goes_on_def same_part_def intro!: list.rel_refl)

lemma coherent_goes_on: "coherent ss \<Longrightarrow> list_all2 payment_goes_on (hd ss) (hd (passes ss))"
  by (cases ss rule: passes.cases) (auto intro: list.rel_refl payment_goes_on_refl)

lemma payments_parts_go_on:
  assumes "list_all2 payment_goes_on s s'"
  shows "parts_go_on (concat (map cp_parts s)) (concat (map cp_parts s'))"
  using assms
proof (induction rule: list_all2_induct)
  case (Cons p s q s')
  then obtain ps new where q: "cp_parts q = ps @ new" "list_all2 part_goes_on (cp_parts p) ps"
    by (auto simp: payment_goes_on_def)
  have "\<exists>y\<in>set ps. part_goes_on x y" if "x \<in> set (cp_parts p)" for x
    using q(2) that by (induction rule: list_all2_induct) auto
  with Cons.IH q(1) show ?case by (fastforce simp: parts_go_on_def)
qed (simp add: parts_go_on_def)

lemma settling_lists_parts: "lists_parts (\<lambda>w. coherent (snd w)) settling_rpc node_parts"
proof -
  have "goes_on (\<lambda>w. coherent (snd w)) node_parts (answers_from f)" for f :: "cln_payment list \<Rightarrow> 'a"
    by (auto simp: goes_on_def answers_from_eq node_parts_def coherent_passes
        intro!: payments_parts_go_on coherent_goes_on)
  moreover have "goes_on (\<lambda>w. coherent (snd w)) node_parts (map_err g (answers_from f))"
    for f :: "cln_payment list \<Rightarrow> 'a" and g :: "string \<Rightarrow> 'b"
    by (auto simp: goes_on_def map_err_def answers_from_eq node_parts_def coherent_passes
        intro!: payments_parts_go_on coherent_goes_on)
  ultimately show ?thesis
    by (auto simp: lists_parts_def settling_rpc_def answers_from_eq node_parts_def)
qed

text \<open>A payment of two parts, one of which failed before the other completes, beside a payment of
  another hash that stays pending.\<close>

definition ex_part :: "sha256 \<Rightarrow> u64 \<Rightarrow> sendpays_status \<Rightarrow> part" where
  "ex_part h i st = \<lparr>pt_hash = of_b32 h, pt_group = 1, pt_part = Some i, pt_status = st, pt_preimage = of_b32 9\<rparr>"

definition ex_payments :: "sendpays_status \<Rightarrow> cln_payment list" where
  "ex_payments st =
     [\<lparr>cp_hash = 77, cp_label = ''77-6'', cp_parts = [ex_part 77 1 SendpaysFailed, ex_part 77 2 st]\<rparr>,
      \<lparr>cp_hash = 78, cp_label = ''78-7'', cp_parts = [ex_part 78 1 SendpaysPending]\<rparr>]"

text \<open>The second part is pending at first, and settles as \<open>st\<close> after \<open>n\<close> more calls.\<close>

definition ex_cln_node :: "nat \<Rightarrow> sendpays_status \<Rightarrow> cln_node" where
  "ex_cln_node n st = ([], replicate (Suc n) (ex_payments SendpaysPending) @ [ex_payments st])"

lemmas ex_cln_defs = ex_cln_node_def ex_payments_def ex_part_def settling_client_def settling_rpc_def answers_from_eq
  node_parts_def parts_of_def

lemma ex_cln_coherent: "coherent (snd (ex_cln_node n st))"
proof -
  have go: "list_all2 payment_goes_on (ex_payments SendpaysPending) (ex_payments st)" for st
    by (auto simp: ex_payments_def part_goes_on_def same_part_def ex_part_def intro!: payment_goes_on_parts)
  have ok: "list_all well_formed (ex_payments st)" for st
    by (simp add: ex_payments_def well_formed_def ex_part_def)
  have "coherent (replicate (Suc n) (ex_payments SendpaysPending) @ [ex_payments st])"
    by (induction n) (simp_all add: go ok)
  then show ?thesis by (simp add: ex_cln_node_def)
qed

lemma cln_check_sound_witness:
  "\<exists>w'. cln_has_pending_or_complete_payment (settling_client False) 77 (ex_cln_node 0 SendpaysFailed) = (Inr False, w') \<and>
     ex_part 77 2 SendpaysPending \<in> set (node_parts (ex_cln_node 0 SendpaysFailed)) \<and>
     (\<exists>q\<in>set (node_parts w'). same_part (ex_part 77 2 SendpaysPending) q \<and> pt_status q = SendpaysFailed)"
proof -
  have l: "lists_parts (\<lambda>w. coherent (snd w)) (cl_rpc (settling_client False)) node_parts"
    and o: "\<forall>w. \<not> cln_second_first (settling_client False) w"
    using settling_lists_parts by (simp_all add: settling_client_def)
  obtain w' where run: "cln_has_pending_or_complete_payment (settling_client False) 77 (ex_cln_node 0 SendpaysFailed) = (Inr False, w')"
    by (simp add: cln_has_pending_or_complete_payment_def cln_get_client_def seq_def map_err_def both_def ex_cln_defs)
  have p: "ex_part 77 2 SendpaysPending \<in> set (node_parts (ex_cln_node 0 SendpaysFailed))"
    "pt_hash (ex_part 77 2 SendpaysPending) = of_b32 77"
    by (simp_all add: ex_cln_defs)
  from cln_check_sound [OF l o ex_cln_coherent run p] run p(1) show ?thesis by blast
qed

lemma cln_check_misses_settling_witness:
  "\<exists>w3. cln_has_pending_or_complete_payment ((settling_client True)\<lparr>cln_second_first := \<lambda>_. True\<rparr>) 77
       (ex_cln_node 1 SendpaysComplete) = (Inr False, w3) \<and> ex_part 77 2 SendpaysComplete \<in> set (node_parts w3)"
proof -
  let ?lc = "settling_client True" and ?p = "ex_part 77 2 SendpaysComplete" and ?w = "ex_cln_node 1 SendpaysComplete"
  let ?w1 = "([], [ex_payments SendpaysPending, ex_payments SendpaysComplete]) :: cln_node"
  let ?w2 = "([], [ex_payments SendpaysComplete]) :: cln_node"
  have l: "lists_parts (\<lambda>w. coherent (snd w)) (cl_rpc ?lc) node_parts"
    using settling_lists_parts by (simp add: settling_client_def)
  have run: "cln_completion ?lc [] = []" "cln_connect (cl_rpc ?lc) ?w = (Inr (), ?w1)"
    "cln_list_send_pays (cl_rpc ?lc) (of_b32 77) SendpaysComplete ?w1 = (Inr [], ?w2)"
    "cln_list_send_pays (cl_rpc ?lc) (of_b32 77) SendpaysPending ?w2 = (Inr [], ?w2)"
    "parts_of (of_b32 77) SendpaysComplete (node_parts ?w1) = []"
    "parts_of (of_b32 77) SendpaysPending (node_parts ?w2) = []"
    "?p \<in> set (node_parts ?w2)" "pt_status ?p = SendpaysComplete"
    by (simp_all add: ex_cln_defs map_err_def)
  from cln_check_misses_settling [OF l ex_cln_coherent run] show ?thesis by blast
qed

end
