(* ===== verification/Payment_Check.thy ===== *)
theory Payment_Check
  imports Lnd_Client Cln_Client
begin

text \<open>
  The last check before a refund is released: what \<open>refund_swap\<close> as a whole guarantees on top of a client
  that keeps to the interface \<open>payment_check\<close>, and the LND client over a node as documented.
\<close>

section \<open>The interface\<close>

context payment_check
begin

lemma refund_not_live:
  assumes "refund_swap (pg_server cfg client srv) req w = (Inr (sig, nonce), (s', n'))"
    and "has_pending_or_complete_payment client = check"
  shows "\<exists>swap w1 rid n1. refund_swap_prepare (pg_server cfg client srv) req w = (Inr (swap, sig, nonce), w1) \<and>
    refund_locked (locks_of (pg_data s')) (swap_hash (swap_public swap)) rid \<and>
    check (swap_hash (swap_public swap)) n1 = (Inr False, n') \<and>
    (possible n1 \<longrightarrow> \<not> live (swap_hash (swap_public swap)) n')"
proof -
  define sv where "sv = pg_server cfg client srv"
  obtain swap rnd w3 w4 w5 where prep: "refund_swap_prepare sv req w = (Inr (swap, sig, nonce), w3)"
    and lock: "lock_swap_refund (srv_swap_repository sv) (swap_hash (swap_public swap)) (show_hash sv rnd) w4 =
      (Inr (), w5)"
    and check: "has_pending_or_complete_payment (srv_lightning_client sv) (swap_hash (swap_public swap)) w5 =
      (Inr False, (s', n'))"
    using assms(1) unfolding sv_def [symmetric] by (rule refund_swap_Inr)
  from check have ask: "check (swap_hash (swap_public swap)) (snd w5) = (Inr False, n')" "s' = fst w5"
    by (auto simp: sv_def pg_server_def lift_lightning_def on_snd_eq assms(2))
  from lifted_locks.refund_lock_ok [of cfg _ _ w4 "()" w5] lock ask(2)
  have "locks_of (pg_data s') = (locks_of (pg_data (fst w4)))(swap_hash (swap_public swap) :=
      locks_of (pg_data (fst w4)) (swap_hash (swap_public swap)) @
        [\<lparr>refund_id = Some (show_hash sv rnd), payment_attempt_label = None\<rparr>])"
    by (simp add: sv_def pg_server_def)
  then have "refund_locked (locks_of (pg_data s')) (swap_hash (swap_public swap)) (show_hash sv rnd)"
    by (simp add: refund_locked_def)
  with prep ask(1) check_false [OF _ ask(1)] show ?thesis unfolding sv_def [symmetric] by blast
qed

end

section \<open>The check of the LND client\<close>

text \<open>The record of the hash that LND answers from.\<close>

definition lnd_live :: "sha256 \<Rightarrow> lnd_world \<Rightarrow> bool" where
  "lnd_live h w \<longleftrightarrow> (case latest (snd w) (of_b32 h) of None \<Rightarrow> False | Some p \<Rightarrow> lp_status p \<noteq> LndFailed)"

lemma lnd_check_run:
  "has_pending_or_complete_payment (lnd_lightning_client (lnd_on_pg updates hex lib)) h w = (Inr (lnd_live h w), w)"
  by (auto simp: lnd_lightning_client_def lnd_has_pending_or_complete_payment_def lnd_live_def track_payment_def
      attempt_def lnd_defs split: option.split)

interpretation lnd_check: payment_check
    "has_pending_or_complete_payment (lnd_lightning_client (lnd_on_pg updates hex lib))" lnd_live "\<lambda>_. True"
  by unfold_locales (simp add: lnd_check_run)

section \<open>A refund on an LND node\<close>

lemma ex_address_lookup:
  "pg_get_swap_by_address ex_swap_cfg ''a'' ex_swap_db = (Inr \<lparr>ss_swap = ex_swap, ss_preimage = None\<rparr>, ex_swap_db)"
proof -
  have "map_swap_state ex_swap_cfg (swap_row_of ex_swap 5) = Inr \<lparr>ss_swap = ex_swap, ss_preimage = None\<rparr>"
    using map_swap_state_row [OF ex_storable, of 5] by (simp add: ex_swap_def secs_of_time_def)
  moreover have "sr_address (swap_row_of ex_swap 5) = ''a''" by (simp add: swap_row_of_def ex_swap_def)
  ultimately show ?thesis
    by (simp add: pg_get_swap_by_address_def swap_of_rows_def ex_swap_db_eq seq_def map_err_def sql_run first_row_def)
qed

lemma ex_refund_lock: "pg_lock_swap_refund 77 ''h'' ex_swap_db =
    (Inr (), ex_swap_db\<lparr>pg_data := (pg_data ex_swap_db)\<lparr>db_locks := [\<lparr>lr_swap_payment_hash = of_b32 77,
      lr_refund_id = Some ''h'', lr_payment_attempt_label = None\<rparr>]\<rparr>\<rparr>)"
  by (simp add: pg_lock_swap_refund_def ex_run ex_swap_db_eq insert_lock_def empty_swap_db_def)

definition ex_failed_node :: lnd_node where
  "ex_failed_node = [(77, \<lparr>lp_payment_preimage = [], lp_status = LndFailed, lp_failure_reason = ''FAILURE_REASON_NO_ROUTE'', lp_payment_index = 4\<rparr>)]"

lemma ex_refund_on_lnd:
  "\<exists>sig nonce s'. refund_swap (pg_server ex_swap_cfg (lnd_lightning_client (lnd_on_pg updates hex lib)) ex_server)
      \<lparr>rr_transaction = [1], rr_input_index = 0, rr_address = ''a'', rr_pub_nonce = [2]\<rparr>
      (ex_swap_db, \<lparr>pg_data = [], pg_faults = []\<rparr>, ex_failed_node) =
    (Inr (sig, nonce), (s', \<lparr>pg_data = [], pg_faults = []\<rparr>, ex_failed_node))"
  by (simp add: refund_swap_def refund_swap_prepare_def pg_server_def ex_server_def Let_def seq_def map_err_def
      of_option_def lift_swap_repository_def on_fst_def on_snd_def pg_swap_repository_def ex_address_lookup
      ex_refund_tx_def refund_prevout_def ex_client_def ex_funding_def partial_sign_refund_tx_def ex_service_def
      ex_crypto_def taproot_spend_info_def key_agg_cache_def bind_res_def refund_swap_lock_def
      refund_swap_check_def attempt_def ex_bitcoin_lib_def lift_lightning_def ex_swap_def ex_refund_lock
      lnd_check_run lnd_live_def latest_def ex_failed_node_def)

text \<open>C13: on LND, a refund's signature is released only when the node's record of the swap's payment hash is
  absent or failed, with the refund's lock in the database: whatever the invoice of the swap and
  however often it was tried, no payment of the hash can still settle on the node at that time.\<close>

theorem lnd_refund_checked:
  assumes "refund_swap (pg_server cfg (lnd_lightning_client (lnd_on_pg updates hex lib)) srv) req w =
    (Inr (sig, nonce), (s', n'))"
  shows "\<exists>swap w1 rid. refund_swap_prepare (pg_server cfg (lnd_lightning_client (lnd_on_pg updates hex lib)) srv) req w =
      (Inr (swap, sig, nonce), w1) \<and>
    refund_locked (locks_of (pg_data s')) (swap_hash (swap_public swap)) rid \<and>
    (case latest (snd n') (of_b32 (swap_hash (swap_public swap))) of
       None \<Rightarrow> True | Some p \<Rightarrow> lp_status p = LndFailed)"
proof -
  from lnd_check.refund_not_live [OF assms refl] obtain swap w1 rid n1 where
    "refund_swap_prepare (pg_server cfg (lnd_lightning_client (lnd_on_pg updates hex lib)) srv) req w =
      (Inr (swap, sig, nonce), w1)"
    "refund_locked (locks_of (pg_data s')) (swap_hash (swap_public swap)) rid"
    "\<not> lnd_live (swap_hash (swap_public swap)) n'"
    by (auto simp: lnd_check_run)
  then show ?thesis unfolding lnd_live_def by (intro exI [of _ swap] exI) (auto split: option.splits)
qed

lemma lnd_refund_checked_witness:
  "\<forall>updates hex lib. \<exists>sig nonce s' h rid.
     refund_swap (pg_server ex_swap_cfg (lnd_lightning_client (lnd_on_pg updates hex lib)) ex_server)
       \<lparr>rr_transaction = [1], rr_input_index = 0, rr_address = ''a'', rr_pub_nonce = [2]\<rparr>
       (ex_swap_db, \<lparr>pg_data = [], pg_faults = []\<rparr>, ex_failed_node) =
     (Inr (sig, nonce), (s', \<lparr>pg_data = [], pg_faults = []\<rparr>, ex_failed_node)) \<and>
     refund_locked (locks_of (pg_data s')) h rid"
proof (intro allI)
  fix updates :: "string \<Rightarrow> lnd_stream" and hex lib
  obtain sig nonce s' where run: "refund_swap (pg_server ex_swap_cfg
      (lnd_lightning_client (lnd_on_pg updates hex lib)) ex_server)
      \<lparr>rr_transaction = [1], rr_input_index = 0, rr_address = ''a'', rr_pub_nonce = [2]\<rparr>
      (ex_swap_db, \<lparr>pg_data = [], pg_faults = []\<rparr>, ex_failed_node) =
      (Inr (sig, nonce), (s', \<lparr>pg_data = [], pg_faults = []\<rparr>, ex_failed_node))"
    using ex_refund_on_lnd by blast
  from lnd_refund_checked [OF run] run show "\<exists>sig nonce s' h rid.
     refund_swap (pg_server ex_swap_cfg (lnd_lightning_client (lnd_on_pg updates hex lib)) ex_server)
       \<lparr>rr_transaction = [1], rr_input_index = 0, rr_address = ''a'', rr_pub_nonce = [2]\<rparr>
       (ex_swap_db, \<lparr>pg_data = [], pg_faults = []\<rparr>, ex_failed_node) =
     (Inr (sig, nonce), (s', \<lparr>pg_data = [], pg_faults = []\<rparr>, ex_failed_node)) \<and>
     refund_locked (locks_of (pg_data s')) h rid" by blast
qed
end
