(* ===== verification/Refund_Safety.thy ===== *)
theory Refund_Safety
  imports Payment_Check
begin

text \<open>
  The protocol of \<open>Swap_Protocol\<close> on the two kinds of node: the LND client and the Core Lightning client
  provide the interface \<open>lightning_node\<close>, and so no run of one process pays and refunds one swap.
\<close>

section \<open>An LND node\<close>

text \<open>
  The labels that the payments on the node were made with, in their order, beside the node and the table
  of labels. LND makes a payment of a hash again only when the one before it has failed.
\<close>

type_synonym lnd_ledger = "label list \<times> lnd_world"

fun lnd_node_state :: "lnd_status \<Rightarrow> node_state" where
  "lnd_node_state LndFailed = NodeFailed"
| "lnd_node_state LndSucceeded = NodeComplete"
| "lnd_node_state s = NodePending"

definition lnd_view :: "lnd_ledger \<Rightarrow> node" where
  "lnd_view w = map2 (\<lambda>l (h, p). \<lparr>np_hash = h, np_label = l, np_state = lnd_node_state (lp_status p)\<rparr>)
     (fst w) (snd (snd w))"

definition retries :: "lnd_node \<Rightarrow> bool" where
  "retries n \<longleftrightarrow> sorted_wrt (\<lambda>(h, p) (g, q). h = g \<longrightarrow> lp_status p = LndFailed) n"

definition lnd_possible :: "lnd_ledger \<Rightarrow> bool" where
  "lnd_possible w \<longleftrightarrow> length (fst w) = length (snd (snd w)) \<and>
     ld_label ` set (pg_data (fst (snd w))) \<subseteq> set (fst w) \<and> retries (snd (snd w))"

abbreviation "lnd_service updates hex lib \<equiv> lift_lightning (lnd_lightning_client (lnd_on_pg updates hex lib))"

lemma retries_failed:
  assumes "retries n" and "latest n (of_b32 h) = None \<or> lp_status (the (latest n (of_b32 h))) = LndFailed"
    and "(h, p) \<in> set n"
  shows "lp_status p = LndFailed"
  using assms
proof (induction n rule: rev_induct)
  case (snoc x n)
  obtain g q where x: "x = (g, q)" by fastforce
  have "retries n" using snoc.prems(1) by (simp add: retries_def sorted_wrt_append)
  moreover have "h = g \<Longrightarrow> (h, p) \<in> set n \<Longrightarrow> lp_status p = LndFailed"
    using snoc.prems(1) by (auto simp: retries_def sorted_wrt_append x)
  ultimately show ?case
    using snoc.IH snoc.prems(2,3) by (cases "h = g") (auto simp: latest_def x)
qed simp

lemma lnd_view_hash: "q \<in> set (lnd_view w) \<Longrightarrow> \<exists>p. (np_hash q, p) \<in> set (snd (snd w)) \<and> np_state q = lnd_node_state (lp_status p)"
  by (auto simp: lnd_view_def dest!: set_zip_rightD)

lemma lnd_labels: "lnd_possible w \<Longrightarrow> np_label ` set (lnd_view w) = set (fst w)"
proof -
  assume "lnd_possible w"
  then have "map np_label (lnd_view w) = fst w"
    by (auto simp: lnd_view_def lnd_possible_def case_prod_beta comp_def map_fst_zip [of "fst w" "snd (snd w)", simplified])
  then show ?thesis by (metis set_map)
qed

text \<open>The queries leave the tables and the node as they are.\<close>

lemma lnd_calls_keep:
  fixes D n
  defines "P \<equiv> \<lambda>w :: lnd_world. pg_data (fst w) = D \<and> snd w = n"
  shows "keeps P (lnd_get_payment_state (lnd_on_pg updates hex lib) h l)"
    and "keeps P (lnd_get_preimage (lnd_on_pg updates hex lib) h)"
proof -
  let ?lc = "lnd_on_pg updates hex lib"
  have rpc: "keeps P (lnd_connect (lc_rpc ?lc))" "keeps P (lnd_list_payments (lc_rpc ?lc) inc off k)"
    "keeps P (lnd_track_payment (lc_rpc ?lc) b)" for inc off k b
    by (simp_all add: keeps_def lnd_on_pg_def documented_rpc_def)
  have rows: "keeps P (get_payment_index (lc_repository ?lc) l)" "keeps P (get_label (lc_repository ?lc) i)" for i
    by (auto simp: P_def lnd_on_pg_def pg_get_payment_index_def pg_get_label_def on_fst_eq op_iffs map_sum_id_Inr
        seq_def map_err_def split: prod.splits sum.splits dest!: query_keeps_data intro!: keepsI)
  have track: "keeps P (track_payment ?lc h absent found)" if "keeps P absent" "\<And>p. keeps P (found p)" for absent found
    unfolding track_payment_def
    by (intro keeps_attempt rpc) (auto split: sum.split list.split intro: keeps_intro that)
  show "keeps P (lnd_get_payment_state ?lc h l)"
    unfolding lnd_get_payment_state_def lnd_get_client_def
    by (intro keeps_intro rows rpc track)
  show "keeps P (lnd_get_preimage ?lc h)"
    unfolding lnd_get_preimage_def lnd_get_client_def by (intro keeps_intro rows rpc track)
qed

lemma pg_get_label_Some:
  assumes "pg_get_label i s = (Inr (Some l), s')"
  shows "l \<in> ld_label ` set (pg_data s)"
proof -
  let ?rows = "filter (\<lambda>r. ld_payment_index r = i) (pg_data s)"
  from assms have "map_option ld_label (first_row ?rows) = Some l"
    by (auto simp: pg_get_label_def run_Inr dest!: query_Inr)
  then have "l \<in> ld_label ` set ?rows" by (cases ?rows) (auto simp: first_row_def)
  then show ?thesis by auto
qed

lemma lnd_preimage_label:
  assumes "lnd_get_preimage (lnd_on_pg updates hex lib) h w = (Inr (Some x), w')"
  shows "pi_label x \<in> insert [] (ld_label ` set (pg_data (fst w)))"
proof -
  from assms obtain i l s where "pg_get_label i (fst w) = (Inr l, s)"
    and x: "pi_label x = (case l of None \<Rightarrow> [] | Some y \<Rightarrow> y)"
    by (cases "latest (snd w) (of_b32 h)") (auto simp: lnd_get_preimage_def track_payment_def attempt_def run_Inr
        lnd_on_pg_def documented_rpc_def lnd_get_client_def on_fst_eq split: if_splits)
  then show ?thesis using pg_get_label_Some by (cases l) auto
qed

interpretation lnd_node: lightning_node "lnd_service updates hex lib" lnd_view lnd_possible
proof
  let ?lc = "lnd_lightning_client (lnd_on_pg updates hex lib)"
  have moves: "lnd_possible w' \<and> settles (lnd_view w) (lnd_view w')"
    if "lnd_possible w" "on_snd m w = (r, w')" "keeps (\<lambda>v. pg_data (fst v) = pg_data (fst (snd w)) \<and> snd v = snd (snd w)) m"
    for w w' :: lnd_ledger and m :: "(lnd_world, 'e, 'a) op" and r
    using that keepsD [OF that(3), of "snd w" r "snd w'"]
    by (auto simp: on_snd_eq lnd_possible_def lnd_view_def)
  show "lnd_possible w' \<and> settles (lnd_view w) (lnd_view w')"
    if "lnd_possible w" "get_payment_state (lnd_service updates hex lib) h l w = (r, w')" for w h l r w'
    using moves [OF that(1), of "lnd_get_payment_state (lnd_on_pg updates hex lib) h l" r w'] that(2) lnd_calls_keep(1)
    by (simp add: lift_lightning_def lnd_lightning_client_def)
  show "lnd_possible w' \<and> settles (lnd_view w) (lnd_view w')"
    if "lnd_possible w" "get_preimage (lnd_service updates hex lib) h w = (r, w')" for w h r w'
    using moves [OF that(1), of "lnd_get_preimage (lnd_on_pg updates hex lib) h" r w'] that(2) lnd_calls_keep(2)
    by (simp add: lift_lightning_def lnd_lightning_client_def)
  show "pi_label x \<in> insert [] (np_label ` set (lnd_view w))"
    if "lnd_possible w" "get_preimage (lnd_service updates hex lib) h w = (Inr (Some x), w')" for w h x w'
    using lnd_preimage_label [of updates hex lib h "snd w" x "snd w'"] that lnd_labels [OF that(1)]
    by (auto simp: lift_lightning_def lnd_lightning_client_def on_snd_eq lnd_possible_def)
  have check: "w' = w \<and> c = Inr (lnd_live h (snd w))"
    if "has_pending_or_complete_payment (lnd_service updates hex lib) h w = (c, w')" for w h c w'
    using that lnd_check_run [of updates hex lib h "snd w"]
    by (cases w; cases w') (auto simp: lift_lightning_def on_snd_eq)
  show "lnd_possible w' \<and> settles (lnd_view w) (lnd_view w')"
    if "lnd_possible w" "has_pending_or_complete_payment (lnd_service updates hex lib) h w = (c, w')" for w h c w'
    using check [OF that(2)] that(1) by simp
  show "\<not> (\<exists>q\<in>set (lnd_view w'). np_hash q = h \<and> np_state q \<noteq> NodeFailed)"
    if "lnd_possible w" "has_pending_or_complete_payment (lnd_service updates hex lib) h w = (Inr False, w')" for w h w'
  proof -
    have w: "w' = w" "\<not> lnd_live h (snd w)" using check [OF that(2)] by simp_all
    have "lp_status p = LndFailed" if "(h, p) \<in> set (snd (snd w))" for p
      using retries_failed [OF _ _ that] \<open>lnd_possible w\<close> w(2)
      by (auto simp: lnd_possible_def lnd_live_def split: option.splits)
    then show ?thesis using lnd_view_hash [of _ w] w(1) by fastforce
  qed
qed

section \<open>A Core Lightning node\<close>

text \<open>The trait as this client implements it. A panic ends the task that asked; to the tables that is an
  error like any other.\<close>

definition panic_as_error :: "('w, lightning_error exn, 'a) op \<Rightarrow> ('w, lightning_error, 'a) op" where
  "panic_as_error = map_err (\<lambda>e. case e of Err e \<Rightarrow> e | _ \<Rightarrow> LightningGeneral ''panic'')"

definition cln_lightning_client :: "'w cln_client \<Rightarrow> 'w lightning_client" where
  "cln_lightning_client lc =
     \<lparr>get_payment_state = (\<lambda>h l. panic_as_error (cln_get_payment_state lc h l)), get_preimage = cln_get_preimage lc,
      has_pending_or_complete_payment = cln_has_pending_or_complete_payment lc, pay = cln_pay lc\<rparr>"

fun cln_node_state :: "pays_status \<Rightarrow> node_state" where
  "cln_node_state PaysPending = NodePending"
| "cln_node_state PaysComplete = NodeComplete"
| "cln_node_state PaysFailed = NodeFailed"

definition np_of :: "cln_payment \<Rightarrow> node_payment" where
  "np_of p = \<lparr>np_hash = cp_hash p, np_label = cp_label p, np_state = cln_node_state (pay_status (cp_parts p))\<rparr>"

definition cln_view :: "cln_node \<Rightarrow> node" where "cln_view w = map np_of (hd (snd w))"
definition cln_possible :: "cln_node \<Rightarrow> bool" where "cln_possible w \<longleftrightarrow> coherent (snd w)"

lemma cln_node_state_simps [simp]:
  "cln_node_state s = NodePending \<longleftrightarrow> s = PaysPending" "cln_node_state s = NodeComplete \<longleftrightarrow> s = PaysComplete"
  "cln_node_state s = NodeFailed \<longleftrightarrow> s = PaysFailed"
  by (cases s; simp)+

lemma payment_settles: "payment_goes_on p q \<Longrightarrow> settles_to (np_of p) (np_of q)"
proof -
  assume g: "payment_goes_on p q"
  have "cp_parts q = cp_parts p" if "pay_status (cp_parts p) \<noteq> PaysPending"
  proof -
    from g that have all: "list_all2 part_goes_on (cp_parts p) (cp_parts q)" by (auto simp: payment_goes_on_def)
    have "list_all (\<lambda>x. pt_status x \<noteq> SendpaysPending) (cp_parts p)"
      using that by (auto simp: pay_status_def list_ex_iff list_all_iff split: if_splits)
    with all show ?thesis by (induction rule: list_all2_induct) (auto simp: part_goes_on_def)
  qed
  then show ?thesis using g by (auto simp: settles_to_def np_of_def payment_goes_on_def)
qed

lemma cln_passes: "cln_possible w \<Longrightarrow> cln_possible (fs, passes (snd w)) \<and> settles (cln_view w) (cln_view (fs, passes (snd w)))"
  unfolding cln_possible_def cln_view_def
  by (auto simp: coherent_passes list.rel_map intro!: list.rel_mono_strong [OF coherent_goes_on] payment_settles)

abbreviation "cln_reach w v \<equiv> cln_possible v \<and> settles (cln_view w) (cln_view v)"

lemma answers_keep: "keeps (cln_reach w) (answers_from f)"
  using cln_passes settles_trans by (auto simp: keeps_def answers_from_eq)

lemma cln_calls_keep:
  "keeps (cln_reach w) (cln_connect (cl_rpc (settling_client b)))"
  "keeps (cln_reach w) (cln_list_pays (cl_rpc (settling_client b)) h)"
  "keeps (cln_reach w) (cln_list_send_pays (cl_rpc (settling_client b)) h st)"
  by (auto simp: settling_client_def settling_rpc_def intro!: keeps_intro answers_keep)

lemma cln_queries_keep:
  "keeps (cln_reach w) (cln_get_payment_state (settling_client b) h l)"
  "keeps (cln_reach w) (cln_get_preimage (settling_client b) h)"
  "keeps (cln_reach w) (cln_has_pending_or_complete_payment (settling_client b) h)"
proof -
  note calls = cln_calls_keep [of w b]
  have pays: "keeps (cln_reach w) (case x of PaysComplete \<Rightarrow> m1 | PaysPending \<Rightarrow> m2 | PaysFailed \<Rightarrow> m3)"
    if "keeps (cln_reach w) m1" "keeps (cln_reach w) m2" "keeps (cln_reach w) m3"
    for x and m1 m2 m3 :: "(cln_node, 'e, 'a) op" using that by (cases x) simp_all
  show "keeps (cln_reach w) (cln_get_payment_state (settling_client b) h l)"
    unfolding cln_get_payment_state_def cln_get_client_def by (intro keeps_intro calls pays)
  show "keeps (cln_reach w) (cln_get_preimage (settling_client b) h)"
    unfolding cln_get_preimage_def cln_get_client_def by (intro keeps_intro calls)
  have both: "cln_reach w (snd (snd (both swap m1 m2 v)))"
    if "keeps (cln_reach w) m1" "keeps (cln_reach w) m2" "cln_reach w v" for swap v
      and m1 m2 :: "(cln_node, string, sendpay list) op"
  proof -
    have "snd (snd (both swap m1 m2 v)) = (if swap v then snd (m1 (snd (m2 v))) else snd (m2 (snd (m1 v))))"
      by (simp add: both_def case_prod_beta)
    moreover have "cln_reach w (snd (m1 (snd (m2 v))))" "cln_reach w (snd (m2 (snd (m1 v))))"
      using keeps_apply [OF that(1)] keeps_apply [OF that(2)] that(3) by blast+
    ultimately show ?thesis by simp
  qed
  show "keeps (cln_reach w) (cln_has_pending_or_complete_payment (settling_client b) h)"
    unfolding cln_has_pending_or_complete_payment_def cln_get_client_def
  proof (intro keeps_seq keeps_map_err calls keepsI)
    fix v r v'
    let ?list = "cln_list_send_pays (cl_rpc (settling_client b)) (of_b32 h)"
    let ?b = "both (cln_second_first (settling_client b)) (?list SendpaysPending) (?list SendpaysComplete) v"
    assume v: "cln_reach w v" and "(case ?b of (Inl _, _, w') \<Rightarrow> (Inl ConnectionFailed, w')
       | (Inr (_ # _), _, w') \<Rightarrow> (Inr True, w') | (Inr [], Inl _, w') \<Rightarrow> (Inl ConnectionFailed, w')
       | (Inr [], Inr ps, w') \<Rightarrow> (Inr (ps \<noteq> []), w')) = (r, v')"
    then have "v' = snd (snd ?b)" by (simp split: prod.splits sum.splits list.splits)
    with both [OF calls(3) calls(3) v] show "cln_reach w v'" by simp
  qed
qed

lemma cln_no_pending:
  "parts_of (of_b32 h) SendpaysPending (node_parts w) = [] \<Longrightarrow> cln_possible w \<Longrightarrow> q \<in> set (cln_view w) \<Longrightarrow>
     np_hash q = h \<Longrightarrow> np_state q \<noteq> NodePending"
  "parts_of (of_b32 h) SendpaysComplete (node_parts w) = [] \<Longrightarrow> cln_possible w \<Longrightarrow> q \<in> set (cln_view w) \<Longrightarrow>
     np_hash q = h \<Longrightarrow> np_state q \<noteq> NodeComplete"
proof -
  have own: "pt_hash y = of_b32 h" if "cln_possible w" "p \<in> set (hd (snd w))" "cp_hash p = h" "y \<in> set (cp_parts p)" for p y
  proof -
    have "list_all well_formed (hd (snd w))" using that(1) by (cases "snd w" rule: coherent.cases) (auto simp: cln_possible_def)
    with that show ?thesis by (auto simp: list_all_iff well_formed_def)
  qed
  show "np_state q \<noteq> NodePending" if "parts_of (of_b32 h) SendpaysPending (node_parts w) = []" "cln_possible w"
    "q \<in> set (cln_view w)" "np_hash q = h"
    using that own by (fastforce simp: cln_view_def np_of_def pay_status_def list_ex_iff parts_of_def node_parts_def
        filter_empty_conv split: if_splits)
  show "np_state q \<noteq> NodeComplete" if "parts_of (of_b32 h) SendpaysComplete (node_parts w) = []" "cln_possible w"
    "q \<in> set (cln_view w)" "np_hash q = h"
    using that own by (fastforce simp: cln_view_def np_of_def pay_status_def list_ex_iff parts_of_def node_parts_def
        filter_empty_conv split: if_splits)
qed

lemma settles_back: "settles n n' \<Longrightarrow> q' \<in> set n' \<Longrightarrow> \<exists>q\<in>set n. settles_to q q'"
  by (induction rule: list_all2_induct) auto

lemma cln_check_failed:
  assumes "cln_possible w" and "cln_has_pending_or_complete_payment (settling_client False) h w = (Inr False, w')"
  shows "\<forall>q\<in>set (cln_view w'). np_hash q \<in> {h} \<longrightarrow> np_state q = NodeFailed"
proof -
  have l: "lists_parts cln_possible (cl_rpc (settling_client False)) node_parts"
    and o: "\<forall>w. \<not> cln_second_first (settling_client False) w"
    using settling_lists_parts by (simp_all add: settling_client_def cln_possible_def [abs_def])
  let ?list = "cln_list_send_pays (cl_rpc (settling_client False)) (of_b32 h)"
  obtain w1 w2 where 1: "cln_possible w1" "?list SendpaysPending w1 = (Inr [], w2)"
      "parts_of (of_b32 h) SendpaysPending (node_parts w1) = []"
    and 2: "cln_possible w2" "?list SendpaysComplete w2 = (Inr [], w')"
      "parts_of (of_b32 h) SendpaysComplete (node_parts w2) = []"
    by (rule cln_check_run [OF l o assms])
  have m: "settles (cln_view w1) (cln_view w2)" "settles (cln_view w2) (cln_view w')"
    using keepsD [OF cln_calls_keep(3) _ 1(2), of w1] keepsD [OF cln_calls_keep(3) _ 2(2), of w2] 1(1) 2(1) by simp_all
  have "np_state q = NodeFailed" if q: "q \<in> set (cln_view w2)" "np_hash q = h" for q
  proof -
    obtain p where "p \<in> set (cln_view w1)" "settles_to p q" using settles_back [OF m(1) q(1)] by blast
    then have "np_state q \<noteq> NodePending"
      using cln_no_pending(1) [OF 1(3,1), of p] q(2) by (auto simp: settles_to_def)
    with cln_no_pending(2) [OF 2(3,1) q] show ?thesis by (cases "np_state q") simp_all
  qed
  with settles_failed [OF m(2), of "{h}"] show ?thesis by simp
qed

interpretation cln_node: lightning_node "cln_lightning_client (settling_client False)" cln_view cln_possible
proof
  fix w h and r :: "lightning_error + payment_state" and w' l
  assume "cln_possible w" and run: "get_payment_state (cln_lightning_client (settling_client False)) h l w = (r, w')"
  then have "cln_reach w w" by simp
  with keepsD [OF keeps_map_err [OF cln_queries_keep(1)] this] run show "cln_reach w w'"
    unfolding cln_lightning_client_def panic_as_error_def by simp
next
  fix w h and r :: "lightning_error + preimage_result option" and w'
  assume "cln_possible w" and run: "get_preimage (cln_lightning_client (settling_client False)) h w = (r, w')"
  then have "cln_reach w w" by simp
  with keepsD [OF cln_queries_keep(2) this] run show "cln_reach w w'"
    unfolding cln_lightning_client_def by simp
next
  fix w h x w'
  assume p: "cln_possible w" and run: "get_preimage (cln_lightning_client (settling_client False)) h w = (Inr (Some x), w')"
  obtain w1 pays w2 y where w1: "cln_connect (cl_rpc (settling_client False)) w = (Inr (), w1)"
    and pays: "cln_list_pays (cl_rpc (settling_client False)) (of_b32 h) w1 = (Inr pays, w2)"
    and y: "find (\<lambda>p. lsp_preimage p \<noteq> None) pays = Some y" "pi_label x = label_of y"
    using run
    by (auto simp: cln_lightning_client_def cln_get_preimage_def cln_get_client_def run_Inr split: option.splits)
  have "set pays \<subseteq> pay_of ` set (hd (snd w1))"
    using pays by (auto simp: settling_client_def settling_rpc_def answers_from_eq split: if_splits)
  moreover have "y \<in> set pays" using y(1) by (auto simp: find_Some_iff)
  ultimately obtain q where "q \<in> set (hd (snd w1))" "y = pay_of q" by blast
  then have x: "q \<in> set (hd (snd w1))" "pi_label x = cp_label q" using y(2) by (simp_all add: pay_of_def label_of_def)
  have "settles (cln_view w) (cln_view w1)"
    using keepsD [OF cln_calls_keep(1) _ w1, of w] p by simp
  then have "np_label ` set (cln_view w1) = np_label ` set (cln_view w)" using settles_labels by (metis set_map)
  moreover have "pi_label x = np_label (np_of q)" "np_of q \<in> set (cln_view w1)"
    using x by (simp_all add: cln_view_def np_of_def)
  ultimately show "pi_label x \<in> insert [] (np_label ` set (cln_view w))" by blast
next
  fix w h and c :: "lightning_error + bool" and w'
  assume "cln_possible w" and run: "has_pending_or_complete_payment (cln_lightning_client (settling_client False)) h w = (c, w')"
  then have "cln_reach w w" by simp
  with keepsD [OF cln_queries_keep(3) this] run show "cln_reach w w'"
    unfolding cln_lightning_client_def by simp
next
  fix w h w'
  assume "cln_possible w"
    and "has_pending_or_complete_payment (cln_lightning_client (settling_client False)) h w = (Inr False, w')"
  with cln_check_failed show "\<not> (\<exists>q\<in>set (cln_view w'). np_hash q = h \<and> np_state q \<noteq> NodeFailed)"
    by (auto simp: cln_lightning_client_def)
qed

section \<open>Runs on an LND node\<close>

definition ex_ledger :: "lnd_status list \<Rightarrow> lnd_ledger" where
  "ex_ledger sts =
     (map (\<lambda>_. ''77-6'') sts, \<lparr>pg_data = map (\<lambda>_. \<lparr>ld_payment_index = 1, ld_label = ''77-6''\<rparr>) sts, pg_faults = []\<rparr>,
      map (\<lambda>st. (77, \<lparr>lp_payment_preimage = [], lp_status = st, lp_failure_reason = ''FAILURE_REASON_NO_ROUTE'',
        lp_payment_index = 1\<rparr>)) sts)"

definition ex_state :: "swap_db pg \<Rightarrow> lnd_status list \<Rightarrow> (payment_attempt \<times> bool) set \<Rightarrow> lnd_ledger system" where
  "ex_state db sts ps =
     \<lparr>sys_db = db, sys_node = ex_ledger sts, sys_payers = ps, sys_refunds = {}, sys_released = {}, sys_historic = []\<rparr>"

abbreviation "lnd_reachable shared updates hex lib srv \<equiv>
  reachable shared ex_swap_cfg (lnd_service updates hex lib) lnd_view lnd_possible srv"

lemma ex_ledger_possible: "lnd_possible (ex_ledger [])" "lnd_possible (ex_ledger [st])"
  by (simp_all add: lnd_possible_def ex_ledger_def retries_def)

lemma ex_ledger_view: "lnd_view (ex_ledger []) = []"
  "lnd_view (ex_ledger [st]) = [\<lparr>np_hash = 77, np_label = ''77-6'', np_state = lnd_node_state st\<rparr>]"
  by (simp_all add: lnd_view_def ex_ledger_def)

lemma ex_moves: "settles (lnd_view (ex_ledger [LndInFlight])) (lnd_view (ex_ledger [st]))"
  by (simp add: ex_ledger_view settles_to_def)

lemma ex_reach_locked: "lnd_reachable sh updates hex lib srv (ex_state ex_locked [] {(ex_attempt, False)})"
proof -
  have "lnd_reachable sh updates hex lib srv (ex_state \<lparr>pg_data = empty_swap_db, pg_faults = []\<rparr> [] {})"
    using reachable.Start [where n = "ex_ledger []" and possible = lnd_possible and view = lnd_view,
        OF ex_ledger_possible(1) ex_ledger_view(1)]
    by (simp add: ex_state_def initial_system_def)
  from reachable.Next [OF this step.Add_swap [of ex_swap]]
  have "lnd_reachable sh updates hex lib srv (ex_state ex_swap_db [] {})" by (simp add: ex_state_def ex_add)
  from reachable.Next [OF this step.Pay_lock [of ex_attempt]]
  show ?thesis by (simp add: ex_state_def ex_pay_locks set_world_def ex_free)
qed

lemma ex_check_passes:
  assumes "sts = [] \<or> sts = [LndFailed]"
  shows "refund_swap_check (pg_server cfg (lnd_service updates hex lib) srv) 77 ''r'' (db, ex_ledger sts) =
    (Inr (), (db, ex_ledger sts))"
proof -
  have "\<not> lnd_live 77 (snd (ex_ledger sts))" using assms by (auto simp: lnd_live_def latest_def ex_ledger_def)
  then show ?thesis
    by (simp add: refund_swap_check_def attempt_def lift_lightning_def on_snd_def lnd_check_run)
qed

lemma ex_reach_refunded:
  assumes "lnd_reachable sh updates hex lib srv (ex_state ex_cancelled sts ps)" and "sts = [] \<or> sts = [LndFailed]"
  shows "lnd_reachable sh updates hex lib srv ((ex_state ex_refunding sts ps)\<lparr>sys_released := {77}\<rparr>)"
proof -
  from reachable.Next [OF assms(1) step.Refund_lock [where rid = "''r''" and h = 77]]
  have "lnd_reachable sh updates hex lib srv ((ex_state ex_refunding sts ps)\<lparr>sys_refunds := {(77, ''r'')}\<rparr>)"
    by (simp add: ex_state_def ex_refund_locks set_world_def ex_free)
  from reachable.Next [OF this step.Refund_check [where h = 77 and rid = "''r''"]]
  show ?thesis by (simp add: ex_state_def ex_check_passes [OF assms(2)] set_world_def)
qed

lemma ex_reach_sent:
  assumes "lnd_reachable sh updates hex lib srv ((ex_state db [] {(ex_attempt, False)})\<lparr>sys_released := rel\<rparr>)"
  shows "lnd_reachable sh updates hex lib srv ((ex_state db [LndInFlight] {(ex_attempt, True)})\<lparr>sys_released := rel\<rparr>)"
  using reachable.Next [OF assms step.Pay_send [where a = ex_attempt and n = "ex_ledger [LndInFlight]"]]
  by (simp add: ex_state_def ex_ledger_possible ex_ledger_view)

lemma ex_reach_settled:
  assumes "lnd_reachable sh updates hex lib srv ((ex_state db [LndInFlight] ps)\<lparr>sys_released := rel\<rparr>)"
  shows "lnd_reachable sh updates hex lib srv ((ex_state db [st] ps)\<lparr>sys_released := rel\<rparr>)"
  using reachable.Next [OF assms step.Node_moves [where n = "ex_ledger [st]"]] ex_moves [of st]
  by (simp add: ex_state_def ex_ledger_possible)

section \<open>A swap is not paid and refunded\<close>

text \<open>C1: on any node that keeps to the interface \<open>lightning_node\<close>, as LND does through its client and Core
  Lightning through its own when the pending parts are asked for first: in every run of one process on the
  database and the node - payments, refunds, the payment monitor, the preimage monitor, failing
  statements and restarts in any order, with whatever states and results of payments the client
  reports - a swap whose refund signature was released has only failed payments on the node, and none
  that can still settle.\<close>

theorem refund_safety:
  assumes "lightning_node cl view possible"
    and "reachable False cfg cl view possible srv s" and "map_order_ok cfg"
    and "h \<in> sys_released s" and "q \<in> set (view (sys_node s))" and "np_hash q = h"
  shows "np_state q = NodeFailed"
  using lightning_node.released_failed [OF assms(1)] assms(2-6) .

lemma refund_safety_witness:
  "\<forall>updates hex lib srv. \<exists>s. lnd_reachable False updates hex lib srv s \<and> 77 \<in> sys_released s \<and>
     (\<exists>q\<in>set (lnd_view (sys_node s)). np_hash q = 77 \<and> np_state q = NodeFailed)" (is "\<forall>updates hex lib srv. ?P updates hex lib srv")
proof (intro allI)
  fix updates :: "string \<Rightarrow> lnd_stream" and hex lib srv
  let ?failed = "PaymentFailure ''cancelled''"
  have "lnd_reachable False updates hex lib srv (ex_state ex_locked [LndFailed] {(ex_attempt, True)})"
    using ex_reach_settled [OF ex_reach_sent, where db = ex_locked and rel = "{}" and st = LndFailed] ex_reach_locked
    by (simp add: ex_state_def)
  from reachable.Next [OF this step.Pay_result [where a = ex_attempt and res = ?failed]]
  have "lnd_reachable False updates hex lib srv (ex_state ex_cancelled [LndFailed] {})"
    by (simp add: ex_state_def pay_swap_finish_def attempt_def on_fst_def ex_unlocks set_world_def)
  from ex_reach_refunded [OF this]
  have r: "lnd_reachable False updates hex lib srv ((ex_state ex_refunding [LndFailed] {})\<lparr>sys_released := {77}\<rparr>)"
    by simp
  have "map_order_ok ex_swap_cfg" by (simp add: map_order_ok_def ex_swap_cfg_def)
  from refund_safety [OF lnd_node.lightning_node_axioms r this, of 77] r show "?P updates hex lib srv"
    by (fastforce simp: ex_state_def ex_ledger_view)
qed

text \<open>C19: with a second process on the same database and node the guarantee is lost, on LND too. The monitor
  of the second process finds a payment that the first one has locked but not sent yet, hears from the
  node that there is no such payment, and takes the lock away; the refund is signed, and then the first
  process pays.\<close>

theorem second_process_breaks_refund_safety:
  "\<exists>s. lnd_reachable True updates hex lib srv s \<and> 77 \<in> sys_released s \<and>
     (\<exists>q\<in>set (lnd_view (sys_node s)). np_hash q = 77 \<and> np_state q = NodeComplete)"
proof -
  have load: "pg_get_unhandled_payment_attempts ex_swap_cfg ex_locked = (Inr [ex_attempt], ex_locked)"
    by (simp add: pg_get_unhandled_payment_attempts_def ex_run ex_dbs attempt_join_def parse_attempt_def
        entry_or_insert_def modify_entry_def into_values_def ex_swap_cfg_def push_outputs_def output_of_row_def
        bind_res_def of_option_def time_of_secs_def ex_attempt_def)
  have absent: "get_payment_state (lnd_service updates hex lib) 77 ''77-6'' (ex_ledger []) = (Inl PaymentNotFound, ex_ledger [])"
    by (simp add: lift_lightning_def lnd_lightning_client_def on_snd_def lnd_get_payment_state_def lnd_defs
        pg_get_payment_index_def first_row_def track_payment_def attempt_def latest_def ex_ledger_def)
  then have check: "do_check_payments (pg_payment_monitor ex_swap_cfg (lnd_service updates hex lib) as d) [ex_attempt]
      (ex_locked, ex_ledger []) = (Inr [], (ex_cancelled, ex_ledger []))" for "as" d
    by (simp add: attempt_def pg_payment_monitor_def lift_lightning_def on_snd_def record_result_def map_err_def seq_def
        on_fst_def ex_unlocks)
  from reachable.Next [OF ex_reach_locked step.Second_process [OF TrueI, where as = "[ex_attempt]" and db = ex_locked]] load
  have "lnd_reachable True updates hex lib srv ((ex_state ex_locked [] {(ex_attempt, False)})\<lparr>sys_historic := [ex_attempt]\<rparr>)"
    by (simp add: ex_state_def)
  from reachable.Next [OF this step.Monitor_check [where a = ex_attempt]]
  have "lnd_reachable True updates hex lib srv (ex_state ex_cancelled [] {(ex_attempt, False)})"
    by (simp add: ex_state_def check set_world_def del: do_check_payments.simps)
  from ex_reach_refunded [OF this]
  have "lnd_reachable True updates hex lib srv ((ex_state ex_refunding [] {(ex_attempt, False)})\<lparr>sys_released := {77}\<rparr>)"
    by simp
  from ex_reach_settled [OF ex_reach_sent [OF this], where st = LndSucceeded] show ?thesis
    by (intro exI conjI, assumption) (simp_all add: ex_state_def ex_ledger_view)
qed

end
