(* ===== verification/Swap_Binding.thy ===== *)
theory Swap_Binding
  imports Swap_Service Swap_Repository
begin

text \<open>
  What is committed to when a swap is created (\<open>swap/swap_service.rs\<close>), across its storage in the tables: the
  address that the user is given is the one that the stored swap can be claimed from.
\<close>

section \<open>Signing leaves the transaction as it is\<close>

definition without_witnesses :: "transaction \<Rightarrow> transaction" where
  "without_witnesses tx = tx\<lparr>tx_input := map (\<lambda>i. i\<lparr>tx_witness := []\<rparr>) (tx_input tx)\<rparr>"

definition set_witness :: "nat \<Rightarrow> bytes list \<Rightarrow> transaction \<Rightarrow> transaction" where
  "set_witness n wit tx = tx\<lparr>tx_input := (tx_input tx)[n := (tx_input tx ! n)\<lparr>tx_witness := wit\<rparr>]\<rparr>"

lemma set_witness_simps:
  "n < length (tx_input tx) \<Longrightarrow> without_witnesses (set_witness n wit tx) = without_witnesses tx"
  "length (tx_input (set_witness n wit tx)) = length (tx_input tx)"
  "n < length (tx_input tx) \<Longrightarrow> tx_witness (tx_input (set_witness n wit tx) ! n) = wit"
  by (simp_all add: without_witnesses_def set_witness_def map_update) (metis list_update_id nth_map)

text \<open>Every witness is made for the transaction that is returned, up to witnesses.\<close>

lemma sign_inputs_witnesses:
  assumes "sign_inputs sv prevouts (enumerate k cs) tx w = (Inr tx', w')" and "k + length cs \<le> length (tx_input tx)"
  shows "without_witnesses tx' = without_witnesses tx \<and>
    (\<forall>i<k. tx_input tx' ! i = tx_input tx ! i) \<and>
    (\<forall>i<length cs. \<exists>t v v'. without_witnesses t = without_witnesses tx \<and>
       claim_witness sv t prevouts (k + i) (cs ! i) v = (Inr (tx_witness (tx_input tx' ! (k + i))), v'))"
  using assms
proof (induction cs arbitrary: k tx w)
  case (Cons c cs)
  from Cons.prems(1) obtain wit w1 where wit: "claim_witness sv tx prevouts k c w = (Inr wit, w1)"
    and rest: "sign_inputs sv prevouts (enumerate (Suc k) cs) (set_witness k wit tx) w1 = (Inr tx', w')"
    by (auto simp: run_Inr set_witness_def)
  have k: "k < length (tx_input tx)" using Cons.prems(2) by simp
  note set = set_witness_simps(1) [OF k, of wit] set_witness_simps(2) [of k wit tx] set_witness_simps(3) [OF k, of wit]
  from Cons.IH [OF rest] Cons.prems(2) set k
  have ih: "without_witnesses tx' = without_witnesses tx" "\<forall>i<Suc k. tx_input tx' ! i = tx_input (set_witness k wit tx) ! i"
    "\<And>i. i < length cs \<Longrightarrow> \<exists>t v v'. without_witnesses t = without_witnesses tx \<and>
       claim_witness sv t prevouts (Suc k + i) (cs ! i) v = (Inr (tx_witness (tx_input tx' ! (Suc k + i))), v')"
    by simp_all
  have "tx_witness (tx_input tx' ! k) = wit" using ih(2) set(3) by simp
  with wit have at: "\<exists>t v v'. without_witnesses t = without_witnesses tx \<and>
      claim_witness sv t prevouts k c v = (Inr (tx_witness (tx_input tx' ! k)), v')" by auto
  have "\<exists>t v v'. without_witnesses t = without_witnesses tx \<and>
      claim_witness sv t prevouts (k + i) ((c # cs) ! i) v = (Inr (tx_witness (tx_input tx' ! (k + i))), v')"
    if "i < length (c # cs)" for i
    using at ih(3) [of "i - 1"] that by (cases i) simp_all
  moreover have "\<forall>i<k. tx_input tx' ! i = tx_input tx ! i" using ih(2) by (simp add: set_witness_def)
  ultimately show ?case using ih(1) by blast
qed simp

section \<open>From the address to the claim\<close>

lemma spend_info_committed:
  "taproot_spend_info cr (s\<lparr>swap_public := (swap_public s)\<lparr>sp_address := a\<rparr>\<rparr>) = taproot_spend_info cr s"
  "taproot_spend_info cr (s\<lparr>creation_time := t\<rparr>) = taproot_spend_info cr s"
  by (simp_all add: taproot_spend_info_def key_agg_cache_def)

lemma create_swap_Inr:
  assumes "create_swap sv refund_key hash height w = (Inr s, w')"
  obtains info where "taproot_spend_info (sv_crypto sv) s = Inr info"
    and "sp_address (swap_public s) = p2tr_tweaked (sv_crypto sv) (tsi_output_key info) (sv_network sv)"
    and "swap_hash (swap_public s) = hash"
    and "claim_script (swap_public s) = claim_script_of (sv_crypto sv) hash (pubkey_of (sv_crypto sv) (claim_privkey (swap_private s)))"
    and "refund_script (swap_public s) = refund_script_of (sv_crypto sv) refund_key (sv_lock_time sv)"
  using assms by (auto simp: create_swap_def Let_def run_Inr taproot_spend_info_def key_agg_cache_def)

lemma claim_witness_Inr:
  assumes "claim_witness sv t prevouts i c v = (Inr wit, v')"
    and "taproot_spend_info (sv_crypto sv) (cu_swap c) = Inr info"
  obtains sighash rnd ctl where
    "script_spend_sighash (sv_crypto sv) t i prevouts (claim_script (swap_public (cu_swap c))) = Some sighash"
    and "tsi_control_block info (claim_script (swap_public (cu_swap c))) = Some ctl"
    and "wit = [sign_schnorr (sv_crypto sv) sighash (claim_privkey (swap_private (cu_swap c))) rnd, of_b32 (cu_preimage c),
      claim_script (swap_public (cu_swap c)), ctl]"
  using assms by (auto simp: claim_witness_def Let_def run_Inr)

text \<open>C34: a swap that was created, stored and read back can be claimed from the address the user was given.
  A claim transaction over outputs of the swap, made by a later process, has at each of them a witness
  for the leaf of the created swap, which asks for a preimage of the hash of the request: the leaf, its
  control block in the very tree - the claim leaf and the refund leaf with the user's key and the
  relative lock time of the service - whose key the address encodes, and a signature, under the key in the
  leaf, of the transaction that is returned.\<close>

theorem created_swap_claimable:
  assumes "create_swap sv refund_key hash height w = (Inr s, w1)" and "storable cfg s" and "\<not> has_swap d hash"
    and "pg_add_swap s \<lparr>pg_data = d, pg_faults = []\<rparr> = (Inr (), db)"
    and "pg_get_swap_by_hash cfg hash db = (Inr st, db')"
    and "create_claim_tx sv' lib claimables fee tip dest w2 = (Inr tx, w3)" and "sv_crypto sv' = sv_crypto sv"
    and "c \<in> set claimables" and "cu_swap c = ss_swap st"
  shows "\<exists>i info ctl t prevouts sighash rnd leaf.
    i < length (tx_input tx) \<and> previous_output (tx_input tx ! i) = txo_outpoint (cu_utxo c) \<and>
    tx_witness (tx_input tx ! i) =
      [sign_schnorr (sv_crypto sv) sighash (claim_privkey (swap_private s)) rnd, of_b32 (cu_preimage c), leaf, ctl] \<and>
    leaf = claim_script_of (sv_crypto sv) hash (pubkey_of (sv_crypto sv) (claim_privkey (swap_private s))) \<and>
    script_spend_sighash (sv_crypto sv) t i prevouts leaf = Some sighash \<and> without_witnesses t = without_witnesses tx \<and>
    tsi_control_block info leaf = Some ctl \<and>
    (\<exists>key. taproot_build (sv_crypto sv)
       [(1, leaf), (1, refund_script_of (sv_crypto sv) refund_key (sv_lock_time sv))] key = Some info) \<and>
    sp_address (swap_public s) = p2tr_tweaked (sv_crypto sv) (tsi_output_key info) (sv_network sv)"
proof (rule create_swap_Inr [OF assms(1)])
  let ?cr = "sv_crypto sv"
  fix info
  assume info: "taproot_spend_info ?cr s = Inr info"
    and s: "sp_address (swap_public s) = p2tr_tweaked ?cr (tsi_output_key info) (sv_network sv)" "swap_hash (swap_public s) = hash"
      "claim_script (swap_public s) = claim_script_of ?cr hash (pubkey_of ?cr (claim_privkey (swap_private s)))"
      "refund_script (swap_public s) = refund_script_of ?cr refund_key (sv_lock_time sv)"
  define cs where "cs = sort_key (txo_outpoint \<circ> cu_utxo) claimables"
  have "ss_swap st = s\<lparr>creation_time := creation_time s - creation_time s mod nanos_per_sec\<rparr>"
    using added_swap_read [OF assms(2) _ assms(4)] assms(3,5) s(2) by simp
  then have swap: "cu_swap c = s\<lparr>creation_time := creation_time s - creation_time s mod nanos_per_sec\<rparr>"
    using assms(9) by simp
  obtain v where sign: "sign_inputs sv' (map (\<lambda>c. txo_tx_out (cu_utxo c)) cs) (enumerate 0 cs)
      (unsigned_claim_tx cs (ucast tip) (address_script lib dest) v) w2 = (Inr tx, w3)"
    using claim_tx_steps [OF assms(6), folded cs_def] by (elim exE conjE)
  let ?prev = "map (\<lambda>c. txo_tx_out (cu_utxo c)) cs" and ?u = "unsigned_claim_tx cs (ucast tip) (address_script lib dest) v"
  have prev: "map previous_output (tx_input tx) = map (txo_outpoint \<circ> cu_utxo) cs"
    using claim_tx_shape [OF assms(6), folded cs_def] by blast
  have "c \<in> set cs" using assms(8) by (simp add: cs_def)
  then obtain i where i: "i < length cs" "cs ! i = c" by (auto simp: in_set_conv_nth)
  from sign_inputs_witnesses [OF sign] have all: "without_witnesses tx = without_witnesses ?u"
    "\<forall>i<length cs. \<exists>t v v'. without_witnesses t = without_witnesses ?u \<and>
      claim_witness sv' t ?prev i (cs ! i) v = (Inr (tx_witness (tx_input tx ! i)), v')"
    by (simp_all add: unsigned_claim_tx_def)
  then obtain t v1 v2 where t: "without_witnesses t = without_witnesses tx"
    and wit: "claim_witness sv' t ?prev i c v1 = (Inr (tx_witness (tx_input tx ! i)), v2)" using i by metis
  have len: "i < length (tx_input tx)" using i(1) prev by (metis length_map)
  have out: "previous_output (tx_input tx ! i) = txo_outpoint (cu_utxo c)"
    using prev i len by (metis comp_apply nth_map)
  have "taproot_spend_info ?cr (cu_swap c) = Inr info" using info swap spend_info_committed(2) by simp
  then obtain sighash rnd ctl where
    "script_spend_sighash ?cr t i ?prev (claim_script (swap_public (cu_swap c))) = Some sighash"
    "tsi_control_block info (claim_script (swap_public (cu_swap c))) = Some ctl"
    "tx_witness (tx_input tx ! i) = [sign_schnorr ?cr sighash (claim_privkey (swap_private (cu_swap c))) rnd,
      of_b32 (cu_preimage c), claim_script (swap_public (cu_swap c)), ctl]"
    by (rule claim_witness_Inr [OF wit, unfolded assms(7)])
  moreover have "claim_script (swap_public (cu_swap c)) = claim_script (swap_public s)"
    "claim_privkey (swap_private (cu_swap c)) = claim_privkey (swap_private s)" by (simp_all add: swap)
  moreover have "\<exists>key. taproot_build ?cr [(1, claim_script (swap_public s)), (1, refund_script (swap_public s))] key = Some info"
    using info by (auto simp: taproot_spend_info_def bind_res_Inr of_option_Inr)
  ultimately show ?thesis using t len out s by metis
qed

section \<open>A concrete swap\<close>

lemma ex_stored_swap:
  obtains s where "create_swap ex_service [3, 1] 77 100 () = (Inr s, ())" and "storable ex_swap_cfg s"
    and "swap_hash (swap_public s) = 77"
proof -
  have "\<exists>s. create_swap ex_service [3, 1] 77 100 () = (Inr s, ()) \<and> storable ex_swap_cfg s \<and> swap_hash (swap_public s) = 77"
    by (simp add: create_swap_def ex_service_def Let_def seq_def map_err_def ex_crypto_def of_option_def
        taproot_spend_info_def key_agg_cache_def bind_res_def storable_def ex_swap_cfg_def)
  with that show thesis by blast
qed

lemma created_swap_claimable_witness:
  "\<exists>s (st :: swap_state) tx i. create_swap ex_service [3, 1] 77 100 () = (Inr s, ()) \<and> i < length (tx_input tx) \<and>
     create_claim_tx ex_service ex_bitcoin_lib [ex_claimable\<lparr>cu_swap := ss_swap st\<rparr>] \<lparr>sat_per_kw = 253\<rparr> 109 ''d'' () = (Inr tx, ()) \<and>
     previous_output (tx_input tx ! i) = OutPoint 7 0"
proof (rule ex_stored_swap)
  fix s assume s: "create_swap (ex_service :: unit swap_service) [3, 1] 77 100 () = (Inr s, ())" "storable ex_swap_cfg s"
    "swap_hash (swap_public s) = 77"
  have new: "\<not> has_swap empty_swap_db 77" "\<not> has_swap empty_swap_db (swap_hash (swap_public s))"
    by (simp_all add: has_swap_def empty_swap_db_def)
  obtain db where db: "pg_add_swap s \<lparr>pg_data = empty_swap_db, pg_faults = []\<rparr> = (Inr (), db)"
      "\<exists>st. fst (pg_get_swap_by_hash ex_swap_cfg 77 db) = Inr st"
    using add_swap_roundtrip [OF s(2) new(2)] s(3) by (auto split: prod.splits)
  then obtain st db' where st: "pg_get_swap_by_hash ex_swap_cfg 77 db = (Inr st, db')" by (metis prod.collapse)
  let ?c = "ex_claimable\<lparr>cu_swap := ss_swap st\<rparr>"
  have "\<exists>tx. create_claim_tx ex_service ex_bitcoin_lib [?c] \<lparr>sat_per_kw = 253\<rparr> 109 ''d'' () = (Inr tx, ())"
    by (simp add: create_claim_tx_def Let_def seq_def map_err_def of_option_def lock_time_from_height_def checked_add_def
        unsigned_claim_tx_def claim_total_def ex_claimable_def ex_service_def ex_crypto_def ex_bitcoin_lib_def
        saturating_sub_def div_ceil_def claim_witness_def taproot_spend_info_def key_agg_cache_def bind_res_def)
  then obtain tx where tx: "create_claim_tx ex_service ex_bitcoin_lib [?c] \<lparr>sat_per_kw = 253\<rparr> 109 ''d'' () = (Inr tx, ())" ..
  have "cu_swap ?c = ss_swap st" "?c \<in> set [?c]" by simp_all
  from created_swap_claimable [OF s(1,2) new(1) db(1) st tx refl this(2,1)]
  obtain i where "i < length (tx_input tx)" "previous_output (tx_input tx ! i) = txo_outpoint (cu_utxo ?c)" by blast
  moreover from this(2) have "previous_output (tx_input tx ! i) = OutPoint 7 0" by (simp add: ex_claimable_def)
  ultimately show "\<exists>s (st :: swap_state) tx i. create_swap (ex_service :: unit swap_service) [3, 1] 77 100 () = (Inr s, ()) \<and> i < length (tx_input tx) \<and>
     create_claim_tx ex_service ex_bitcoin_lib [ex_claimable\<lparr>cu_swap := ss_swap st\<rparr>] \<lparr>sat_per_kw = 253\<rparr> 109 ''d'' () = (Inr tx, ()) \<and>
     previous_output (tx_input tx ! i) = OutPoint 7 0"
    using s(1) tx by (intro exI [of _ s] exI [of _ st] exI [of _ tx] exI [of _ i] conjI) assumption+
qed

end
