(* ===== verification/Swap_Ledger.thy ===== *)
theory Swap_Ledger
  imports Swap_Repository
begin

text \<open>
  What the swap repository promises, without its tables: a ledger that knows for every swap its
  preimage and whether it is free, being paid, or being refunded. The repository of
  \<open>postgresql/swap_repository.rs\<close> refines it, call by call.
\<close>

section \<open>The ledger\<close>

datatype phase = Free | Paying label | Refunding "string list"

type_synonym ledger = "sha256 \<rightharpoonup> preimage option \<times> phase"

fun paid_with_result :: "payment_result \<Rightarrow> preimage option \<Rightarrow> preimage option" where
  "paid_with_result (PaymentSuccess p) old = Some p"
| "paid_with_result (PaymentFailure e) old = old"

fun refunds_left :: "string \<Rightarrow> phase \<Rightarrow> phase" where
  "refunds_left rid (Refunding rs) =
     (if filter (\<lambda>r. r \<noteq> rid) rs = [] then Free else Refunding (filter (\<lambda>r. r \<noteq> rid) rs))"
| "refunds_left rid ph = ph"

text \<open>The calls that write; \<open>None\<close> is a refusal.\<close>

fun ledger_write :: "swap_call \<Rightarrow> ledger \<Rightarrow> ledger option" where
  "ledger_write (AddSwap s) m =
     (case m (swap_hash (swap_public s)) of
        None \<Rightarrow> Some (m(swap_hash (swap_public s) \<mapsto> (None, Free))) | Some e \<Rightarrow> None)"
| "ledger_write (LockAddPaymentAttempt a) m =
     (case m (pa_payment_hash a) of
        Some (p, Free) \<Rightarrow> Some (m(pa_payment_hash a \<mapsto> (p, Paying (pa_label a)))) | _ \<Rightarrow> None)"
| "ledger_write (LockSwapRefund h rid) m =
     (case m h of
        Some (p, Free) \<Rightarrow> Some (m(h \<mapsto> (p, Refunding [rid])))
      | Some (p, Refunding rs) \<Rightarrow> Some (m(h \<mapsto> (p, Refunding (rs @ [rid]))))
      | _ \<Rightarrow> None)"
| "ledger_write (UnlockAddPaymentResult h l res) m =
     (case m h of
        Some (p, ph) \<Rightarrow> Some (m(h \<mapsto> (paid_with_result res p, if ph = Paying l then Free else ph)))
      | None \<Rightarrow> None)"
| "ledger_write (UnlockSwapRefund h rid) m =
     (case m h of Some (p, ph) \<Rightarrow> Some (m(h \<mapsto> (p, refunds_left rid ph))) | None \<Rightarrow> None)"
| "ledger_write c m = Some m"

section \<open>The tables as a ledger\<close>

definition phase_of :: "swap_lock list \<Rightarrow> phase" where
  "phase_of ks =
     (case List.map_filter payment_attempt_label ks of
        l # _ \<Rightarrow> Paying l
      | [] \<Rightarrow> if ks = [] then Free else Refunding (List.map_filter refund_id ks))"

definition preimage_of :: "swap_db \<Rightarrow> sha256 \<Rightarrow> preimage option" where
  "preimage_of d h =
     (case find (\<lambda>r. sr_payment_hash r = of_b32 h) (db_swaps d) of
        None \<Rightarrow> None | Some r \<Rightarrow> Option.bind (sr_preimage r) to_b32)"

definition ledger_of :: "swap_db \<Rightarrow> ledger" where
  "ledger_of d h = (if has_swap d h then Some (preimage_of d h, phase_of (locks_of d h)) else None)"

text \<open>Every lock is a payment's or a refund's.\<close>

definition proper :: "swap_lock list \<Rightarrow> bool" where
  "proper ks \<longleftrightarrow>
     (\<forall>k\<in>set ks. (payment_attempt_label k = None) \<noteq> (refund_id k = None)) \<and>
     (\<forall>k\<in>set ks. payment_attempt_label k \<noteq> None \<longrightarrow> ks = [k])"

lemma phase_of_Nil [simp]: "phase_of [] = Free"
  by (simp add: phase_of_def map_filter_simps)

lemma phase_of_pay [simp]: "phase_of [\<lparr>refund_id = None, payment_attempt_label = Some l\<rparr>] = Paying l"
  by (simp add: phase_of_def map_filter_simps)

lemma proper_cases:
  assumes "proper ks"
  obtains "ks = []" | l where "ks = [\<lparr>refund_id = None, payment_attempt_label = Some l\<rparr>]"
  | "ks \<noteq> []" "list_all (\<lambda>k. payment_attempt_label k = None \<and> refund_id k \<noteq> None) ks"
proof (cases "\<exists>k\<in>set ks. payment_attempt_label k \<noteq> None")
  case True
  then obtain k where k: "k \<in> set ks" "payment_attempt_label k \<noteq> None" by blast
  with assms have "ks = [k]" "refund_id k = None" by (auto simp: proper_def)
  with k that(2) show thesis by (metis (full_types) old.unit.exhaust option.exhaust swap_lock.surjective)
next
  case False
  with assms that(1,3) show thesis by (auto simp: proper_def list_all_iff)
qed

lemma map_filter_refunds:
  "List.map_filter refund_id (filter (\<lambda>k. refund_id k \<noteq> Some rid) ks) =
     filter (\<lambda>r. r \<noteq> rid) (List.map_filter refund_id ks)"
  by (induction ks) (auto simp: map_filter_simps split: option.splits)

lemma phase_of_refunds:
  "list_all (\<lambda>k. payment_attempt_label k = None) ks \<Longrightarrow>
     phase_of ks = (if ks = [] then Free else Refunding (List.map_filter refund_id ks))"
proof -
  assume "list_all (\<lambda>k. payment_attempt_label k = None) ks"
  then have "List.map_filter payment_attempt_label ks = []"
    by (induction ks) (auto simp: map_filter_simps)
  then show ?thesis by (simp add: phase_of_def)
qed

lemma phase_of_free: "proper ks \<Longrightarrow> phase_of ks = Free \<longleftrightarrow> ks = []"
  by (erule proper_cases) (auto simp: phase_of_refunds list_all_iff)

lemma phase_of_paying:
  "proper ks \<Longrightarrow> (\<exists>l. phase_of ks = Paying l) \<longleftrightarrow> (\<exists>k\<in>set ks. payment_attempt_label k \<noteq> None)"
  by (erule proper_cases) (auto simp: phase_of_refunds list_all_iff)

lemma phase_of_add_refund:
  assumes "proper ks" and "\<forall>k\<in>set ks. payment_attempt_label k = None"
  shows "phase_of (ks @ [\<lparr>refund_id = Some rid, payment_attempt_label = None\<rparr>]) =
     (case phase_of ks of Refunding rs \<Rightarrow> Refunding (rs @ [rid]) | _ \<Rightarrow> Refunding [rid])"
  using assms by (auto simp: phase_of_refunds list_all_iff List.map_filter_def)

lemma phase_of_pay_unlock:
  "proper ks \<Longrightarrow> phase_of (filter (\<lambda>k. payment_attempt_label k \<noteq> Some l) ks) =
     (if phase_of ks = Paying l then Free else phase_of ks)"
proof (erule proper_cases)
  assume a: "ks \<noteq> []" "list_all (\<lambda>k. payment_attempt_label k = None \<and> refund_id k \<noteq> None) ks"
  then have "filter (\<lambda>k. payment_attempt_label k \<noteq> Some l) ks = ks"
    by (auto simp: filter_id_conv list_all_iff)
  with a show ?thesis by (simp add: phase_of_refunds list_all_iff)
qed auto

lemma phase_of_refund_unlock:
  "proper ks \<Longrightarrow> phase_of (filter (\<lambda>k. refund_id k \<noteq> Some rid) ks) = refunds_left rid (phase_of ks)"
proof (erule proper_cases)
  assume a: "ks \<noteq> []" "list_all (\<lambda>k. payment_attempt_label k = None \<and> refund_id k \<noteq> None) ks"
  then have "filter (\<lambda>r. r \<noteq> rid) (List.map_filter refund_id ks) = [] \<longleftrightarrow>
      filter (\<lambda>k. refund_id k \<noteq> Some rid) ks = []"
    by (fastforce simp: filter_empty_conv List.map_filter_def list_all_iff)
  with a show ?thesis by (simp add: phase_of_refunds list_all_iff map_filter_refunds)
qed auto

section \<open>Locks are proper\<close>

definition properly :: "(sha256 \<Rightarrow> swap_lock list) \<Rightarrow> bool" where
  "properly ls \<longleftrightarrow> (\<forall>h. proper (ls h))"

lemma properly_upd: "properly ls \<Longrightarrow> proper ks \<Longrightarrow> properly (ls(h := ks))"
  by (simp add: properly_def)

lemma properlyD: "properly ls \<Longrightarrow> proper (ls h)"
  by (simp add: properly_def)

lemma proper_pay: "proper [\<lparr>refund_id = None, payment_attempt_label = Some l\<rparr>]"
  by (simp add: proper_def)

lemma proper_refund:
  "proper ks \<Longrightarrow> \<forall>k\<in>set ks. payment_attempt_label k = None \<Longrightarrow>
     proper (ks @ [\<lparr>refund_id = Some rid, payment_attempt_label = None\<rparr>])"
  by (auto simp: proper_def)

lemma proper_filter: "proper ks \<Longrightarrow> proper (filter P ks)"
proof (erule proper_cases)
  assume "list_all (\<lambda>k. payment_attempt_label k = None \<and> refund_id k \<noteq> None) ks"
  then show ?thesis by (auto simp: proper_def list_all_iff)
qed (auto simp: proper_def)

context swap_locks
begin

lemma proper_pay_lock: "keeps (\<lambda>w. properly (locks w)) (lock_add_payment_attempt repo a)"
proof (rule keepsI)
  fix w r w' assume "properly (locks w)" "lock_add_payment_attempt repo a w = (r, w')"
  then show "properly (locks w')"
    by (cases r) (auto dest!: pay_lock_ok dest: pay_lock_err intro!: properly_upd proper_pay)
qed

lemma proper_refund_lock: "keeps (\<lambda>w. properly (locks w)) (lock_swap_refund repo h rid)"
proof (rule keepsI)
  fix w r w' assume p: "properly (locks w)" and run: "lock_swap_refund repo h rid w = (r, w')"
  show "properly (locks w')"
  proof (cases r)
    case (Inl e)
    with p run refund_lock_err show ?thesis by metis
  next
    case (Inr u)
    from refund_lock_ok [OF run [unfolded Inr]] show ?thesis
      by (simp add: properly_upd proper_refund p properlyD del: fun_upd_apply)
  qed
qed

lemma proper_pay_unlock: "keeps (\<lambda>w. properly (locks w)) (unlock_add_payment_result repo h l res)"
proof (rule keepsI)
  fix w r w' assume "properly (locks w)" "unlock_add_payment_result repo h l res w = (r, w')"
  then show "properly (locks w')"
    by (cases r) (auto dest!: pay_unlock_ok dest: pay_unlock_err intro!: properly_upd proper_filter dest: properlyD)
qed

lemma proper_refund_unlock: "keeps (\<lambda>w. properly (locks w)) (unlock_swap_refund repo h rid)"
proof (rule keepsI)
  fix w r w' assume "properly (locks w)" "unlock_swap_refund repo h rid w = (r, w')"
  then show "properly (locks w')"
    by (cases r) (auto dest!: refund_unlock_ok dest: refund_unlock_err intro!: properly_upd proper_filter dest: properlyD)
qed

end

abbreviation "all_proper w \<equiv> properly (locks_of (pg_data w))"

lemma reads_keep:
  "keeps (\<lambda>s. P (pg_data s)) (pg_get_swap_by_hash cfg h)" "keeps (\<lambda>s. P (pg_data s)) (pg_get_swap_by_address cfg a)"
  "keeps (\<lambda>s. P (pg_data s)) (pg_get_swap_by_payment_request cfg r)" "keeps (\<lambda>s. P (pg_data s)) (pg_get_swap_locks h)"
  "keeps (\<lambda>s. P (pg_data s)) (pg_get_swap_payment_attempts cfg h)" "keeps (\<lambda>s. P (pg_data s)) (pg_get_swaps cfg as)"
  "keeps (\<lambda>s. P (pg_data s)) (pg_get_swaps_with_paid_outpoints cfg as)"
  "keeps (\<lambda>s. P (pg_data s)) (pg_get_unhandled_payment_attempts cfg)"
  by (auto simp: pg_get_swap_by_hash_def pg_get_swap_by_address_def pg_get_swap_by_payment_request_def
      swap_of_rows_def pg_get_swap_locks_def pg_get_swap_payment_attempts_def pg_get_swaps_def
      pg_get_swaps_with_paid_outpoints_def pg_get_unhandled_payment_attempts_def intro!: keeps_intro)

lemma add_swap_data:
  assumes "pg_add_swap s w = (r, w')"
  shows "pg_data w' = pg_data w \<or>
    (\<not> has_swap (pg_data w) (swap_hash (swap_public s)) \<and>
     (\<exists>secs. pg_data w' = (pg_data w)\<lparr>db_swaps := db_swaps (pg_data w) @ [swap_row_of s secs]\<rparr>))"
proof (cases r)
  case (Inl e)
  with assms show ?thesis by (auto simp: pg_add_swap_def op_iffs dest: stmt_Inl)
next
  case (Inr u)
  with assms obtain secs where "insert_swap (swap_row_of s secs) (pg_data w) = Inr (u, pg_data w')"
    by (auto simp: pg_add_swap_def run_Inr dest!: stmt_Inr)
  then have "pg_data w' = (pg_data w)\<lparr>db_swaps := db_swaps (pg_data w) @ [swap_row_of s secs]\<rparr>"
    and "sr_payment_hash (swap_row_of s secs) \<notin> sr_payment_hash ` set (db_swaps (pg_data w))"
    by (auto simp: insert_swap_def split: if_splits)
  moreover from this(2) have "\<not> has_swap (pg_data w) (swap_hash (swap_public s))"
    by (auto simp: has_swap_def swap_row_of_def image_iff)
  ultimately show ?thesis by blast
qed

lemma keeps_pg [simp]:
  "lock_add_payment_attempt (pg_swap_repository cfg) = pg_lock_add_payment_attempt"
  "lock_swap_refund (pg_swap_repository cfg) = pg_lock_swap_refund"
  "unlock_add_payment_result (pg_swap_repository cfg) = pg_unlock_add_payment_result"
  "unlock_swap_refund (pg_swap_repository cfg) = pg_unlock_swap_refund"
  by (simp_all add: pg_swap_repository_def)

lemma proper_add_swap: "keeps all_proper (pg_add_swap s)"
proof (rule keepsI)
  fix w r w' assume "all_proper w" and run: "pg_add_swap s w = (r, w')"
  with add_swap_data [OF run] show "all_proper w'" by (auto simp: locks_of_def [abs_def])
qed

lemma proper_calls: "all_proper w \<Longrightarrow> all_proper (fold (run_swap_call cfg) calls w)"
proof (induction calls arbitrary: w)
  case (Cons c calls)
  note locks = pg_locks.proper_pay_lock pg_locks.proper_refund_lock pg_locks.proper_pay_unlock
    pg_locks.proper_refund_unlock
  have "all_proper (run_swap_call cfg c w)"
    using Cons.prems
    by (cases c) (auto intro!: keeps_apply [where P = all_proper] reads_keep [where P = "\<lambda>d. properly (locks_of d)"]
        proper_add_swap locks [of cfg, unfolded keeps_pg])
  with Cons.IH show ?case by simp
qed simp

section \<open>The refinement\<close>

lemma find_map_same:
  assumes "\<And>x. P (f x) = P x"
  shows "find P (map f xs) = map_option f (find P xs)"
  using assms by (induction xs) auto

lemma find_snoc: "find P (xs @ [x]) = (case find P xs of None \<Rightarrow> if P x then Some x else None | Some y \<Rightarrow> Some y)"
  by (induction xs) auto

lemma has_swap_find: "has_swap d h \<longleftrightarrow> (\<exists>r. find (\<lambda>r. sr_payment_hash r = of_b32 h) (db_swaps d) = Some r)"
  unfolding has_swap_def by (metis (mono_tags, lifting) find_None_iff not_None_eq)

lemma effect_swaps:
  "db_swaps (pay_lock_effect a secs d) = db_swaps d"
  "db_swaps (refund_lock_effect h rid d) = db_swaps d"
  "db_swaps (refund_unlock_effect h rid d) = db_swaps d"
  by (auto simp: pay_lock_effect_def refund_lock_effect_def refund_unlock_effect_def insert_attempt_outputs_def
      insert_attempt_def insert_lock_def delete_locks_def split: prod.split)

lemma pay_unlock_swaps:
  "db_swaps (pay_unlock_effect h l res d) = map (\<lambda>r. if sr_payment_hash r = of_b32 h
     then (case res of PaymentSuccess p \<Rightarrow> r\<lparr>sr_preimage := Some (of_b32 p)\<rparr> | PaymentFailure e \<Rightarrow> r) else r) (db_swaps d)"
  by (auto simp: pay_unlock_effect_def store_effect_def update_attempts_def update_swaps_def delete_locks_def
      intro!: map_idI [symmetric] split: payment_result.split)

lemma swaps_cong:
  assumes "db_swaps d' = db_swaps d" shows "has_swap d' h = has_swap d h" and "preimage_of d' h = preimage_of d h"
  by (simp_all add: has_swap_def preimage_of_def assms)

lemma pay_unlock_found:
  "find (\<lambda>r. sr_payment_hash r = of_b32 h') (db_swaps (pay_unlock_effect h l res d)) =
     map_option (\<lambda>r. if h' = h then (case res of PaymentSuccess p \<Rightarrow> r\<lparr>sr_preimage := Some (of_b32 p)\<rparr>
       | PaymentFailure e \<Rightarrow> r) else r) (find (\<lambda>r. sr_payment_hash r = of_b32 h') (db_swaps d))"
proof -
  have "map_option (\<lambda>r. if sr_payment_hash r = of_b32 h then f r else r) (find (\<lambda>r. sr_payment_hash r = of_b32 h') xs) =
      map_option (\<lambda>r. if h' = h then f r else r) (find (\<lambda>r. sr_payment_hash r = of_b32 h') xs)" for f xs
    by (induction xs) auto
  then show ?thesis unfolding pay_unlock_swaps by (subst find_map_same) (auto split: payment_result.split)
qed

lemma pay_unlock_has_swap: "has_swap (pay_unlock_effect h l res d) h' = has_swap d h'"
  by (simp add: has_swap_find pay_unlock_found)

lemma pay_unlock_preimage:
  "has_swap d h \<Longrightarrow> preimage_of (pay_unlock_effect h l res d) =
     (preimage_of d)(h := paid_with_result res (preimage_of d h))"
  by (rule ext)
     (auto simp: preimage_of_def pay_unlock_found has_swap_find split: option.split payment_result.split)

lemma ledger_pay_lock:
  assumes "pg_lock_add_payment_attempt a w = (Inr u, w')" and "all_proper w"
  shows "ledger_write (LockAddPaymentAttempt a) (ledger_of (pg_data w)) = Some (ledger_of (pg_data w'))"
proof -
  from pg_lock_pay_Inr [OF assms(1)] obtain secs where
    s: "has_swap (pg_data w) (pa_payment_hash a)" "locks_of (pg_data w) (pa_payment_hash a) = []"
      "pg_data w' = pay_lock_effect a secs (pg_data w)" by blast
  show ?thesis
    by (auto simp: s ledger_of_def fun_eq_iff swaps_cong [OF effect_swaps(1)] locks_of_effects)
qed

lemma ledger_refund_lock:
  assumes "pg_lock_swap_refund h rid w = (Inr u, w')" and "all_proper w"
  shows "ledger_write (LockSwapRefund h rid) (ledger_of (pg_data w)) = Some (ledger_of (pg_data w'))"
proof -
  let ?ks = "locks_of (pg_data w) h"
  from pg_lock_refund_Inr [OF assms(1)] have
    s: "has_swap (pg_data w) h" "\<forall>k\<in>set ?ks. payment_attempt_label k = None"
      "pg_data w' = refund_lock_effect h rid (pg_data w)" by blast+
  note p = properlyD [OF assms(2), of h]
  have "\<nexists>l. phase_of ?ks = Paying l" using phase_of_paying [OF p] s(2) by simp
  with phase_of_add_refund [OF p s(2), of rid] show ?thesis
    by (auto simp: s(1,3) ledger_of_def fun_eq_iff swaps_cong [OF effect_swaps(2)] locks_of_effects split: phase.split)
qed

lemma ledger_pay_unlock:
  assumes "pg_unlock_add_payment_result h l res w = (Inr u, w')" and "all_proper w"
  shows "ledger_write (UnlockAddPaymentResult h l res) (ledger_of (pg_data w)) = Some (ledger_of (pg_data w'))"
proof -
  from pg_unlock_pay_Inr [OF assms(1)] have
    s: "has_swap (pg_data w) h" "pg_data w' = pay_unlock_effect h l res (pg_data w)" by blast+
  show ?thesis
    by (auto simp: s ledger_of_def fun_eq_iff pay_unlock_has_swap pay_unlock_preimage locks_of_effects
        phase_of_pay_unlock [OF properlyD [OF assms(2)]])
qed

lemma ledger_refund_unlock:
  assumes "pg_unlock_swap_refund h rid w = (Inr u, w')" and "all_proper w"
  shows "ledger_write (UnlockSwapRefund h rid) (ledger_of (pg_data w)) = Some (ledger_of (pg_data w'))"
proof -
  from pg_unlock_refund_Inr [OF assms(1)] have
    s: "has_swap (pg_data w) h" "pg_data w' = refund_unlock_effect h rid (pg_data w)" by blast+
  show ?thesis
    by (auto simp: s ledger_of_def fun_eq_iff swaps_cong [OF effect_swaps(3)] locks_of_effects
        phase_of_refund_unlock [OF properlyD [OF assms(2)]])
qed

lemma ledger_add_swap:
  assumes "pg_add_swap s w = (Inr u, w')" and "pg_inv w"
  shows "ledger_write (AddSwap s) (ledger_of (pg_data w)) = Some (ledger_of (pg_data w'))"
proof -
  let ?h = "swap_hash (swap_public s)"
  from assms(1) obtain secs where "insert_swap (swap_row_of s secs) (pg_data w) = Inr (u, pg_data w')"
    by (auto simp: pg_add_swap_def run_Inr dest!: stmt_Inr)
  then have w': "pg_data w' = (pg_data w)\<lparr>db_swaps := db_swaps (pg_data w) @ [swap_row_of s secs]\<rparr>"
    and new: "\<not> has_swap (pg_data w) ?h"
    by (auto simp: insert_swap_def has_swap_def swap_row_of_def image_iff split: if_splits)
  have "of_b32 ?h \<notin> lr_swap_payment_hash ` set (db_locks (pg_data w))"
    using new assms(2) unfolding swap_db_inv_def has_swap_def by (metis (no_types, lifting) imageE)
  then have "locks_of (pg_data w) ?h = []" by (auto simp: locks_of_def filter_empty_conv image_iff)
  moreover have "locks_of (pg_data w') = locks_of (pg_data w)" by (simp add: w' locks_of_def [abs_def])
  ultimately show ?thesis
    using new by (auto simp: ledger_of_def fun_eq_iff has_swap_find preimage_of_def w' find_snoc
        swap_row_of_def split: option.split)
qed

text \<open>Whether a call returns without an error; times before 1970 cannot be stored.\<close>

fun accepted :: "swap_call \<Rightarrow> swap_db pg \<Rightarrow> bool" where
  "accepted (AddSwap s) w = (\<not> isl (fst (pg_add_swap s w)))"
| "accepted (LockAddPaymentAttempt a) w = (\<not> isl (fst (pg_lock_add_payment_attempt a w)))"
| "accepted (LockSwapRefund h rid) w = (\<not> isl (fst (pg_lock_swap_refund h rid w)))"
| "accepted (UnlockAddPaymentResult h l res) w = (\<not> isl (fst (pg_unlock_add_payment_result h l res w)))"
| "accepted (UnlockSwapRefund h rid) w = (\<not> isl (fst (pg_unlock_swap_refund h rid w)))"
| "accepted c w = True"

fun timed :: "swap_call \<Rightarrow> bool" where
  "timed (AddSwap s) \<longleftrightarrow> secs_of_time (creation_time s) \<noteq> None"
| "timed (LockAddPaymentAttempt a) \<longleftrightarrow> secs_of_time (pa_creation_time a) \<noteq> None"
| "timed c \<longleftrightarrow> True"

lemma accepted_refines:
  assumes "accepted c w" and "pg_inv w" and "all_proper w"
  shows "ledger_write c (ledger_of (pg_data w)) = Some (ledger_of (pg_data (run_swap_call cfg c w)))"
proof -
  have reads: "ledger_of (pg_data (snd (m w))) = ledger_of (pg_data w)"
    if "\<And>P. keeps (\<lambda>s. P (pg_data s)) m" for m :: "(swap_db pg, 'e, 'a) op"
    using that [of "\<lambda>d. ledger_of d = ledger_of (pg_data w)"] by (simp add: keeps_def)
  have ok: "\<not> isl (fst r) \<Longrightarrow> \<exists>u. r = (Inr u, snd r)" for r :: "('e + 'a) \<times> swap_db pg"
    by (cases r; cases "fst r") auto
  note writes = ledger_add_swap [OF _ assms(2)] ledger_pay_lock [OF _ assms(3)] ledger_refund_lock [OF _ assms(3)]
    ledger_pay_unlock [OF _ assms(3)] ledger_refund_unlock [OF _ assms(3)]
  show ?thesis
    using assms(1) by (cases c) (auto simp del: ledger_write.simps(1-5) simp: reads [OF reads_keep(1)]
      reads [OF reads_keep(2)] reads [OF reads_keep(3)] reads [OF reads_keep(4)] reads [OF reads_keep(5)]
      reads [OF reads_keep(6)] reads [OF reads_keep(7)] reads [OF reads_keep(8)] dest!: ok intro: writes)
qed

lemma refused_keeps:
  assumes "\<not> accepted c w"
  shows "pg_data (run_swap_call cfg c w) = pg_data w"
proof -
  have bad: "isl (fst r) \<Longrightarrow> \<exists>e. r = (Inl e, snd r)" for r :: "('e + 'a) \<times> swap_db pg"
    by (cases r; cases "fst r") auto
  have "pg_add_swap s w = (Inl e, w') \<Longrightarrow> pg_data w' = pg_data w" for s e w'
    by (auto simp: pg_add_swap_def op_iffs dest: stmt_Inl)
  note errors = this lock_op_Inl
  from assms show ?thesis by (cases c) (auto dest!: bad intro: errors)
qed

lemmas no_fault_run = transact_def Let_def lock_swap_for_update_def has_swap_def seq_def map_err_def
  exec_no_fault query_no_fault stmt_no_fault of_option_def

lemma allowed_accepted:
  assumes "pg_faults w = []" and "timed c" and "ledger_write c (ledger_of (pg_data w)) \<noteq> None" and "all_proper w"
  shows "accepted c w"
proof (cases c)
  case (AddSwap s)
  with assms show ?thesis
    by (auto simp: pg_add_swap_def no_fault_run ledger_of_def insert_swap_def swap_row_of_def image_iff
        split: if_splits option.splits)
next
  case (LockAddPaymentAttempt a)
  let ?h = "pa_payment_hash a"
  have "has_swap (pg_data w) ?h" "locks_of (pg_data w) ?h = []"
    using assms(3) phase_of_free [OF properlyD [OF assms(4)], of ?h]
    by (auto simp: LockAddPaymentAttempt ledger_of_def split: if_splits phase.splits)
  with assms(1,2) show ?thesis
    by (auto simp: LockAddPaymentAttempt pg_lock_add_payment_attempt_def no_fault_run locks_of_def
        split: prod.splits)
next
  case (LockSwapRefund h rid)
  let ?ks = "locks_of (pg_data w) h"
  have "has_swap (pg_data w) h" "\<forall>k\<in>set ?ks. payment_attempt_label k = None"
    using assms(3) phase_of_paying [OF properlyD [OF assms(4)], of h]
    by (auto simp: LockSwapRefund ledger_of_def split: if_splits phase.splits)
  then have "has_swap (pg_data w) h" "filter (\<lambda>r. lr_swap_payment_hash r = of_b32 h \<and>
      lr_payment_attempt_label r \<noteq> None) (db_locks (pg_data w)) = []"
    by (auto simp: locks_of_def filter_empty_conv)
  with assms(1) show ?thesis
    by (auto simp: LockSwapRefund pg_lock_swap_refund_def no_fault_run)
next
  case (UnlockAddPaymentResult h l res)
  with assms(3) have "has_swap (pg_data w) h" by (auto simp: ledger_of_def split: if_splits)
  with assms(1) show ?thesis
    by (auto simp: UnlockAddPaymentResult pg_unlock_add_payment_result_def no_fault_run store_result_def
        split: payment_result.splits)
next
  case (UnlockSwapRefund h rid)
  with assms(3) have "has_swap (pg_data w) h" by (auto simp: ledger_of_def split: if_splits)
  with assms(1) show ?thesis
    by (auto simp: UnlockSwapRefund pg_unlock_swap_refund_def no_fault_run)
qed simp_all

text \<open>C5: the swap repository refines the ledger. From every state that any calls with any failing
  statements lead to, a call that returns without an error moves the tables as the ledger says, and
  the ledger allows it; a call that returns an error leaves the ledger as it was. When no statement
  fails, a call returns an error exactly when the ledger refuses it.\<close>

theorem swap_repository_refines_ledger:
  "(let w = fold (run_swap_call cfg) calls \<lparr>pg_data = empty_swap_db, pg_faults = fs\<rparr>;
        before = ledger_of (pg_data w); after = ledger_of (pg_data (run_swap_call cfg c w)) in
    (if accepted c w then ledger_write c before = Some after else after = before) \<and>
    (if pg_faults w = [] \<and> timed c then accepted c w = (ledger_write c before \<noteq> None) else True))"
proof -
  define w where "w = fold (run_swap_call cfg) calls \<lparr>pg_data = empty_swap_db, pg_faults = fs\<rparr>"
  have "pg_inv w" unfolding w_def by (intro inv_swap_calls) (simp add: swap_db_inv_def empty_swap_db_def)
  moreover have "all_proper w" unfolding w_def
    by (intro proper_calls) (simp add: properly_def proper_def locks_of_def empty_swap_db_def)
  ultimately show ?thesis
    using accepted_refines [of c w cfg] refused_keeps [of c w cfg] allowed_accepted [of w c]
    by (cases "ledger_write c (ledger_of (pg_data w))") (auto simp: w_def [symmetric] Let_def)
qed

end
