(* ===== verification/Restart.thy ===== *)
theory Restart
  imports Swap_Protocol Swap_Ledger
begin

text \<open>
  A restart of the daemon: the historical payment monitor loads the attempts without a result
  (\<open>HistoricalPaymentMonitor::initialize\<close>) and follows them to their end (\<open>start\<close>). Whatever the
  daemon had done before, and whatever had failed, no swap stays locked for a payment.
\<close>

section \<open>Every payment lock has an open attempt\<close>

text \<open>
  A label is made of the hash and the time of the attempt, so it belongs to one hash: \<open>owner\<close>. An
  attempt that is stored has a destination that parses and a time after the epoch.
\<close>

fun sound_call :: "swap_repo_cfg \<Rightarrow> (label \<Rightarrow> sha256) \<Rightarrow> swap_call \<Rightarrow> bool" where
  "sound_call cfg owner (LockAddPaymentAttempt a) \<longleftrightarrow>
     owner (pa_label a) = pa_payment_hash a \<and> rc_parse_pubkey cfg (pa_destination a) \<noteq> None \<and>
     0 \<le> pa_creation_time a \<and> pa_creation_time a < 2 ^ 63 * nanos_per_sec"
| "sound_call cfg owner (UnlockAddPaymentResult h l r) \<longleftrightarrow> owner l = h"
| "sound_call cfg owner c \<longleftrightarrow> True"

definition readable :: "swap_repo_cfg \<Rightarrow> (label \<Rightarrow> sha256) \<Rightarrow> attempt_row \<Rightarrow> bool" where
  "readable cfg owner r \<longleftrightarrow>
     ar_swap_payment_hash r = of_b32 (owner (ar_label r)) \<and> rc_parse_pubkey cfg (ar_destination r) \<noteq> None \<and>
     time_of_secs (ar_creation_time r) \<noteq> None"

definition locks_open :: "swap_repo_cfg \<Rightarrow> (label \<Rightarrow> sha256) \<Rightarrow> swap_db \<Rightarrow> bool" where
  "locks_open cfg owner d \<longleftrightarrow>
     (\<forall>r\<in>set (db_attempts d). readable cfg owner r) \<and>
     (\<forall>k\<in>set (db_locks d). \<forall>l. lr_payment_attempt_label k = Some l \<longrightarrow>
        lr_swap_payment_hash k = of_b32 (owner l) \<and>
        (\<exists>r\<in>set (db_attempts d). ar_label r = l \<and> ar_success r = None))"

abbreviation "pg_open cfg owner s \<equiv> locks_open cfg owner (pg_data s)"

lemma open_pay_lock:
  assumes "sound_call cfg owner (LockAddPaymentAttempt a)"
  shows "keeps (pg_open cfg owner) (pg_lock_add_payment_attempt a)"
proof (rule keepsI)
  fix w r w' assume opn: "pg_open cfg owner w" and run: "pg_lock_add_payment_attempt a w = (r, w')"
  show "pg_open cfg owner w'"
  proof (cases r)
    case (Inl e)
    with run opn lock_op_Inl(1) show ?thesis by metis
  next
    case (Inr u)
    with run pg_lock_pay_Inr obtain secs where secs: "secs_of_time (pa_creation_time a) = Some secs"
      and w': "pg_data w' = pay_lock_effect a secs (pg_data w)" by blast
    have "time_of_secs secs \<noteq> None"
      using time_of_secs_of_time [of "pa_creation_time a"] secs assms by auto
    with opn assms show ?thesis
      unfolding w' locks_open_def
      by (auto simp: pay_lock_effect_def insert_attempt_def insert_attempt_outputs_def insert_lock_def readable_def)
  qed
qed

lemma pay_unlock_tables:
  "\<exists>f. db_attempts (pay_unlock_effect h l res d) = map (\<lambda>r. if ar_label r = l then f r else r) (db_attempts d) \<and>
     (\<forall>r. ar_label (f r) = ar_label r \<and> readable cfg owner (f r) = readable cfg owner r)"
  "db_locks (pay_unlock_effect h l res d) =
     filter (\<lambda>r. \<not> (lr_swap_payment_hash r = of_b32 h \<and> lr_payment_attempt_label r = Some l)) (db_locks d)"
proof -
  show "\<exists>f. db_attempts (pay_unlock_effect h l res d) = map (\<lambda>r. if ar_label r = l then f r else r) (db_attempts d) \<and>
     (\<forall>r. ar_label (f r) = ar_label r \<and> readable cfg owner (f r) = readable cfg owner r)"
  proof (cases res)
    case (PaymentSuccess p)
    then show ?thesis
      by (intro exI [of _ "\<lambda>r. r\<lparr>ar_success := Some True\<rparr>"]) (simp add: pay_unlock_effect_def store_effect_def
          update_attempts_def update_swaps_def delete_locks_def readable_def)
  next
    case (PaymentFailure e)
    then show ?thesis
      by (intro exI [of _ "\<lambda>r. r\<lparr>ar_success := Some False, ar_error := Some e\<rparr>"]) (simp add: pay_unlock_effect_def
          store_effect_def update_attempts_def delete_locks_def readable_def)
  qed
qed (simp add: pay_unlock_effect_def store_effect_def update_attempts_def update_swaps_def delete_locks_def
    split: payment_result.split)

lemma open_pay_unlock:
  assumes "owner l = h"
  shows "keeps (pg_open cfg owner) (pg_unlock_add_payment_result h l res)"
proof (rule keepsI)
  fix w r w' assume opn: "pg_open cfg owner w" and run: "pg_unlock_add_payment_result h l res w = (r, w')"
  show "pg_open cfg owner w'"
  proof (cases r)
    case (Inl e)
    with run opn lock_op_Inl(3) show ?thesis by metis
  next
    case (Inr u)
    with run pg_unlock_pay_Inr have w': "pg_data w' = pay_unlock_effect h l res (pg_data w)" by blast
    obtain f where f: "db_attempts (pg_data w') = map (\<lambda>r. if ar_label r = l then f r else r) (db_attempts (pg_data w))"
      "\<forall>r. ar_label (f r) = ar_label r \<and> readable cfg owner (f r) = readable cfg owner r"
      using pay_unlock_tables(1) unfolding w' by blast
    have "\<exists>r\<in>set (db_attempts (pg_data w')). ar_label r = l' \<and> ar_success r = None"
      if "\<exists>r\<in>set (db_attempts (pg_data w)). ar_label r = l' \<and> ar_success r = None" "l' \<noteq> l" for l'
      using that by (force simp: f(1))
    moreover have "l' \<noteq> l \<and> k \<in> set (db_locks (pg_data w))"
      if "k \<in> set (db_locks (pg_data w'))" "lr_payment_attempt_label k = Some l'" for k l'
      using that opn assms by (auto simp: w' pay_unlock_tables(2) locks_open_def)
    moreover have "\<forall>r\<in>set (db_attempts (pg_data w')). readable cfg owner r"
      using opn f by (auto simp: locks_open_def)
    ultimately show ?thesis using opn unfolding locks_open_def by blast
  qed
qed

lemma open_refund_lock: "keeps (pg_open cfg owner) (pg_lock_swap_refund h rid)"
proof (rule keepsI)
  fix w r w' assume "pg_open cfg owner w" "pg_lock_swap_refund h rid w = (r, w')"
  then show "pg_open cfg owner w'"
    by (cases r) (auto simp: locks_open_def refund_lock_effect_def insert_lock_def
        dest!: pg_lock_refund_Inr dest: lock_op_Inl(2))
qed

lemma open_refund_unlock: "keeps (pg_open cfg owner) (pg_unlock_swap_refund h rid)"
proof (rule keepsI)
  fix w r w' assume "pg_open cfg owner w" "pg_unlock_swap_refund h rid w = (r, w')"
  then show "pg_open cfg owner w'"
    by (cases r) (auto simp: locks_open_def refund_unlock_effect_def delete_locks_def
        dest!: pg_unlock_refund_Inr dest: lock_op_Inl(4))
qed

lemma open_add_swap: "keeps (pg_open cfg owner) (pg_add_swap s)"
proof (rule keepsI)
  fix w r w' assume "pg_open cfg owner w" "pg_add_swap s w = (r, w')"
  then show "pg_open cfg owner w'" using add_swap_data by (fastforce simp: locks_open_def)
qed

lemma open_calls:
  "list_all (sound_call cfg owner) calls \<Longrightarrow> pg_open cfg owner w \<Longrightarrow> pg_open cfg owner (fold (run_swap_call cfg) calls w)"
proof (induction calls arbitrary: w)
  case (Cons c calls)
  have "pg_open cfg owner (run_swap_call cfg c w)"
    using Cons.prems
    by (cases c) (auto intro!: keeps_apply [where P = "pg_open cfg owner"] reads_keep [where P = "locks_open cfg owner"]
        open_add_swap open_pay_lock open_refund_lock open_pay_unlock open_refund_unlock)
  with Cons show ?case by simp
qed simp

section \<open>What the monitor loads\<close>

definition loaded :: "(label \<Rightarrow> sha256) \<Rightarrow> payment_attempt labelled \<Rightarrow> bool" where
  "loaded owner m \<longleftrightarrow>
     set (fst m) = dom (snd m) \<and> (\<forall>l a. snd m l = Some a \<longrightarrow> pa_label a = l \<and> pa_payment_hash a = owner l)"

lemma parse_attempt_readable:
  "readable cfg owner r \<Longrightarrow> \<exists>a. parse_attempt cfg r = Inr a \<and> pa_label a = ar_label r \<and> pa_payment_hash a = owner (ar_label r)"
  by (auto simp: readable_def parse_attempt_def bind_res_def of_option_def)

lemma loaded_step:
  assumes "loaded owner m" and "pa_label a = l" and "pa_payment_hash a = owner l"
  shows "loaded owner (modify_entry l (push_outputs ps) (entry_or_insert l a m))"
    and "dom (snd (modify_entry l (push_outputs ps) (entry_or_insert l a m))) = insert l (dom (snd m))"
  using assms
  by (auto simp: loaded_def modify_entry_def entry_or_insert_def push_outputs_def split: option.splits if_splits)

lemma collect_readable:
  assumes "list_all (\<lambda>(r, out). readable cfg owner r) rows" and "loaded owner m"
  shows "\<exists>m'. collect_attempts cfg rows m = Inr m' \<and> loaded owner m' \<and>
    dom (snd m') = (ar_label \<circ> fst) ` set rows \<union> dom (snd m)"
  using assms
proof (induction cfg rows m rule: collect_attempts.induct)
  case (2 cfg row out rows m)
  obtain a where a: "parse_attempt cfg row = Inr a" "pa_label a = ar_label row" "pa_payment_hash a = owner (ar_label row)"
    using parse_attempt_readable 2 by fastforce
  note step = loaded_step [OF 2(3) a(2,3), of "output_of_row out"]
  from 2(1) [OF _ step(1)] 2(2) step(2) a(1) show ?case by (fastforce simp: bind_res_def)
qed auto

lemma set_attempt_join: "fst ` set (attempt_join sel d) = {r \<in> set (db_attempts d). sel r}"
  by (force simp: attempt_join_def image_UN split: list.splits)

lemma loads_every_open_attempt:
  assumes "pg_faults s = []" and "pg_open cfg owner s" and "map_order_ok cfg"
  shows "\<exists>as. pg_get_unhandled_payment_attempts cfg s = (Inr as, s) \<and>
    (\<forall>a\<in>set as. pa_payment_hash a = owner (pa_label a) \<and> pa_label a \<in> labels s) \<and>
    (\<forall>r\<in>set (db_attempts (pg_data s)). ar_success r = None \<longrightarrow> ar_label r \<in> pa_label ` set as)"
proof -
  let ?rows = "attempt_join (\<lambda>pa. ar_success pa = None) (pg_data s)"
  have rows: "fst ` set ?rows = {r \<in> set (db_attempts (pg_data s)). ar_success r = None}" by (rule set_attempt_join)
  have "readable cfg owner r" if "(r, out) \<in> set ?rows" for r out
  proof -
    have "r \<in> fst ` set ?rows" using that by force
    then show ?thesis using assms(2) unfolding rows by (simp add: locks_open_def)
  qed
  then have rs: "list_all (\<lambda>(r, out). readable cfg owner r) ?rows" by (auto simp: list_all_iff)
  have none: "loaded owner ([], Map.empty)" by (simp add: loaded_def)
  obtain m where m: "collect_attempts cfg ?rows ([], Map.empty) = Inr m" "loaded owner m"
    "dom (snd m) = (ar_label \<circ> fst) ` set ?rows"
    using collect_readable [OF rs none] by (elim exE conjE) simp
  have order: "set (rc_iteration_order cfg (fst m)) = set (fst m)"
    using assms(3) unfolding map_order_ok_def by (metis mset_eq_setD)
  have entries: "into_values cfg m = map (\<lambda>l. the (snd m l)) (rc_iteration_order cfg (fst m))" by (simp add: into_values_def)
  have run: "pg_get_unhandled_payment_attempts cfg s = (Inr (into_values cfg m), s)"
    using assms(1) m(1) by (simp add: pg_get_unhandled_payment_attempts_def seq_def map_err_def query_no_fault)
  have labelled: "pa_label (the (snd m l)) = l \<and> pa_payment_hash (the (snd m l)) = owner l" if "l \<in> set (fst m)" for l
    using m(2) that by (auto simp: loaded_def)
  have dom: "set (fst m) = ar_label ` {r \<in> set (db_attempts (pg_data s)). ar_success r = None}"
  proof -
    have "set (fst m) = ar_label ` (fst ` set ?rows)" using m(2,3) by (simp add: loaded_def image_comp)
    then show ?thesis unfolding rows .
  qed
  show ?thesis
    using labelled dom order by (intro exI [of _ "into_values cfg m"]) (auto simp: run entries labels_of_def image_image)
qed

section \<open>The locks only shrink\<close>

definition locks_within :: "(sha256 \<Rightarrow> swap_lock list) \<Rightarrow> swap_db pg \<Rightarrow> bool" where
  "locks_within ls s \<longleftrightarrow> (\<forall>h. set (locks_of (pg_data s) h) \<subseteq> set (ls h))"

lemma within_unlock:
  "pg_data s' = pay_unlock_effect h l res (pg_data s) \<Longrightarrow> locks_within ls s \<Longrightarrow> locks_within ls s'"
  by (fastforce simp: locks_within_def locks_of_effects)

lemma check_payments_within:
  assumes "do_check_payments (pg_payment_monitor cfg lc as0 d) as (s, n) = (r, (s', n'))" and "locks_within ls s"
  shows "locks_within ls s'"
proof -
  define m where "m = pg_payment_monitor cfg lc as0 d"
  define P where "P = (\<lambda>w :: swap_db pg \<times> 'a. locks_within ls (fst w))"
  have rec: "keeps P (record_result m a res)" for a res
  proof (rule keepsI)
    fix w x w' assume w: "P w" "record_result m a res w = (x, w')"
    then obtain y where "pg_unlock_add_payment_result (pa_payment_hash a) (pa_label a) res (fst w) = (y, fst w')"
      by (cases x) (auto simp: record_result_def map_err_Inr_iff map_err_Inl_iff m_def pg_payment_monitor_def
          lift_swap_repository_def pg_swap_repository_def on_fst_eq)
    then show "P w'" using w(1) unfolding P_def
      by (cases y) (auto dest!: pg_unlock_pay_Inr lock_op_Inl(3) simp: within_unlock, simp add: locks_within_def)
  qed
  have ask: "keeps P (get_payment_state (pm_lightning_client m) h l)" for h l
    by (rule keepsI) (auto simp: P_def m_def pg_payment_monitor_def lift_lightning_def on_snd_eq)
  have "keeps P (do_check_payments m as)"
  proof (induction as)
    case (Cons a as)
    have "keeps P (case r of Inl PaymentNotFound \<Rightarrow> seq (record_result m a (PaymentFailure ''cancelled'')) (\<lambda>_. do_check_payments m as)
        | Inl e \<Rightarrow> fail (MonitorLightning e)
        | Inr (StateSuccess p) \<Rightarrow> seq (record_result m a (PaymentSuccess p)) (\<lambda>_. do_check_payments m as)
        | Inr (StateFailure e) \<Rightarrow> seq (record_result m a (PaymentFailure e)) (\<lambda>_. do_check_payments m as)
        | Inr StatePending \<Rightarrow> seq (do_check_payments m as) (\<lambda>pending. ret (a # pending)))" for r
      by (auto intro!: keeps_intro rec Cons split: sum.split lightning_error.split payment_state.split)
    then show ?case by (auto intro!: keeps_attempt ask)
  qed (simp add: keeps_def)
  then show ?thesis using assms keepsD [of P "do_check_payments m as" "(s, n)"] by (auto simp: P_def m_def)
qed

lemma pm_start_within:
  assumes "undisturbed tick wait"
  shows "pm_start k token wait (pg_payment_monitor cfg lc as d) (s, n) = (r, (s', n')) \<Longrightarrow> locks_within ls s \<Longrightarrow>
    locks_within ls s'"
proof (induction k arbitrary: as s n)
  case (Suc k)
  obtain x s1 n1 where run: "do_check_payments (pg_payment_monitor cfg lc as d) as (s, n) = (x, (s1, n1))"
    by (metis prod_cases3)
  have "locks_within ls s1" using check_payments_within [OF run] Suc.prems(2) .
  then show ?case
    using Suc.prems Suc.IH run assms
    by (cases x) (auto simp: undisturbed_def split: if_splits)
qed simp

section \<open>The restart\<close>

lemma initialize_runs:
  assumes "pg_faults s = []" and "pg_inv s" and "pg_open cfg owner s" and "map_order_ok cfg" and "answering lc n"
  shows "\<exists>as pending s1. pm_initialize (pg_payment_monitor cfg lc [] d) (s, n) =
      (Inr (pg_payment_monitor cfg lc pending d), (s1, n)) \<and>
    all_swaps pending s1 \<and> locks_within (locks_of (pg_data s)) s1 \<and>
    (\<forall>a\<in>set as. a \<in> set pending \<or> released a (pg_data s1)) \<and>
    (\<forall>a\<in>set as. pa_payment_hash a = owner (pa_label a)) \<and>
    (\<forall>r\<in>set (db_attempts (pg_data s)). ar_success r = None \<longrightarrow> ar_label r \<in> pa_label ` set as)"
proof -
  obtain as where as: "pg_get_unhandled_payment_attempts cfg s = (Inr as, s)"
    "\<forall>a\<in>set as. pa_payment_hash a = owner (pa_label a) \<and> pa_label a \<in> labels s"
    "\<forall>r\<in>set (db_attempts (pg_data s)). ar_success r = None \<longrightarrow> ar_label r \<in> pa_label ` set as"
    using loads_every_open_attempt [OF assms(1,3,4)] by blast
  have "has_swap (pg_data s) (pa_payment_hash a)" if a: "a \<in> set as" for a
  proof -
    obtain r where r: "r \<in> set (db_attempts (pg_data s))" "ar_label r = pa_label a"
      using as(2) a by (auto simp: labels_of_def)
    then have "ar_swap_payment_hash r = of_b32 (pa_payment_hash a)"
      using assms(3) as(2) a by (auto simp: locks_open_def readable_def)
    moreover have "ar_swap_payment_hash r \<in> sr_payment_hash ` set (db_swaps (pg_data s))"
      using r(1) assms(2) by (simp add: swap_db_inv_def)
    ultimately show ?thesis by (auto simp: has_swap_def)
  qed
  then have swaps: "all_swaps as s" using assms(1) by (simp add: all_swaps_def list_all_iff)
  obtain pending s1 where run: "do_check_payments (pg_payment_monitor cfg lc [] d) as (s, n) = (Inr pending, (s1, n))"
    "all_swaps as s1" using check_payments_runs [OF assms(5) swaps swaps] by blast
  have stable: "\<And>h l. snd (get_payment_state lc h l n) = n" using assms(5) by (metis answering_def snd_conv)
  note rd = check_payments_round [OF run(1) stable]
  have "all_swaps pending s1" using run(2) rd by (auto simp: all_swaps_def list_all_iff)
  moreover have "a \<in> set pending \<or> released a (pg_data s1)" if "a \<in> set as" for a
    using rd that locks_left_gone [of lc n a as] by (auto simp: released_def list_all_iff)
  moreover have "locks_within (locks_of (pg_data s)) s1"
    using check_payments_within [OF run(1)] by (simp add: locks_within_def)
  moreover have "pm_initialize (pg_payment_monitor cfg lc [] d) (s, n) = (Inr (pg_payment_monitor cfg lc pending d), (s1, n))"
    using as(1) run(1)
    by (simp add: pm_initialize_def seq_def map_err_def on_fst_def pg_payment_monitor_def lift_swap_repository_def
        pg_swap_repository_def)
  ultimately show ?thesis using as(2,3) by blast
qed

text \<open>C7: a restart releases every payment lock. Whatever calls the daemon had made, and whatever statement
  had failed under them, when it starts again, no statement fails, and the node answers and has
  settled its payments by round \<open>K\<close>, then the historical payment monitor initialises and ends within
  \<open>K + 2\<close> rounds, and no swap is left locked for a payment.\<close>

theorem restart_releases_locks:
  assumes "list_all (sound_call cfg owner) calls" and "map_order_ok cfg"
    and "s = (fold (run_swap_call cfg) calls \<lparr>pg_data = empty_swap_db, pg_faults = fs\<rparr>)\<lparr>pg_faults := []\<rparr>"
    and "undisturbed tick wait" and "\<forall>k. answering lc ((tick ^^ k) n)"
    and "\<forall>k\<ge>K. \<forall>h l. fst (get_payment_state lc h l ((tick ^^ k) n)) \<noteq> Inr StatePending"
  shows "\<exists>pm s1 s2 n2. pm_initialize (pg_payment_monitor cfg lc [] d) (s, n) = (Inr pm, (s1, n)) \<and>
    pm_start (K + 2) (\<lambda>_. False) wait pm (s1, n) = (Inr (), (s2, n2)) \<and>
    (\<forall>h. list_all (\<lambda>k. payment_attempt_label k = None) (locks_of (pg_data s2) h))"
proof -
  let ?w = "fold (run_swap_call cfg) calls \<lparr>pg_data = empty_swap_db, pg_faults = fs\<rparr>"
  have "pg_inv ?w" by (rule inv_swap_calls) (simp add: swap_db_inv_def empty_swap_db_def)
  moreover have "pg_open cfg owner ?w"
    using assms(1) by (rule open_calls) (simp add: locks_open_def empty_swap_db_def)
  ultimately have s: "pg_faults s = []" "pg_inv s" "pg_open cfg owner s" by (simp_all add: assms(3))
  have "answering lc n" using assms(5) by (metis funpow_0)
  from initialize_runs [OF s assms(2) this, of d] obtain as pending s1 where
    init: "pm_initialize (pg_payment_monitor cfg lc [] d) (s, n) = (Inr (pg_payment_monitor cfg lc pending d), (s1, n))"
    and p: "all_swaps pending s1" "locks_within (locks_of (pg_data s)) s1"
    and as: "\<forall>a\<in>set as. a \<in> set pending \<or> released a (pg_data s1)" "\<forall>a\<in>set as. pa_payment_hash a = owner (pa_label a)"
      "\<forall>r\<in>set (db_attempts (pg_data s)). ar_success r = None \<longrightarrow> ar_label r \<in> pa_label ` set as" by blast
  have "\<forall>k\<ge>K. list_all (settled lc ((tick ^^ k) n)) pending" using assms(6) by (simp add: settled_def list_all_iff)
  from pm_start_ends [OF assms(4,5) this p(1), of cfg d] obtain s2 n2 where
    run: "pm_start (K + 2) (\<lambda>_. False) wait (pg_payment_monitor cfg lc pending d) (s1, n) = (Inr (), (s2, n2))"
    and rel: "list_all (\<lambda>a. released a (pg_data s2)) pending" "\<forall>a. released a (pg_data s1) \<longrightarrow> released a (pg_data s2)"
    by blast
  have within: "locks_within (locks_of (pg_data s)) s2" using pm_start_within [OF assms(4) run p(2)] .
  have "payment_attempt_label k = None" if k: "k \<in> set (locks_of (pg_data s2) h)" for k h
  proof (cases "payment_attempt_label k")
    case (Some l)
    have "k \<in> set (locks_of (pg_data s) h)" using within k by (auto simp: locks_within_def)
    then have "h = owner l" "\<exists>r\<in>set (db_attempts (pg_data s)). ar_label r = l \<and> ar_success r = None"
      using s(3) Some by (auto simp: locks_of_def locks_open_def of_b32_inj)
    then obtain a where a: "a \<in> set as" "pa_label a = l" "pa_payment_hash a = h" using as(2,3) by auto
    then have "released a (pg_data s2)" using as(1) rel by (auto simp: list_all_iff)
    then show ?thesis using k a Some by (auto simp: released_def list_all_iff)
  qed simp
  then show ?thesis using init run unfolding list_all_iff by blast
qed

lemma ex_locked_run:
  "fold (run_swap_call ex_swap_cfg) [AddSwap ex_swap, LockAddPaymentAttempt ex_attempt]
     \<lparr>pg_data = empty_swap_db, pg_faults = []\<rparr> = ex_locked"
proof -
  have "pg_lock_add_payment_attempt ex_attempt ex_swap_db = (Inr (), ex_locked)"
    using ex_pay_locks [of ex_swap_cfg undefined undefined "()"]
    by (cases "pg_lock_add_payment_attempt ex_attempt ex_swap_db"; cases "fst (pg_lock_add_payment_attempt ex_attempt ex_swap_db)")
       (auto simp: pay_swap_lock_def attempt_def pg_server_def lift_swap_repository_def pg_swap_repository_def on_fst_def
         split: lock_swap_error.splits)
  then show ?thesis by (simp add: ex_add)
qed

lemma restart_releases_locks_witness:
  "\<exists>pm s1 s2 n2. locks_of (pg_data ex_locked) 77 \<noteq> [] \<and>
    pm_initialize (pg_payment_monitor ex_swap_cfg ex_slow_node [] 120) (ex_locked, 0) = (Inr pm, (s1, 0)) \<and>
    pm_start (1 + 2) (\<lambda>_. False) (\<lambda>d (s, n). (False, (s, Suc n))) pm (s1, 0) = (Inr (), (s2, n2)) \<and>
    list_all (\<lambda>k. payment_attempt_label k = None) (locks_of (pg_data s2) 77)"
proof -
  have c: "list_all (sound_call ex_swap_cfg (\<lambda>_. 77)) [AddSwap ex_swap, LockAddPaymentAttempt ex_attempt]"
    by (simp add: ex_attempt_def ex_swap_cfg_def)
  have m: "map_order_ok ex_swap_cfg" by (simp add: map_order_ok_def ex_swap_cfg_def)
  have s: "ex_locked = (fold (run_swap_call ex_swap_cfg) [AddSwap ex_swap, LockAddPaymentAttempt ex_attempt]
      \<lparr>pg_data = empty_swap_db, pg_faults = []\<rparr>)\<lparr>pg_faults := []\<rparr>"
    unfolding ex_locked_run by (simp add: ex_dbs)
  have u: "undisturbed Suc (\<lambda>d (s, n). (False, (s, Suc n)))" by (simp add: undisturbed_def)
  have a: "\<forall>k. answering ex_slow_node ((Suc ^^ k) 0)" by (simp add: answering_def ex_slow_node_def)
  have k: "\<forall>k\<ge>1. \<forall>h l. fst (get_payment_state ex_slow_node h l ((Suc ^^ k) 0)) \<noteq> Inr StatePending"
    by (simp add: ex_slow_node_def)
  have "locks_of (pg_data ex_locked) 77 \<noteq> []" by (simp add: locks_of_def ex_dbs)
  with restart_releases_locks [OF c m s u a k, of 120] show ?thesis by blast
qed

end
