(* ===== verification/Stored_Types.thy ===== *)
theory Stored_Types
  imports Restart
begin

text \<open>
  What the swap tables hold is well typed: whatever the daemon stored, and whatever statement failed
  on the way, every column that \<open>postgresql/swap_repository.rs\<close> parses when it reads can be parsed.
\<close>

section \<open>Well-typed rows\<close>

text \<open>
  What the daemon stores: a swap whose keys and address the crates print and parse, and the labels and
  attempts of \<open>sound_call\<close>.
\<close>

fun typed_call :: "swap_repo_cfg \<Rightarrow> (label \<Rightarrow> sha256) \<Rightarrow> swap_call \<Rightarrow> bool" where
  "typed_call cfg owner (AddSwap s) \<longleftrightarrow> storable cfg s"
| "typed_call cfg owner c \<longleftrightarrow> sound_call cfg owner c"

definition typed_swap :: "swap_repo_cfg \<Rightarrow> swap_row \<Rightarrow> bool" where
  "typed_swap cfg r \<longleftrightarrow> \<not> isl (map_swap_state cfg r) \<and> sr_payment_hash r \<in> range of_b32"

lemma typed_swapE:
  assumes "typed_swap cfg r" obtains st where "map_swap_state cfg r = Inr st"
  using assms by (cases "map_swap_state cfg r") (auto simp: typed_swap_def)

text \<open>An attempt is readable, and a success has its preimage with the swap.\<close>

definition typed_attempt ::
    "swap_repo_cfg \<Rightarrow> (label \<Rightarrow> sha256) \<Rightarrow> swap_row list \<Rightarrow> attempt_row \<Rightarrow> bool" where
  "typed_attempt cfg owner swaps r \<longleftrightarrow>
     readable cfg owner r \<and>
     (ar_success r = Some True \<longrightarrow>
       list_all (\<lambda>s. sr_payment_hash s = ar_swap_payment_hash r \<longrightarrow> sr_preimage s \<noteq> None) swaps)"

definition well_typed :: "swap_repo_cfg \<Rightarrow> (label \<Rightarrow> sha256) \<Rightarrow> swap_db \<Rightarrow> bool" where
  "well_typed cfg owner d \<longleftrightarrow>
     list_all (typed_swap cfg) (db_swaps d) \<and> list_all (typed_attempt cfg owner (db_swaps d)) (db_attempts d)"

abbreviation "pg_typed cfg owner \<equiv> \<lambda>s. well_typed cfg owner (pg_data s) \<and> swap_db_inv (pg_data s)"

text \<open>What a read may answer: a value, or that there is no such swap.\<close>

fun decodes :: "swap_repo_cfg \<Rightarrow> swap_call \<Rightarrow> swap_db pg \<Rightarrow> bool" where
  "decodes cfg (GetSwapByHash h) s \<longleftrightarrow>
     (case fst (pg_get_swap_by_hash cfg h s) of Inl e \<Rightarrow> e = GetSwapsNotFound | Inr st \<Rightarrow> swap_hash (swap_public (ss_swap st)) = h)"
| "decodes cfg (GetSwapByAddress a) s \<longleftrightarrow>
     (case fst (pg_get_swap_by_address cfg a s) of Inl e \<Rightarrow> e = GetSwapsNotFound | Inr st \<Rightarrow> True)"
| "decodes cfg (GetSwapByPaymentRequest p) s \<longleftrightarrow>
     (case fst (pg_get_swap_by_payment_request cfg p s) of Inl e \<Rightarrow> e = GetSwapsNotFound | Inr st \<Rightarrow> True)"
| "decodes cfg (GetSwapLocks h) s \<longleftrightarrow> \<not> isl (fst (pg_get_swap_locks h s))"
| "decodes cfg (GetSwapPaymentAttempts h) s \<longleftrightarrow> \<not> isl (fst (pg_get_swap_payment_attempts cfg h s))"
| "decodes cfg (GetSwaps as) s \<longleftrightarrow> \<not> isl (fst (pg_get_swaps cfg as s))"
| "decodes cfg (GetSwapsWithPaidOutpoints as) s \<longleftrightarrow> \<not> isl (fst (pg_get_swaps_with_paid_outpoints cfg as s))"
| "decodes cfg GetUnhandledPaymentAttempts s \<longleftrightarrow> \<not> isl (fst (pg_get_unhandled_payment_attempts cfg s))"
| "decodes cfg c s \<longleftrightarrow> True"

section \<open>The calls keep the rows well typed\<close>

lemma typed_add_swap:
  assumes "storable cfg s"
  shows "keeps (pg_typed cfg owner) (pg_add_swap s)"
proof (rule keepsI)
  fix w r w' assume w: "pg_typed cfg owner w" and run: "pg_add_swap s w = (r, w')"
  have inv: "swap_db_inv (pg_data w')" using w run keepsD [OF inv_add_swap] by blast
  show "pg_typed cfg owner w'"
  proof (cases r)
    case (Inl e)
    with run have "pg_data w' = pg_data w" by (auto simp: pg_add_swap_def op_iffs dest: stmt_Inl)
    with w show ?thesis by simp
  next
    case (Inr u)
    with run obtain secs where secs: "secs_of_time (creation_time s) = Some secs"
      and "insert_swap (swap_row_of s secs) (pg_data w) = Inr (u, pg_data w')"
      by (auto simp: pg_add_swap_def run_Inr dest!: stmt_Inr)
    then have w': "pg_data w' = (pg_data w)\<lparr>db_swaps := db_swaps (pg_data w) @ [swap_row_of s secs]\<rparr>"
      and new: "sr_payment_hash (swap_row_of s secs) \<notin> sr_payment_hash ` set (db_swaps (pg_data w))"
      by (auto simp: insert_swap_def split: if_splits)
    have "typed_swap cfg (swap_row_of s secs)"
      using map_swap_state_row [OF assms secs] assms by (simp add: typed_swap_def swap_row_of_def storable_def)
    moreover have "sr_payment_hash (swap_row_of s secs) \<noteq> ar_swap_payment_hash a" if "a \<in> set (db_attempts (pg_data w))" for a
      using that new w unfolding swap_db_inv_def by metis
    ultimately show ?thesis
      using w inv unfolding w' by (auto simp: well_typed_def typed_attempt_def list_all_iff)
  qed
qed

lemma typed_pay_lock:
  assumes "sound_call cfg owner (LockAddPaymentAttempt a)"
  shows "keeps (pg_typed cfg owner) (pg_lock_add_payment_attempt a)"
proof (rule keepsI)
  fix w r w' assume w: "pg_typed cfg owner w" and run: "pg_lock_add_payment_attempt a w = (r, w')"
  have inv: "swap_db_inv (pg_data w')" using w run keepsD [OF inv_pay_lock] by blast
  show "pg_typed cfg owner w'"
  proof (cases r)
    case (Inl e)
    with run w lock_op_Inl(1) show ?thesis by metis
  next
    case (Inr u)
    with run pg_lock_pay_Inr obtain secs where secs: "secs_of_time (pa_creation_time a) = Some secs"
      and w': "pg_data w' = pay_lock_effect a secs (pg_data w)" by blast
    have "time_of_secs secs \<noteq> None" using time_of_secs_of_time [of "pa_creation_time a"] secs assms by auto
    with w inv assms show ?thesis unfolding w'
      by (auto simp: well_typed_def typed_attempt_def readable_def list_all_iff pay_lock_effect_def insert_attempt_def
          insert_attempt_outputs_def insert_lock_def)
  qed
qed

lemma typed_swap_preimage:
  assumes "typed_swap cfg r" shows "typed_swap cfg (r\<lparr>sr_preimage := Some (of_b32 p)\<rparr>)"
proof -
  from assms obtain st where "map_swap_state cfg r = Inr st" by (rule typed_swapE)
  from map_swap_state_preimage [OF this] assms show ?thesis by (simp add: typed_swap_def)
qed

lemma typed_store:
  assumes "well_typed cfg owner d" and "owner l = h"
  shows "well_typed cfg owner (store_effect h l res d)"
proof (cases res)
  case (PaymentSuccess p)
  with assms show ?thesis
    by (auto simp: store_effect_def update_attempts_def update_swaps_def well_typed_def typed_attempt_def readable_def
        list_all_iff typed_swap_preimage)
next
  case (PaymentFailure e)
  with assms show ?thesis
    by (auto simp: store_effect_def update_attempts_def well_typed_def typed_attempt_def readable_def list_all_iff)
qed

lemma typed_delete_locks: "well_typed cfg owner (delete_locks P d) = well_typed cfg owner d"
  by (simp add: delete_locks_def well_typed_def typed_attempt_def)

lemma typed_pay_unlock:
  assumes "owner l = h"
  shows "keeps (pg_typed cfg owner) (pg_unlock_add_payment_result h l res)"
proof (rule keepsI)
  fix w r w' assume w: "pg_typed cfg owner w" and run: "pg_unlock_add_payment_result h l res w = (r, w')"
  have inv: "swap_db_inv (pg_data w')" using w run keepsD [OF inv_pay_unlock] by blast
  show "pg_typed cfg owner w'"
    using run w inv assms
    by (cases r) (auto dest!: pg_unlock_pay_Inr lock_op_Inl(3) simp: pay_unlock_effect_def typed_store typed_delete_locks)
qed

lemma typed_refunds:
  "keeps (pg_typed cfg owner) (pg_lock_swap_refund h rid)"
  "keeps (pg_typed cfg owner) (pg_unlock_swap_refund h rid)"
proof -
  show "keeps (pg_typed cfg owner) (pg_lock_swap_refund h rid)"
  proof (rule keepsI)
    fix w r w' assume w: "pg_typed cfg owner w" and run: "pg_lock_swap_refund h rid w = (r, w')"
    have "swap_db_inv (pg_data w')" using w run keepsD [OF inv_refund_lock] by blast
    then show "pg_typed cfg owner w'" using run w
      by (cases r) (auto dest!: pg_lock_refund_Inr lock_op_Inl(2) simp: refund_lock_effect_def insert_lock_def
          well_typed_def typed_attempt_def)
  qed
  show "keeps (pg_typed cfg owner) (pg_unlock_swap_refund h rid)"
  proof (rule keepsI)
    fix w r w' assume w: "pg_typed cfg owner w" and run: "pg_unlock_swap_refund h rid w = (r, w')"
    have "swap_db_inv (pg_data w')" using w run keepsD [OF inv_refund_unlock] by blast
    then show "pg_typed cfg owner w'" using run w
      by (cases r) (auto dest!: pg_unlock_refund_Inr lock_op_Inl(4) simp: refund_unlock_effect_def typed_delete_locks)
  qed
qed

lemma typed_calls:
  "list_all (typed_call cfg owner) calls \<Longrightarrow> pg_typed cfg owner w \<Longrightarrow> pg_typed cfg owner (fold (run_swap_call cfg) calls w)"
proof (induction calls arbitrary: w)
  case (Cons c calls)
  have "pg_typed cfg owner (run_swap_call cfg c w)"
    using Cons.prems
    by (cases c) (auto simp del: conj_imp_eq_imp_imp intro!: keeps_apply [where P = "pg_typed cfg owner"]
      reads_keep [where P = "\<lambda>d. well_typed cfg owner d \<and> swap_db_inv d"]
      typed_add_swap typed_pay_lock typed_refunds typed_pay_unlock)
  with Cons show ?case by simp
qed simp

section \<open>Reading well-typed rows\<close>

lemma typed_hash:
  "typed_swap cfg r \<Longrightarrow> map_swap_state cfg r = Inr st \<Longrightarrow> of_b32 (swap_hash (swap_public (ss_swap st))) = sr_payment_hash r"
  by (auto simp: typed_swap_def map_swap_state_def bind_res_Inr of_option_Inr)

lemma map_swap_state_fields:
  "map_swap_state cfg r = Inr st \<Longrightarrow>
     parse_address (rc_lib cfg) (rc_network cfg) (sr_address r) = Some (sp_address (swap_public (ss_swap st)))"
  "map_swap_state cfg r = Inr st \<Longrightarrow> sr_preimage r = Some p \<Longrightarrow> \<exists>q. to_b32 p = Some q"
  by (auto simp: map_swap_state_def bind_res_Inr of_option_Inr split: option.splits)

lemma swap_of_rows_decodes:
  assumes "pg_faults s = []" and "list_all (typed_swap cfg) (db_swaps (pg_data s))"
    and "set (sel (pg_data s)) \<subseteq> set (db_swaps (pg_data s))"
  shows "(sel (pg_data s) = [] \<and> fst (swap_of_rows cfg sel s) = Inl GetSwapsNotFound) \<or>
    (\<exists>r\<in>set (sel (pg_data s)). \<exists>st. map_swap_state cfg r = Inr st \<and> fst (swap_of_rows cfg sel s) = Inr st)"
proof (cases "sel (pg_data s)")
  case Nil
  with assms(1) show ?thesis by (simp add: swap_of_rows_def first_row_def seq_def map_err_def query_no_fault fail_def)
next
  case (Cons r rs)
  with assms(2,3) have "typed_swap cfg r" by (auto simp: list_all_iff)
  then obtain st where "map_swap_state cfg r = Inr st" by (rule typed_swapE)
  with assms(1) Cons show ?thesis by (simp add: swap_of_rows_def first_row_def seq_def map_err_def query_no_fault)
qed

lemma collect_swaps_decodes: "list_all (typed_swap cfg) rs \<Longrightarrow> \<not> isl (collect_swaps cfg rs m)"
proof (induction rs arbitrary: m)
  case (Cons r rs)
  from Cons.prems have "typed_swap cfg r" by simp
  then obtain st where "map_swap_state cfg r = Inr st" by (rule typed_swapE)
  with Cons show ?case by (simp add: bind_res_def)
qed simp

lemma collect_paid_decodes:
  "list_all (\<lambda>(r, q). typed_swap cfg r) rows \<Longrightarrow> \<not> isl (collect_paid cfg rows m)"
proof (induction rows arbitrary: m)
  case (Cons row rows)
  obtain r paid where row: "row = (r, paid)" by fastforce
  with Cons.prems have "typed_swap cfg r" by simp
  then obtain st where st: "map_swap_state cfg r = Inr st" by (rule typed_swapE)
  define a where "a = sp_address (swap_public (ss_swap st))"
  have addr: "parse_row_address cfg (sr_address r) = Inr a"
    using map_swap_state_fields(1) [OF st] by (simp add: parse_row_address_def of_option_def a_def)
  define m' where "m' = (if m a \<noteq> None then m else m(a \<mapsto> \<lparr>spo_swap_state = st, spo_paid_outpoints = []\<rparr>))"
  have entry: "(if m a \<noteq> None then Inr m else bind_res (map_swap_state cfg r) (\<lambda>st.
      Inr (m(a \<mapsto> \<lparr>spo_swap_state = st, spo_paid_outpoints = []\<rparr>)))) = Inr m'"
    by (simp add: st bind_res_def m'_def)
  have "m' a \<noteq> None" by (simp add: m'_def)
  then obtain e where e: "m' a = Some e" by blast
  show ?case
    using Cons entry e by (cases paid) (auto simp del: fun_upd_apply simp: row addr bind_res_def of_option_def)
qed simp

lemma attempt_result_decodes:
  assumes "ar_success r = Some True \<longrightarrow> (\<exists>q. Option.bind p to_b32 = Some q)"
  shows "\<not> isl (attempt_result r p)"
  using assms by (auto simp: attempt_result_def of_option_def split: option.splits bool.splits)

lemma collect_results_decodes:
  assumes "list_all (\<lambda>((r, out), p). readable cfg owner r \<and> \<not> isl (attempt_result r p)) rows"
  shows "\<not> isl (collect_results cfg rows m)"
  using assms
proof (induction rows arbitrary: m)
  case (Cons row rows)
  obtain r out p where row: "row = ((r, out), p)" by (metis prod.exhaust)
  with Cons.prems obtain a where "parse_attempt cfg r = Inr a" using parse_attempt_readable by fastforce
  moreover obtain res where "attempt_result r p = Inr res" using Cons.prems row by (cases "attempt_result r p") auto
  ultimately show ?case using Cons row by (simp add: bind_res_def)
qed simp

lemma joined_attempts:
  assumes "well_typed cfg owner d" and "(row, out) \<in> set (attempt_join sel d)"
  shows "typed_attempt cfg owner (db_swaps d) row \<and> row \<in> set (db_attempts d)"
proof -
  have "row \<in> fst ` set (attempt_join sel d)" using assms(2) by force
  then show ?thesis using assms(1) by (simp add: set_attempt_join well_typed_def list_all_iff)
qed

lemma unhandled_decode:
  assumes "pg_faults s = []" and "well_typed cfg owner (pg_data s)"
  shows "\<not> isl (fst (pg_get_unhandled_payment_attempts cfg s))"
proof -
  let ?rows = "attempt_join (\<lambda>pa. ar_success pa = None) (pg_data s)"
  have "list_all (\<lambda>(r, out). readable cfg owner r) ?rows"
    using joined_attempts [OF assms(2)] by (auto simp: list_all_iff typed_attempt_def)
  from collect_readable [OF this, of "([], Map.empty)"] obtain m where "collect_attempts cfg ?rows ([], Map.empty) = Inr m"
    by (auto simp: loaded_def)
  with assms(1) show ?thesis by (simp add: pg_get_unhandled_payment_attempts_def seq_def map_err_def query_no_fault ret_def)
qed

lemma results_decode:
  assumes "pg_faults s = []" and "pg_typed cfg owner s"
  shows "\<not> isl (fst (pg_get_swap_payment_attempts cfg h s))"
proof -
  let ?d = "pg_data s"
  have "readable cfg owner r \<and> \<not> isl (attempt_result r p)" if x: "((r, out), p) \<in> set (swap_attempt_rows (of_b32 h) ?d)" for r out p
  proof -
    from x obtain sw where sw: "(r, out) \<in> set (attempt_join (\<lambda>pa. ar_swap_payment_hash pa = of_b32 h) ?d)"
      "sw \<in> set (db_swaps ?d)" "sr_payment_hash sw = ar_swap_payment_hash r" "p = sr_preimage sw"
      by (auto simp: swap_attempt_rows_def)
    then have r: "typed_attempt cfg owner (db_swaps ?d) r" using joined_attempts assms(2) by blast
    have "typed_swap cfg sw" using sw(2) assms(2) by (simp add: well_typed_def list_all_iff)
    then obtain st where st: "map_swap_state cfg sw = Inr st" by (rule typed_swapE)
    have "\<exists>q. Option.bind p to_b32 = Some q" if "ar_success r = Some True"
    proof -
      have "sr_preimage sw \<noteq> None" using that r sw(2,3) by (auto simp: typed_attempt_def list_all_iff)
      then obtain b where b: "sr_preimage sw = Some b" by blast
      from map_swap_state_fields(2) [OF st b] show ?thesis by (simp add: b sw(4))
    qed
    then show ?thesis using r attempt_result_decodes [of r p] by (simp add: typed_attempt_def)
  qed
  then have "list_all (\<lambda>((r, out), p). readable cfg owner r \<and> \<not> isl (attempt_result r p)) (swap_attempt_rows (of_b32 h) ?d)"
    by (auto simp: list_all_iff)
  from collect_results_decodes [OF this, of "([], Map.empty)"]
  obtain m where "collect_results cfg (swap_attempt_rows (of_b32 h) ?d) ([], Map.empty) = Inr m"
    by (cases "collect_results cfg (swap_attempt_rows (of_b32 h) ?d) ([], Map.empty)") auto
  with assms(1) show ?thesis by (simp add: pg_get_swap_payment_attempts_def seq_def map_err_def query_no_fault ret_def)
qed

lemma swaps_decode:
  assumes "pg_faults s = []" and "list_all (typed_swap cfg) (db_swaps (pg_data s))"
  shows "\<not> isl (fst (pg_get_swaps cfg as s))" and "\<not> isl (fst (pg_get_swaps_with_paid_outpoints cfg as s))"
proof -
  have "list_all (typed_swap cfg) (filter (\<lambda>r. sr_address r \<in> set as) (db_swaps (pg_data s)))"
    using assms(2) by (simp add: list_all_iff)
  from collect_swaps_decodes [OF this] assms(1) show "\<not> isl (fst (pg_get_swaps cfg as s))"
    by (simp add: pg_get_swaps_def seq_def map_err_def query_no_fault)
  have "list_all (\<lambda>(r, q). typed_swap cfg r) (swap_paid_rows cfg as (pg_data s))"
    using assms(2) by (auto simp: list_all_iff swap_paid_rows_def split: list.splits)
  from collect_paid_decodes [OF this] assms(1) show "\<not> isl (fst (pg_get_swaps_with_paid_outpoints cfg as s))"
    by (simp add: pg_get_swaps_with_paid_outpoints_def seq_def map_err_def query_no_fault)
qed

lemma typed_decodes:
  assumes f: "pg_faults s = []" and t: "pg_typed cfg owner s"
  shows "decodes cfg c s"
proof -
  have sw: "list_all (typed_swap cfg) (db_swaps (pg_data s))" using t by (simp add: well_typed_def)
  show ?thesis
  proof (cases c)
    case (GetSwapByHash h)
    let ?sel = "\<lambda>d. filter (\<lambda>r. sr_payment_hash r = of_b32 h) (db_swaps d)"
    from swap_of_rows_decodes [OF f sw, of ?sel] consider
        "fst (swap_of_rows cfg ?sel s) = Inl GetSwapsNotFound"
      | r st where "r \<in> set (db_swaps (pg_data s))" "sr_payment_hash r = of_b32 h" "map_swap_state cfg r = Inr st"
          "fst (swap_of_rows cfg ?sel s) = Inr st" by auto
    then show ?thesis
    proof cases
      case 2
      have "typed_swap cfg r" using 2(1) sw by (simp add: list_all_iff)
      from typed_hash [OF this 2(3)] 2(2,4) show ?thesis by (simp add: GetSwapByHash pg_get_swap_by_hash_def)
    qed (simp add: GetSwapByHash pg_get_swap_by_hash_def)
  next
    case (GetSwapByAddress a)
    from swap_of_rows_decodes [OF f sw, of "\<lambda>d. filter (\<lambda>r. sr_address r = a) (db_swaps d)"] show ?thesis
      by (auto simp: GetSwapByAddress pg_get_swap_by_address_def)
  next
    case (GetSwapByPaymentRequest p)
    from swap_of_rows_decodes [OF f sw, of "\<lambda>d. [s. s \<leftarrow> db_swaps d, q \<leftarrow> db_attempts d,
        ar_swap_payment_hash q = sr_payment_hash s, ar_payment_request q = p]"] show ?thesis
      by (auto simp: GetSwapByPaymentRequest pg_get_swap_by_payment_request_def split: sum.split)
  qed (use f t sw swaps_decode results_decode unhandled_decode in
    \<open>auto simp: pg_get_swap_locks_def map_err_def query_no_fault\<close>)
qed

text \<open>C6: what is stored can be read. From the empty tables, after any calls with values the crates parse
  and with any failing statements, every read of the repository that reaches the database returns its
  value: no stored key, address, hash, time or preimage fails to parse, an attempt that succeeded has
  its preimage, and a swap found by its hash has that hash.\<close>

theorem stored_values_decode:
  assumes "list_all (typed_call cfg owner) calls"
  shows "decodes cfg c ((fold (run_swap_call cfg) calls \<lparr>pg_data = empty_swap_db, pg_faults = fs\<rparr>)\<lparr>pg_faults := []\<rparr>)"
proof (rule typed_decodes)
  have "pg_typed cfg owner \<lparr>pg_data = empty_swap_db, pg_faults = fs\<rparr>"
    by (simp add: well_typed_def empty_swap_db_def swap_db_inv_def)
  from typed_calls [OF assms this] show "pg_typed cfg owner
      ((fold (run_swap_call cfg) calls \<lparr>pg_data = empty_swap_db, pg_faults = fs\<rparr>)\<lparr>pg_faults := []\<rparr>)" by simp
qed simp

lemma stored_values_decode_witness:
  "decodes ex_swap_cfg (GetSwapPaymentAttempts 77) ((fold (run_swap_call ex_swap_cfg)
     [AddSwap ex_swap, LockAddPaymentAttempt ex_attempt, UnlockAddPaymentResult 77 ''77-6'' (PaymentSuccess 9)]
     \<lparr>pg_data = empty_swap_db, pg_faults = []\<rparr>)\<lparr>pg_faults := []\<rparr>)"
proof -
  have "list_all (typed_call ex_swap_cfg (\<lambda>_. 77))
      [AddSwap ex_swap, LockAddPaymentAttempt ex_attempt, UnlockAddPaymentResult 77 ''77-6'' (PaymentSuccess 9)]"
    using ex_storable by (simp add: ex_attempt_def ex_swap_cfg_def)
  then show ?thesis by (rule stored_values_decode)
qed

end
