(* ===== verification/Memchain.thy ===== *)
theory Memchain
  imports Chain_Types
begin

text \<open>
  The in-memory chain of block headers (\<open>chain/memchain.rs\<close>): a hash map from block hashes to
  headers with a forward pointer, a tip and a base. Every failed \<open>expect\<close> is a \<open>Panic\<close>, every
  loop takes fuel. A chain refines the list of its headers from base to tip, \<open>chain_of\<close>, and
  the operations refine operations on that list.
\<close>

section \<open>The structure and its operations\<close>

record block_info =
  bi_header :: block_header
  bi_next :: "block_hash option"

record chain =
  ch_tip :: block_hash
  ch_base :: block_hash
  ch_blocks :: "block_hash \<rightharpoonup> block_info"

definition chain_new :: "block_header \<Rightarrow> chain" where
  "chain_new tip =
     \<lparr>ch_tip = bh_hash tip, ch_base = bh_hash tip,
      ch_blocks = [bh_hash tip \<mapsto> \<lparr>bi_header = tip, bi_next = None\<rparr>]\<rparr>"

definition chain_append :: "block_header \<Rightarrow> (chain, chain_error exn, unit) op" where
  "chain_append new_tip c =
     (if bh_prev new_tip \<noteq> ch_tip c then (Inl (Err InvalidChain), c)
      else (case ch_blocks c (ch_tip c) of
              None \<Rightarrow> (Inl Panic, c)
            | Some old_tip \<Rightarrow>
                (Inr (),
                 c\<lparr>ch_tip := bh_hash new_tip,
                   ch_blocks := (ch_blocks c)
                     (ch_tip c \<mapsto> old_tip\<lparr>bi_next := Some (bh_hash new_tip)\<rparr>,
                      bh_hash new_tip \<mapsto> \<lparr>bi_header = new_tip, bi_next = None\<rparr>)\<rparr>)))"

definition chain_base :: "chain \<Rightarrow> chain_error exn + block_header" where
  "chain_base c = of_option Panic (map_option bi_header (ch_blocks c (ch_base c)))"

definition chain_tip :: "chain \<Rightarrow> chain_error exn + block_header" where
  "chain_tip c = of_option Panic (map_option bi_header (ch_blocks c (ch_tip c)))"

definition contains_block :: "chain \<Rightarrow> block_hash \<Rightarrow> bool" where
  "contains_block c h \<longleftrightarrow> ch_blocks c h \<noteq> None"

definition chain_get_block :: "chain \<Rightarrow> block_hash \<Rightarrow> chain_error exn + block_header" where
  "chain_get_block c h =
     (case ch_blocks c h of Some b \<Rightarrow> Inr (bi_header b) | None \<Rightarrow> Inl (Err BlockNotFound))"

definition chain_prepend :: "block_header \<Rightarrow> (chain, chain_error exn, unit) op" where
  "chain_prepend base c =
     (case ch_blocks c (ch_base c) of
        None \<Rightarrow> (Inl Panic, c)
      | Some old_base \<Rightarrow>
          if bh_prev (bi_header old_base) \<noteq> bh_hash base then (Inl (Err InvalidChain), c)
          else (Inr (),
                c\<lparr>ch_base := bh_hash base,
                  ch_blocks := (ch_blocks c)
                    (bh_hash base \<mapsto>
                       \<lparr>bi_header = base, bi_next = Some (bh_hash (bi_header old_base))\<rparr>)\<rparr>))"

text \<open>The loop of \<open>rebase\<close>; \<open>next_block\<close> is its variable.\<close>

fun rebase_loop :: "nat \<Rightarrow> chain \<Rightarrow> block_header \<Rightarrow> (chain, chain_error exn, unit) op" where
  "rebase_loop 0 other next_block = fail Diverged"
| "rebase_loop (Suc n) other next_block =
     (if bh_hash next_block = ch_base other then ret ()
      else seq (lift_res (chain_get_block other (bh_prev next_block))) (\<lambda>current_block.
           seq (chain_prepend current_block) (\<lambda>_.
           rebase_loop n other current_block)))"

definition chain_rebase :: "nat \<Rightarrow> chain \<Rightarrow> (chain, chain_error exn, unit) op" where
  "chain_rebase fuel other c =
     seq (lift_res (chain_base c)) (\<lambda>next_block. rebase_loop fuel other next_block) c"

section \<open>Iterators\<close>

text \<open>
  An iterator's state is its \<open>current\<close> field; \<open>next\<close> looks the following block up before it
  returns the current header.
\<close>

definition fwd_new :: "chain \<Rightarrow> chain_error exn + block_info option" where
  "fwd_new c = (case ch_blocks c (ch_base c) of None \<Rightarrow> Inl Panic | Some i \<Rightarrow> Inr (Some i))"

definition fwd_next ::
    "chain \<Rightarrow> block_info option \<Rightarrow> chain_error exn + (block_header \<times> block_info option) option" where
  "fwd_next c current =
     (case current of
        None \<Rightarrow> Inr None
      | Some cur \<Rightarrow>
          (case bi_next cur of
             None \<Rightarrow> Inr (Some (bi_header cur, None))
           | Some n \<Rightarrow>
               (case ch_blocks c n of
                  None \<Rightarrow> Inl Panic
                | Some i \<Rightarrow> Inr (Some (bi_header cur, Some i)))))"

definition bwd_new :: "chain \<Rightarrow> chain_error exn + block_info option" where
  "bwd_new c = (case ch_blocks c (ch_tip c) of None \<Rightarrow> Inl Panic | Some i \<Rightarrow> Inr (Some i))"

definition bwd_next ::
    "chain \<Rightarrow> block_info option \<Rightarrow> chain_error exn + (block_header \<times> block_info option) option" where
  "bwd_next c current =
     (case current of
        None \<Rightarrow> Inr None
      | Some cur \<Rightarrow>
          if bh_hash (bi_header cur) = ch_base c then Inr (Some (bi_header cur, None))
          else (case ch_blocks c (bh_prev (bi_header cur)) of
                  None \<Rightarrow> Inl Panic
                | Some i \<Rightarrow> Inr (Some (bi_header cur, Some i))))"

text \<open>\<open>collect\<close> on an iterator.\<close>

fun iter_collect ::
    "nat \<Rightarrow> (block_info option \<Rightarrow> chain_error exn + (block_header \<times> block_info option) option) \<Rightarrow>
     block_info option \<Rightarrow> chain_error exn + block_header list" where
  "iter_collect 0 nxt cur = Inl Diverged"
| "iter_collect (Suc n) nxt cur =
     bind_res (nxt cur) (\<lambda>r.
       case r of
         None \<Rightarrow> Inr []
       | Some (h, cur') \<Rightarrow> bind_res (iter_collect n nxt cur') (\<lambda>hs. Inr (h # hs)))"

definition iter_forwards :: "nat \<Rightarrow> chain \<Rightarrow> chain_error exn + block_header list" where
  "iter_forwards fuel c = bind_res (fwd_new c) (iter_collect fuel (fwd_next c))"

definition iter_backwards :: "nat \<Rightarrow> chain \<Rightarrow> chain_error exn + block_header list" where
  "iter_backwards fuel c = bind_res (bwd_new c) (iter_collect fuel (bwd_next c))"

section \<open>\<open>retip\<close> and \<open>try_from\<close>\<close>

fun retip_remove :: "nat \<Rightarrow> block_hash option \<Rightarrow> (chain, chain_error exn, unit) op" where
  "retip_remove n None c = (Inr (), c)"
| "retip_remove 0 (Some k) c = (Inl Diverged, c)"
| "retip_remove (Suc n) (Some k) c =
     (case ch_blocks c k of
        None \<Rightarrow> (Inl Panic, c)
      | Some i \<Rightarrow> retip_remove n (bi_next i) (c\<lparr>ch_blocks := (ch_blocks c)(k := None)\<rparr>))"

fun retip_append ::
    "nat \<Rightarrow> chain \<Rightarrow> block_info option \<Rightarrow> (chain, chain_error exn, unit) op" where
  "retip_append 0 other cur = fail Diverged"
| "retip_append (Suc n) other cur =
     seq (lift_res (fwd_next other cur)) (\<lambda>r.
       case r of
         None \<Rightarrow> ret ()
       | Some (h, cur') \<Rightarrow> seq (chain_append h) (\<lambda>_. retip_append n other cur'))"

definition chain_retip :: "nat \<Rightarrow> chain \<Rightarrow> (chain, chain_error exn, unit) op" where
  "chain_retip fuel other c =
     (case ch_blocks c (ch_base other) of
        None \<Rightarrow> (Inl (Err BlockNotFound), c)
      | Some tip \<Rightarrow>
          seq (retip_remove fuel (bi_next tip)) (\<lambda>_.
          seq (lift_res (fwd_new other)) (\<lambda>first.
          seq (lift_res (fwd_next other first)) (\<lambda>skipped.
            case skipped of
              None \<Rightarrow> ret ()
            | Some (_, cur) \<Rightarrow> retip_append fuel other cur)))
          (c\<lparr>ch_tip := bh_hash (bi_header tip),
             ch_blocks := (ch_blocks c)(ch_base other \<mapsto> tip\<lparr>bi_next := None\<rparr>)\<rparr>))"

definition chain_try_from :: "block_header list \<Rightarrow> chain_error exn + chain" where
  "chain_try_from headers =
     (case headers of
        [] \<Rightarrow> Inl (Err EmptyChain)
      | tip # rest \<Rightarrow>
          (case for_each chain_prepend rest (chain_new tip) of
             (Inl e, _) \<Rightarrow> Inl e
           | (Inr _, c) \<Rightarrow> Inr c))"

section \<open>The list of headers a chain stands for\<close>

fun blocks_of :: "block_header list \<Rightarrow> (block_hash \<rightharpoonup> block_info)" where
  "blocks_of [] = Map.empty"
| "blocks_of [h] = [bh_hash h \<mapsto> \<lparr>bi_header = h, bi_next = None\<rparr>]"
| "blocks_of (h # g # hs) =
     (blocks_of (g # hs))(bh_hash h \<mapsto> \<lparr>bi_header = h, bi_next = Some (bh_hash g)\<rparr>)"

definition chain_of :: "block_header list \<Rightarrow> chain" where
  "chain_of hs =
     \<lparr>ch_tip = bh_hash (last hs), ch_base = bh_hash (hd hs), ch_blocks = blocks_of hs\<rparr>"

fun linked :: "block_header list \<Rightarrow> bool" where
  "linked (g # h # hs) \<longleftrightarrow> bh_prev h = bh_hash g \<and> linked (h # hs)"
| "linked _ \<longleftrightarrow> True"

definition hashes :: "block_header list \<Rightarrow> block_hash set" where
  "hashes hs = bh_hash ` set hs"

definition good_headers :: "block_header list \<Rightarrow> bool" where
  "good_headers hs \<longleftrightarrow> hs \<noteq> [] \<and> linked hs \<and> distinct (map bh_hash hs)"

lemma chain_of_sel [simp]:
  "ch_tip (chain_of hs) = bh_hash (last hs)"
  "ch_base (chain_of hs) = bh_hash (hd hs)"
  "ch_blocks (chain_of hs) = blocks_of hs"
  by (simp_all add: chain_of_def)

lemma chain_new_chain_of: "chain_new h = chain_of [h]"
  by (simp add: chain_new_def chain_of_def)

lemma hashes_simps [simp]:
  "hashes [] = {}" "hashes (h # hs) = insert (bh_hash h) (hashes hs)"
  "hashes (xs @ ys) = hashes xs \<union> hashes ys" "hashes (rev hs) = hashes hs"
  by (auto simp: hashes_def)

lemma blocks_of_Cons:
  "blocks_of (h # hs) = (blocks_of hs)(bh_hash h \<mapsto> \<lparr>bi_header = h,
     bi_next = (case hs of [] \<Rightarrow> None | g # _ \<Rightarrow> Some (bh_hash g))\<rparr>)"
  by (cases hs) auto

lemma dom_blocks_of [simp]: "dom (blocks_of hs) = hashes hs"
  by (induction hs) (simp_all add: blocks_of_Cons del: fun_upd_apply)

lemma blocks_of_eq_None [simp]: "blocks_of hs k = None \<longleftrightarrow> k \<notin> hashes hs"
  using dom_blocks_of [of hs] by (metis domIff)

lemma blocks_of_SomeD: "blocks_of hs k = Some i \<Longrightarrow> k \<in> hashes hs"
  by (metis blocks_of_eq_None option.distinct(1))

lemma distinct_hashes_append:
  "distinct (map bh_hash (xs @ ys)) \<longleftrightarrow>
     distinct (map bh_hash xs) \<and> distinct (map bh_hash ys) \<and> hashes xs \<inter> hashes ys = {}"
  by (auto simp: hashes_def)

lemma blocks_of_at:
  "distinct (map bh_hash (xs @ a # ys)) \<Longrightarrow>
     blocks_of (xs @ a # ys) (bh_hash a) =
       Some \<lparr>bi_header = a, bi_next = (case ys of [] \<Rightarrow> None | y # _ \<Rightarrow> Some (bh_hash y))\<rparr>"
proof (induction xs)
  case Nil
  then show ?case by (simp add: blocks_of_Cons)
next
  case (Cons x xs)
  then show ?case by (auto simp: blocks_of_Cons [of x])
qed

lemma linked_Cons:
  "linked (h # hs) \<longleftrightarrow> linked hs \<and> (hs = [] \<or> bh_prev (hd hs) = bh_hash h)"
  by (cases hs) auto

lemma linked_append:
  "linked (xs @ ys) \<longleftrightarrow>
     linked xs \<and> linked ys \<and> (xs = [] \<or> ys = [] \<or> bh_prev (hd ys) = bh_hash (last xs))"
  by (induction xs) (auto simp: linked_Cons)

lemma good_headers_append:
  "good_headers (xs @ ys) \<longleftrightarrow>
     (if xs = [] then good_headers ys else if ys = [] then good_headers xs
      else good_headers xs \<and> good_headers ys \<and> bh_prev (hd ys) = bh_hash (last xs) \<and>
           hashes xs \<inter> hashes ys = {})"
  by (auto simp: good_headers_def linked_append distinct_hashes_append simp del: map_append)

lemma good_headers_prefix: "good_headers (xs @ a # ys) \<Longrightarrow> good_headers (xs @ [a])"
  using good_headers_append [of "xs @ [a]" ys] by (auto split: if_splits)

lemma good_headers_suffix: "good_headers (xs @ ys) \<Longrightarrow> ys \<noteq> [] \<Longrightarrow> good_headers ys"
  by (auto simp: good_headers_append split: if_splits)

lemma good_headers_single [simp]: "good_headers [h]"
  by (simp add: good_headers_def)

section \<open>Refinement of the operations\<close>

lemma blocks_of_last:
  "good_headers (xs @ [a]) \<Longrightarrow>
     blocks_of (xs @ [a]) (bh_hash a) = Some \<lparr>bi_header = a, bi_next = None\<rparr>"
  using blocks_of_at [of xs a "[]"] by (simp add: good_headers_def)

lemma blocks_of_hd:
  "good_headers hs \<Longrightarrow> blocks_of hs (bh_hash (hd hs)) =
     Some \<lparr>bi_header = hd hs, bi_next = (case tl hs of [] \<Rightarrow> None | y # _ \<Rightarrow> Some (bh_hash y))\<rparr>"
  by (cases hs) (simp_all add: good_headers_def blocks_of_Cons)

lemma blocks_of_snoc:
  assumes "distinct (map bh_hash (xs @ [a, t]))"
  shows "blocks_of (xs @ [a, t]) =
     (blocks_of (xs @ [a]))
       (bh_hash a \<mapsto> \<lparr>bi_header = a, bi_next = Some (bh_hash t)\<rparr>,
        bh_hash t \<mapsto> \<lparr>bi_header = t, bi_next = None\<rparr>)"
  using assms
proof (induction xs)
  case (Cons x xs)
  have "(case xs @ [a, t] of [] \<Rightarrow> None | g # _ \<Rightarrow> Some (bh_hash g)) =
      (case xs @ [a] of [] \<Rightarrow> None | g # _ \<Rightarrow> Some (bh_hash g))"
    by (cases xs) auto
  with Cons show ?case
    by (auto simp: blocks_of_Cons [of x] fun_eq_iff)
qed (auto simp: fun_eq_iff)

lemma chain_append_chain_of:
  assumes "good_headers hs" and "bh_hash t \<notin> hashes hs"
  shows "chain_append t (chain_of hs) =
     (if bh_prev t = bh_hash (last hs) then (Inr (), chain_of (hs @ [t]))
      else (Inl (Err InvalidChain), chain_of hs))"
proof -
  from assms(1) obtain xs a where hs: "hs = xs @ [a]"
    by (metis good_headers_def rev_exhaust)
  have "distinct (map bh_hash (xs @ [a, t]))"
    using assms by (auto simp: hs good_headers_def hashes_def)
  from blocks_of_snoc [OF this] show ?thesis
    using assms(1) by (auto simp: chain_append_def hs blocks_of_last chain_of_def hd_append)
qed

lemma chain_prepend_chain_of:
  assumes "good_headers hs"
  shows "chain_prepend b (chain_of hs) =
     (if bh_prev (hd hs) = bh_hash b then (Inr (), chain_of (b # hs))
      else (Inl (Err InvalidChain), chain_of hs))"
  using assms
  by (cases hs) (auto simp: chain_prepend_def blocks_of_Cons chain_of_def good_headers_def)

lemma chain_base_chain_of [simp]: "good_headers hs \<Longrightarrow> chain_base (chain_of hs) = Inr (hd hs)"
  by (simp add: chain_base_def blocks_of_hd of_option_def)

lemma chain_tip_chain_of [simp]:
  assumes "good_headers hs"
  shows "chain_tip (chain_of hs) = Inr (last hs)"
proof -
  from assms obtain xs a where "hs = xs @ [a]"
    by (metis good_headers_def rev_exhaust)
  with assms show ?thesis by (simp add: chain_tip_def blocks_of_last of_option_def)
qed

lemma contains_block_chain_of [simp]: "contains_block (chain_of hs) h \<longleftrightarrow> h \<in> hashes hs"
  by (simp add: contains_block_def)

subsection \<open>Iterators\<close>

definition cursor :: "block_header list \<Rightarrow> block_header list \<Rightarrow> block_info option" where
  "cursor hs ys = (case ys of [] \<Rightarrow> None | y # _ \<Rightarrow> blocks_of hs (bh_hash y))"

lemma fwd_new_chain_of: "good_headers hs \<Longrightarrow> fwd_new (chain_of hs) = Inr (cursor hs hs)"
  by (cases hs) (auto simp: fwd_new_def cursor_def blocks_of_Cons good_headers_def)

lemma fwd_next_chain_of:
  assumes "good_headers (xs @ y # ys)"
  shows "fwd_next (chain_of (xs @ y # ys)) (cursor (xs @ y # ys) (y # ys)) =
     Inr (Some (y, cursor (xs @ y # ys) ys))"
proof -
  have d: "distinct (map bh_hash (xs @ y # ys))" using assms by (simp add: good_headers_def)
  have "blocks_of (xs @ y # ys) (bh_hash z) =
      Some \<lparr>bi_header = z, bi_next = (case zs of [] \<Rightarrow> None | y # _ \<Rightarrow> Some (bh_hash y))\<rparr>"
    if "ys = z # zs" for z zs
    using blocks_of_at [of "xs @ [y]" z zs] d that by simp
  with blocks_of_at [OF d] show ?thesis
    by (cases ys) (simp_all add: fwd_next_def cursor_def)
qed

lemma iter_collect_fwd:
  assumes "good_headers (xs @ ys)" and "length ys < fuel"
  shows "iter_collect fuel (fwd_next (chain_of (xs @ ys))) (cursor (xs @ ys) ys) = Inr ys"
  using assms
proof (induction ys arbitrary: xs fuel)
  case Nil
  then show ?case by (cases fuel) (simp_all add: cursor_def fwd_next_def bind_res_def)
next
  case (Cons y ys)
  then obtain n where n: "fuel = Suc n" "length ys < n" by (cases fuel) auto
  from Cons.IH [of "xs @ [y]" n] Cons.prems n show ?case
    by (simp add: fwd_next_chain_of bind_res_def)
qed

lemma iter_forwards_chain_of:
  "good_headers hs \<Longrightarrow> length hs < fuel \<Longrightarrow> iter_forwards fuel (chain_of hs) = Inr hs"
  using iter_collect_fwd [of "[]" hs fuel]
  by (simp add: iter_forwards_def fwd_new_chain_of bind_res_def)

text \<open>The backward iterator's cursor sits on the last element of the prefix still to come.\<close>

definition cursor_back :: "block_header list \<Rightarrow> block_header list \<Rightarrow> block_info option" where
  "cursor_back hs xs = (if xs = [] then None else blocks_of hs (bh_hash (last xs)))"

lemma bwd_new_chain_of: "good_headers hs \<Longrightarrow> bwd_new (chain_of hs) = Inr (cursor_back hs hs)"
  by (cases hs rule: rev_cases) (auto simp: bwd_new_def cursor_back_def blocks_of_last good_headers_def
      split: option.split)

lemma bwd_next_chain_of:
  assumes "good_headers (xs @ y # ys)"
  shows "bwd_next (chain_of (xs @ y # ys)) (cursor_back (xs @ y # ys) (xs @ [y])) =
     Inr (Some (y, cursor_back (xs @ y # ys) xs))"
proof -
  have d: "distinct (map bh_hash (xs @ y # ys))" using assms by (simp add: good_headers_def)
  note at = blocks_of_at [OF d]
  show ?thesis
  proof (cases xs rule: rev_cases)
    case Nil
    with at show ?thesis by (simp add: bwd_next_def cursor_back_def)
  next
    case (snoc zs z)
    have "bh_prev y = bh_hash z" "bh_hash y \<noteq> bh_hash (hd (zs @ z # y # ys))"
      using assms by (auto simp: snoc good_headers_def linked_append hd_append hashes_def
          simp del: append_assoc split: if_splits)
    with at show ?thesis
      by (auto simp: snoc bwd_next_def cursor_back_def split: option.split)
  qed
qed

lemma iter_collect_bwd:
  assumes "good_headers (xs @ ys)" and "length xs < fuel"
  shows "iter_collect fuel (bwd_next (chain_of (xs @ ys))) (cursor_back (xs @ ys) xs) = Inr (rev xs)"
  using assms
proof (induction xs arbitrary: ys fuel rule: rev_induct)
  case Nil
  then show ?case by (cases fuel) (simp_all add: cursor_back_def bwd_next_def bind_res_def)
next
  case (snoc y xs)
  then obtain n where n: "fuel = Suc n" "length xs < n" by (cases fuel) auto
  from snoc.IH [of "y # ys" n] snoc.prems n show ?case
    by (simp add: bwd_next_chain_of bind_res_def)
qed

lemma iter_backwards_chain_of:
  "good_headers hs \<Longrightarrow> length hs < fuel \<Longrightarrow> iter_backwards fuel (chain_of hs) = Inr (rev hs)"
  using iter_collect_bwd [of hs "[]" fuel]
  by (simp add: iter_backwards_def bwd_new_chain_of bind_res_def)

subsection \<open>Chains built from headers, tip first\<close>

lemma for_each_prepend:
  assumes "good_headers hs" and "distinct (map bh_hash (rev rest @ hs))"
  shows "if linked (rev rest @ hs)
         then for_each chain_prepend rest (chain_of hs) = (Inr (), chain_of (rev rest @ hs))
         else fst (for_each chain_prepend rest (chain_of hs)) = Inl (Err InvalidChain)"
  using assms
proof (induction rest arbitrary: hs)
  case Nil
  then show ?case by (simp add: good_headers_def)
next
  case (Cons r rest)
  show ?case
  proof (cases "bh_prev (hd hs) = bh_hash r")
    case True
    with Cons.prems have "good_headers (r # hs)" "distinct (map bh_hash (rev rest @ r # hs))"
      by (auto simp: good_headers_def linked_Cons)
    from Cons.IH [OF this] True Cons.prems(1) show ?thesis
      by (simp add: chain_prepend_chain_of seq_def split: if_splits)
  next
    case False
    with Cons.prems(1) have "\<not> linked (rev rest @ r # hs)"
      by (auto simp: linked_append linked_Cons good_headers_def)
    with False Cons.prems(1) show ?thesis
      by (simp add: chain_prepend_chain_of seq_def)
  qed
qed

subsection \<open>Rebasing\<close>

lemma chain_get_block_chain_of:
  assumes "good_headers (xs @ a # ys)"
  shows "chain_get_block (chain_of (xs @ a # ys)) (bh_hash a) = Inr a"
  using assms by (simp add: chain_get_block_def blocks_of_at good_headers_def)

lemma rebase_loop_chain_of:
  assumes "good_headers (ps @ qs)" and "good_headers hs" and "hashes ps \<inter> hashes hs = {}"
    and "if ps = [] then bh_hash (hd hs) = bh_hash (hd qs) else bh_prev (hd hs) = bh_hash (last ps)"
    and "length ps < n"
  shows "rebase_loop n (chain_of (ps @ qs)) (hd hs) (chain_of hs) = (Inr (), chain_of (ps @ hs))"
  using assms
proof (induction ps arbitrary: qs hs n rule: rev_induct)
  case Nil
  then show ?case by (cases n) simp_all
next
  case (snoc p ps)
  then obtain m where n: "n = Suc m" "length ps < m" by (cases n) auto
  have ne: "bh_hash (hd hs) \<noteq> bh_hash (hd (ps @ [p] @ qs))"
    using snoc.prems by (cases ps; cases hs) (auto simp: good_headers_def)
  have g: "good_headers (ps @ p # qs)" and link: "bh_prev (hd hs) = bh_hash p"
    using snoc.prems by simp_all
  from snoc.prems have "good_headers (p # hs)"
    by (auto simp: good_headers_def linked_Cons hashes_def)
  moreover have "hashes ps \<inter> hashes (p # hs) = {}"
    using snoc.prems(3) g by (auto simp: good_headers_def hashes_def)
  moreover have "if ps = [] then bh_hash (hd (p # hs)) = bh_hash (hd (p # qs))
      else bh_prev (hd (p # hs)) = bh_hash (last ps)"
    using g by (auto simp: good_headers_append)
  ultimately have "rebase_loop m (chain_of (ps @ p # qs)) p (chain_of (p # hs)) =
      (Inr (), chain_of (ps @ p # hs))"
    using snoc.IH [OF g, of "p # hs" m] n by simp
  with ne show ?case
    using chain_get_block_chain_of [OF g] link snoc.prems(2)
    by (simp add: n seq_def chain_prepend_chain_of)
qed

subsection \<open>Moving the tip\<close>

lemma blocks_of_cut:
  assumes "distinct (map bh_hash (pre @ b # post))"
  shows "(blocks_of (pre @ b # post))(bh_hash b \<mapsto> \<lparr>bi_header = b, bi_next = None\<rparr>) =
     blocks_of (pre @ [b]) ++ blocks_of post"
  using assms
proof (induction pre)
  case Nil
  then have "bh_hash b \<notin> hashes post" by (auto simp: hashes_def)
  then show ?case
    by (auto simp: blocks_of_Cons fun_eq_iff map_add_def split: option.split dest: blocks_of_SomeD)
next
  case (Cons x pre)
  let ?X = "\<lparr>bi_header = x,
     bi_next = (case pre @ [b] of [] \<Rightarrow> None | g # _ \<Rightarrow> Some (bh_hash g))\<rparr>"
  let ?B = "\<lparr>bi_header = b, bi_next = None\<rparr>"
  have nxt: "(case pre @ b # post of [] \<Rightarrow> None | g # _ \<Rightarrow> Some (bh_hash g)) =
      (case pre @ [b] of [] \<Rightarrow> None | g # _ \<Rightarrow> Some (bh_hash g))"
    by (cases pre) auto
  have "(blocks_of ((x # pre) @ b # post))(bh_hash b \<mapsto> ?B) =
      ((blocks_of (pre @ b # post))(bh_hash b \<mapsto> ?B))(bh_hash x \<mapsto> ?X)"
    using Cons.prems by (simp add: blocks_of_Cons [of x] nxt fun_upd_twist del: fun_upd_apply)
  also have "\<dots> = (blocks_of (pre @ [b]) ++ blocks_of post)(bh_hash x \<mapsto> ?X)"
    using Cons by (simp del: fun_upd_apply)
  also have "\<dots> = blocks_of ((x # pre) @ [b]) ++ blocks_of post"
    using Cons.prems
    by (simp add: blocks_of_Cons [of x] map_add_upd_left hashes_def del: fun_upd_apply)
  finally show ?case .
qed

lemma retip_remove_tail:
  assumes "distinct (map bh_hash post)" and "dom m \<inter> hashes post = {}" and "length post \<le> n"
  shows "retip_remove n (case post of [] \<Rightarrow> None | y # _ \<Rightarrow> Some (bh_hash y))
           \<lparr>ch_tip = t, ch_base = b, ch_blocks = m ++ blocks_of post\<rparr> =
         (Inr (), \<lparr>ch_tip = t, ch_base = b, ch_blocks = m\<rparr>)"
  using assms
proof (induction post arbitrary: n)
  case Nil
  then show ?case by (cases n) simp_all
next
  case (Cons p post)
  then obtain k where n: "n = Suc k" by (cases n) auto
  have "(m ++ blocks_of (p # post))(bh_hash p := None) = m ++ blocks_of post"
    using Cons.prems by (auto simp: blocks_of_Cons fun_eq_iff map_add_def hashes_def domIff
        split: option.split)
  moreover have "(m ++ blocks_of (p # post)) (bh_hash p) =
      Some \<lparr>bi_header = p, bi_next = (case post of [] \<Rightarrow> None | y # _ \<Rightarrow> Some (bh_hash y))\<rparr>"
    by (simp add: blocks_of_Cons)
  ultimately show ?case
    using Cons n by simp
qed

lemma retip_append_chain_of:
  assumes "good_headers (xs @ ys)" and "good_headers (hs @ ys)" and "good_headers hs"
    and "length ys < n"
  shows "retip_append n (chain_of (xs @ ys)) (cursor (xs @ ys) ys) (chain_of hs) =
    (Inr (), chain_of (hs @ ys))"
  using assms
proof (induction ys arbitrary: xs hs n)
  case Nil
  then show ?case by (cases n) (simp_all add: cursor_def fwd_next_def)
next
  case (Cons y ys)
  then obtain m where n: "n = Suc m" "length ys < m" by (cases n) auto
  have hs: "hs \<noteq> []" using Cons.prems(3) by (simp add: good_headers_def)
  with Cons.prems(2,3) have "bh_prev y = bh_hash (last hs)" "bh_hash y \<notin> hashes hs"
    by (auto simp: good_headers_append)
  moreover have "good_headers (hs @ [y])" "good_headers ((hs @ [y]) @ ys)"
    "good_headers ((xs @ [y]) @ ys)"
    using Cons.prems good_headers_prefix [of hs y ys] by simp_all
  ultimately show ?case
    using Cons.IH [of "xs @ [y]" "hs @ [y]" m] Cons.prems n
    by (simp add: fwd_next_chain_of seq_def chain_append_chain_of)
qed

lemma chain_retip_chain_of:
  assumes self: "good_headers (pre @ b # post)" and other: "good_headers (b' # new)"
    and same: "bh_hash b' = bh_hash b" and new: "hashes new \<inter> hashes (pre @ [b]) = {}"
    and fuel: "length post < fuel" "length new < fuel"
  shows "chain_retip fuel (chain_of (b' # new)) (chain_of (pre @ b # post)) =
     (Inr (), chain_of (pre @ b # new))"
proof -
  have d: "distinct (map bh_hash (pre @ b # post))" using self by (simp add: good_headers_def)
  have b: "good_headers (pre @ [b])" using self by (rule good_headers_prefix)
  have dp: "distinct (map bh_hash post)"
    and disj: "dom (blocks_of (pre @ [b])) \<inter> hashes post = {}"
    using d by (auto simp: hashes_def)
  have whole: "good_headers ((pre @ [b]) @ new)"
  proof (cases "new = []")
    case False
    with other same have "good_headers new" "bh_prev (hd new) = bh_hash b"
      using good_headers_suffix [of "[b']" new] by (auto simp: good_headers_def linked_Cons)
    with b new show ?thesis
      using good_headers_append [of "pre @ [b]" new] by auto
  qed (use b in simp)
  define oth where "oth = chain_of (b' # new)"
  have base: "ch_base oth = bh_hash b" by (simp add: same oth_def)
  let ?cut = "\<lparr>ch_tip = bh_hash b, ch_base = bh_hash (hd (pre @ b # post)),
     ch_blocks = blocks_of (pre @ [b]) ++ blocks_of post\<rparr>"
  have removed: "retip_remove fuel (case post of [] \<Rightarrow> None | y # _ \<Rightarrow> Some (bh_hash y)) ?cut =
      (Inr (), chain_of (pre @ [b]))"
    using retip_remove_tail [OF dp disj, of fuel] fuel(1)
    by (cases pre) (simp_all add: chain_of_def)
  have "chain_retip fuel oth (chain_of (pre @ b # post)) =
      seq (lift_res (fwd_new oth)) (\<lambda>first.
          seq (lift_res (fwd_next oth first)) (\<lambda>skipped.
            case skipped of None \<Rightarrow> ret ()
            | Some (_, cur) \<Rightarrow> retip_append fuel oth cur)) (chain_of (pre @ [b]))"
    unfolding chain_retip_def base
    using blocks_of_at [OF d] blocks_of_cut [OF d] removed
    by (simp add: seq_def chain_of_def)
  also have "\<dots> = retip_append fuel oth (cursor (b' # new) new) (chain_of (pre @ [b]))"
    by (simp add: seq_def oth_def fwd_new_chain_of [OF other]
        fwd_next_chain_of [of "[]" b' new, simplified, OF other])
  also have "\<dots> = (Inr (), chain_of (pre @ b # new))"
    using retip_append_chain_of [of "[b']" new "pre @ [b]" fuel] other whole b fuel(2)
    by (simp add: oth_def)
  finally show ?thesis unfolding oth_def .
qed

section \<open>Properties\<close>

lemma good_headers_switch:
  assumes self: "good_headers (pre @ b # post)" and other: "good_headers (b' # new)"
    and same: "bh_hash b' = bh_hash b" and new: "hashes new \<inter> hashes (pre @ [b]) = {}"
  shows "good_headers (pre @ b # new)"
proof (cases "new = []")
  case False
  with other same have "good_headers new" "bh_prev (hd new) = bh_hash b"
    using good_headers_suffix [of "[b']" new] by (auto simp: good_headers_def linked_Cons)
  with good_headers_prefix [OF self] new show ?thesis
    using good_headers_append [of "pre @ [b]" new] by auto
qed (use good_headers_prefix [OF self] in simp)

text \<open>\<open>retip\<close> of a well-formed chain onto a branch that starts at one of its blocks removes every
  block above the fork and appends the branch: the iterators then visit exactly the shared part
  and the new branch, the tip is the branch's tip, and no abandoned block is still contained.\<close>

lemma retip_switches_branch:
  assumes "good_headers (pre @ b # post)" and "good_headers (b' # new)"
    and "bh_hash b' = bh_hash b" and "hashes new \<inter> hashes (pre @ [b]) = {}"
    and "length post < fuel" and "length new < fuel" and "length (pre @ b # new) < fuel'"
  shows "(case chain_retip fuel (chain_of (b' # new)) (chain_of (pre @ b # post)) of (r, c) \<Rightarrow>
     r = Inr () \<and> iter_forwards fuel' c = Inr (pre @ b # new) \<and>
     iter_backwards fuel' c = Inr (rev (pre @ b # new)) \<and> chain_tip c = Inr (last (b # new)) \<and>
     Collect (contains_block c) = hashes (pre @ b # new))"
proof -
  have g: "good_headers (pre @ b # new)" using assms(1-4) by (rule good_headers_switch)
  have "chain_tip (chain_of (pre @ b # new)) = Inr (last (b # new))"
    unfolding chain_tip_chain_of [OF g] by (rule arg_cong [where f = Inr]) simp
  moreover have "Collect (contains_block (chain_of (pre @ b # new))) = hashes (pre @ b # new)"
    by auto
  moreover note iter_forwards_chain_of [OF g assms(7)] iter_backwards_chain_of [OF g assms(7)]
  ultimately show ?thesis
    by (simp only: chain_retip_chain_of [OF assms(1-6)] prod.case simp_thms)
qed

definition ex_headers :: "nat list \<Rightarrow> block_header list" where
  "ex_headers ns =
     map (\<lambda>(p, n). \<lparr>bh_hash = word_of_nat n, bh_height = word_of_nat (n mod 10), bh_prev = word_of_nat p\<rparr>)
       (zip (butlast ns) (tl ns))"

lemma try_from_headers:
  assumes "distinct (map bh_hash hs)"
  shows "chain_try_from hs =
     (if hs = [] then Inl (Err EmptyChain)
      else if linked (rev hs) then Inr (chain_of (rev hs)) else Inl (Err InvalidChain))"
proof (cases hs)
  case (Cons t rest)
  have "distinct (map bh_hash (rev rest @ [t]))"
    using assms by (simp add: Cons flip: rev_map)
  from for_each_prepend [OF good_headers_single this] show ?thesis
    by (auto simp: Cons chain_try_from_def chain_new_chain_of split: prod.splits if_splits)
qed (simp add: chain_try_from_def)

text \<open>Reading stored headers with distinct hashes, tip first, fails with \<open>EmptyChain\<close> when there
  are none and with \<open>InvalidChain\<close> when they do not link, and otherwise builds a chain whose
  backward iterator returns exactly the headers read and whose forward iterator their reverse.\<close>

lemma try_from_roundtrip:
  assumes "distinct (map bh_hash hs)" and "length hs < fuel"
  shows "(case chain_try_from hs of
            Inl e \<Rightarrow> e = Err (if hs = [] then EmptyChain else InvalidChain) \<and> (hs = [] \<or> \<not> linked (rev hs))
          | Inr c \<Rightarrow> hs \<noteq> [] \<and> linked (rev hs) \<and>
              iter_backwards fuel c = Inr hs \<and>
              iter_forwards fuel c = Inr (rev hs) \<and>
              chain_tip c = Inr (hd hs) \<and> chain_base c = Inr (last hs))"
proof (cases "hs \<noteq> [] \<and> linked (rev hs)")
  case True
  with assms have g: "good_headers (rev hs)" by (simp add: good_headers_def rev_map [symmetric])
  from g True assms(2) show ?thesis
    by (simp add: try_from_headers [OF assms(1)] iter_backwards_chain_of iter_forwards_chain_of
        last_rev hd_rev)
qed (auto simp: try_from_headers [OF assms(1)])

text \<open>\<open>rebase\<close> of a chain onto one that contains the parent of its base prepends exactly the
  other chain's headers from its base to that parent, and leaves the rest of the chain alone.\<close>

lemma rebase_prepends_prefix:
  assumes "good_headers (ps @ qs)" and "good_headers (ps @ hs)" and "ps \<noteq> []" and "hs \<noteq> []"
    and "length ps < fuel"
  shows "chain_rebase fuel (chain_of (ps @ qs)) (chain_of hs) = (Inr (), chain_of (ps @ hs))"
proof -
  have "good_headers hs" "hashes ps \<inter> hashes hs = {}" "bh_prev (hd hs) = bh_hash (last ps)"
    using assms by (auto simp: good_headers_append)
  with rebase_loop_chain_of [of ps qs hs fuel] assms show ?thesis
    by (simp add: chain_rebase_def seq_def)
qed

lemma rebase_prepends_prefix_witness:
  "chain_rebase 3 (chain_of (ex_headers [0, 1, 2, 3])) (chain_of (ex_headers [2, 13, 14])) =
     (Inr (), chain_of (ex_headers [0, 1, 2, 13, 14]))"
  using rebase_prepends_prefix [of "ex_headers [0, 1, 2]" "ex_headers [2, 3]" "ex_headers [2, 13, 14]" 3]
  by (simp add: ex_headers_def good_headers_def)

end
