(* ===== verification/Chain_Repository.thy ===== *)
theory Chain_Repository
  imports Chain_Types
begin

text \<open>
  The chain tables and the statements of \<open>postgresql/chain_repository.rs\<close>. A table is the list
  of its rows; a BIGINT column is an \<open>i64\<close> with the bits of the value written to it. A text
  column holds the value whose text it is: block hashes and transaction ids are printed as
  fixed-width hex and read back unchanged, addresses are read back with \<open>parse_address\<close> for the
  configured network, which may fail.

  Each operation is built from the statements of its function, in their order. The invariant
  \<open>chain_db_inv\<close> holds the primary and foreign keys of the migration.
\<close>

section \<open>Tables\<close>

record tx_output_row =
  o_tx_id :: txid
  o_index :: i64
  o_address :: address
  o_amount :: i64

record tx_input_row =
  i_tx_id :: txid
  i_index :: i64
  i_spending_tx_id :: txid
  i_spending_index :: i64

record chain_db =
  db_blocks :: "block_header list"
  db_watch :: "address list"
  db_tx_outputs :: "tx_output_row list"
  db_tx_blocks :: "(txid \<times> block_hash) list"
  db_tx_inputs :: "tx_input_row list"

definition empty_chain_db :: chain_db where
  "empty_chain_db =
     \<lparr>db_blocks = [], db_watch = [], db_tx_outputs = [], db_tx_blocks = [], db_tx_inputs = []\<rparr>"

text \<open>
  What the repository is built with: the crate's functions, the network, and the order in which
  the database's collation puts transaction ids and addresses.
\<close>

record chain_repo_cfg =
  cr_lib :: bitcoin_lib
  cr_network :: network
  cr_txid_rank :: "txid \<Rightarrow> nat"
  cr_address_rank :: "address \<Rightarrow> nat"

definition repo_err :: "sqlx_error \<Rightarrow> chain_repository_error" where
  "repo_err e = ChainRepoGeneral (BoxSqlx e)"

section \<open>Writing a block\<close>

definition insert_block :: "block_header \<Rightarrow> chain_db \<Rightarrow> chain_db" where
  "insert_block b d = d\<lparr>db_blocks := fst (insert_new bh_hash (db_blocks d) [b])\<rparr>"

definition output_row :: "address_utxo \<Rightarrow> tx_output_row" where
  "output_row u =
     \<lparr>o_tx_id = op_txid (txo_outpoint (au_utxo u)),
      o_index = ucast (op_vout (txo_outpoint (au_utxo u))),
      o_address = au_address u,
      o_amount = txo_value (txo_tx_out (au_utxo u))\<rparr>"

definition output_key :: "tx_output_row \<Rightarrow> txid \<times> i64" where
  "output_key r = (o_tx_id r, o_index r)"

definition insert_outputs :: "address_utxo list \<Rightarrow> chain_db \<Rightarrow> chain_db" where
  "insert_outputs us d =
     d\<lparr>db_tx_outputs := fst (insert_new output_key (db_tx_outputs d)
         (filter (\<lambda>r. o_address r \<in> set (db_watch d)) (map output_row us)))\<rparr>"

definition add_utxos ::
    "address_utxo list \<Rightarrow> (chain_db pg, chain_repository_error, unit) op" where
  "add_utxos us = map_err repo_err (exec (insert_outputs us))"

definition input_row :: "spent_txo \<Rightarrow> tx_input_row" where
  "input_row t =
     \<lparr>i_tx_id = op_txid (st_outpoint t), i_index = ucast (op_vout (st_outpoint t)),
      i_spending_tx_id = st_spending_tx t,
      i_spending_index = ucast (st_spending_input_index t)\<rparr>"

definition input_key :: "tx_input_row \<Rightarrow> txid \<times> i64" where
  "input_key r = (i_spending_tx_id r, i_spending_index r)"

definition spent_of_row :: "tx_input_row \<Rightarrow> spent_txo" where
  "spent_of_row r =
     \<lparr>st_outpoint = OutPoint (i_tx_id r) (ucast (i_index r)),
      st_spending_tx = i_spending_tx_id r,
      st_spending_input_index = ucast (i_spending_index r)\<rparr>"

definition insert_inputs :: "spent_txo list \<Rightarrow> chain_db \<Rightarrow> tx_input_row list \<times> chain_db" where
  "insert_inputs ts d =
     (case insert_new input_key (db_tx_inputs d)
             (filter (\<lambda>r. (i_tx_id r, i_index r) \<in> output_key ` set (db_tx_outputs d))
                (map input_row ts)) of
        (tab, new) \<Rightarrow> (new, d\<lparr>db_tx_inputs := tab\<rparr>))"

definition mark_spent ::
    "spent_txo list \<Rightarrow> (chain_db pg, chain_repository_error, spent_txo list) op" where
  "mark_spent ts =
     seq (map_err repo_err (stmt (\<lambda>d. Inr (insert_inputs ts d)))) (\<lambda>rows.
     ret (map spent_of_row rows))"

text \<open>
  The statement that correlates transactions and blocks. Its second \<open>EXISTS\<close> reads
  \<open>FROM tx_inputs i WHERE i.spending_tx_id = i.tx_id\<close>: the alias \<open>i\<close> is that of the subquery,
  so the condition compares two columns of one row of \<open>tx_inputs\<close>, and does not mention the
  transaction that is being inserted.
\<close>

definition tx_block_cond :: "chain_db \<Rightarrow> txid \<Rightarrow> bool" where
  "tx_block_cond d t \<longleftrightarrow>
     (\<exists>r\<in>set (db_tx_outputs d). o_tx_id r = t) \<or>
     (\<exists>r\<in>set (db_tx_inputs d). i_spending_tx_id r = i_tx_id r)"

definition insert_tx_blocks :: "txid list \<Rightarrow> block_hash \<Rightarrow> chain_db \<Rightarrow> chain_db" where
  "insert_tx_blocks txns h d =
     d\<lparr>db_tx_blocks := fst (insert_new id (db_tx_blocks d)
         (map (\<lambda>t. (t, h)) (filter (tx_block_cond d) txns)))\<rparr>"

definition block_txns :: "address_utxo list \<Rightarrow> spent_txo list \<Rightarrow> txid list" where
  "block_txns tx_outs tx_ins =
     remdups_adj (map (\<lambda>u. op_txid (txo_outpoint (au_utxo u))) tx_outs @ map st_spending_tx tx_ins)"

definition pg_add_block ::
    "block_header \<Rightarrow> address_utxo list \<Rightarrow> spent_txo list \<Rightarrow>
     (chain_db pg, chain_repository_error, spent_txo list) op" where
  "pg_add_block b tx_outs tx_ins =
     transact repo_err
       (seq (map_err repo_err (exec (insert_block b))) (\<lambda>_.
        seq (add_utxos tx_outs) (\<lambda>_.
        seq (mark_spent tx_ins) (\<lambda>spent_txos.
        seq (map_err repo_err
               (exec (insert_tx_blocks (block_txns tx_outs tx_ins) (bh_hash b)))) (\<lambda>_.
        ret spent_txos)))))"

definition pg_add_watch_address ::
    "address \<Rightarrow> (chain_db pg, chain_repository_error, unit) op" where
  "pg_add_watch_address a =
     map_err repo_err (exec (\<lambda>d. d\<lparr>db_watch := fst (insert_new id (db_watch d) [a])\<rparr>))"

text \<open>Deleting a block deletes its rows of \<open>tx_blocks\<close> (\<open>ON DELETE CASCADE\<close>).\<close>

definition pg_undo_block :: "block_hash \<Rightarrow> (chain_db pg, chain_repository_error, unit) op" where
  "pg_undo_block h =
     map_err repo_err (exec (\<lambda>d.
       d\<lparr>db_blocks := filter (\<lambda>b. bh_hash b \<noteq> h) (db_blocks d),
         db_tx_blocks := filter (\<lambda>tb. snd tb \<noteq> h) (db_tx_blocks d)\<rparr>))"

section \<open>Reading\<close>

definition parse_addr :: "chain_repo_cfg \<Rightarrow> string \<Rightarrow> chain_repository_error + address" where
  "parse_addr cfg s =
     of_option (ChainRepoGeneral (BoxMsg ''address'')) (parse_address (cr_lib cfg) (cr_network cfg) s)"

definition pg_filter_watch_addresses ::
    "chain_repo_cfg \<Rightarrow> address list \<Rightarrow> (chain_db pg, chain_repository_error, address list) op" where
  "pg_filter_watch_addresses cfg as =
     seq (map_err repo_err (query (\<lambda>d. filter (\<lambda>a. a \<in> set as) (db_watch d)))) (\<lambda>rows.
     lift_res (collect_res (map (parse_addr cfg) rows)))"

definition pg_get_block_headers :: "(chain_db pg, chain_repository_error, block_header list) op" where
  "pg_get_block_headers =
     map_err repo_err (query (\<lambda>d. sort_key (\<lambda>b. - sint (bh_height b)) (db_blocks d)))"

definition tip_rows :: "chain_db \<Rightarrow> block_header list" where
  "tip_rows d =
     filter (\<lambda>b. \<forall>c\<in>set (db_blocks d). sint (bh_height c) \<le> sint (bh_height b)) (db_blocks d)"

fun single_tip :: "block_header list \<Rightarrow> chain_repository_error + block_header option" where
  "single_tip [] = Inr None"
| "single_tip [b] = Inr (Some b)"
| "single_tip (b # c # bs) = Inl MultipleTips"

definition pg_get_tip :: "(chain_db pg, chain_repository_error, block_header option) op" where
  "pg_get_tip = seq (map_err repo_err (query tip_rows)) (\<lambda>rows. lift_res (single_tip rows))"

text \<open>
  \<open>tx_outputs o INNER JOIN tx_blocks tb \<dots> INNER JOIN blocks b\<close>: the outputs with a block that
  confirms them; likewise the inputs with the block that confirms the spending transaction.
\<close>

definition confirming :: "chain_db \<Rightarrow> txid \<Rightarrow> block_header list" where
  "confirming d t =
     [b. tb \<leftarrow> db_tx_blocks d, fst tb = t, b \<leftarrow> db_blocks d, bh_hash b = snd tb]"

definition confirmed_outputs :: "chain_db \<Rightarrow> (tx_output_row \<times> block_header) list" where
  "confirmed_outputs d = [(r, b). r \<leftarrow> db_tx_outputs d, b \<leftarrow> confirming d (o_tx_id r)]"

definition confirmed_inputs :: "chain_db \<Rightarrow> (tx_input_row \<times> block_header) list" where
  "confirmed_inputs d = [(r, b). r \<leftarrow> db_tx_inputs d, b \<leftarrow> confirming d (i_spending_tx_id r)]"

definition spends_of ::
    "chain_db \<Rightarrow> tx_output_row \<Rightarrow> (tx_input_row \<times> block_header) list" where
  "spends_of d r =
     filter (\<lambda>(i, b). i_tx_id i = o_tx_id r \<and> i_index i = o_index r) (confirmed_inputs d)"

definition order_txos ::
    "chain_repo_cfg \<Rightarrow> ('r \<Rightarrow> tx_output_row \<times> block_header) \<Rightarrow> 'r list \<Rightarrow> 'r list" where
  "order_txos cfg f rs =
     sort_key (\<lambda>r. sint (bh_height (snd (f r))))
       (sort_key (\<lambda>r. cr_txid_rank cfg (o_tx_id (fst (f r))))
         (sort_key (\<lambda>r. sint (o_index (fst (f r)))) rs))"

definition map_txo :: "chain_repo_cfg \<Rightarrow> address \<Rightarrow> tx_output_row \<times> block_header \<Rightarrow> txo" where
  "map_txo cfg a rb =
     (case rb of (r, b) \<Rightarrow>
        \<lparr>txo_block_hash = bh_hash b, txo_block_height = bh_height b,
         txo_outpoint = OutPoint (o_tx_id r) (ucast (o_index r)),
         txo_tx_out = \<lparr>txo_value = o_amount r, txo_script = address_script (cr_lib cfg) a\<rparr>\<rparr>)"

definition pg_get_txos_for_address ::
    "chain_repo_cfg \<Rightarrow> address \<Rightarrow> (chain_db pg, chain_repository_error, txo list) op" where
  "pg_get_txos_for_address cfg a =
     seq (map_err repo_err (query (\<lambda>d.
            order_txos cfg id (filter (\<lambda>(r, b). o_address r = a) (confirmed_outputs d)))))
       (\<lambda>rows. ret (map (map_txo cfg a) rows))"

definition map_spend :: "tx_input_row \<times> block_header \<Rightarrow> txo_spend" where
  "map_spend ib =
     (case ib of (i, b) \<Rightarrow>
        \<lparr>spend_tx = i_spending_tx_id i, spend_input_index = ucast (i_spending_index i),
         spend_block_hash = bh_hash b, spend_block_height = bh_height b\<rparr>)"

text \<open>The \<open>LEFT JOIN\<close>: one row for each spend of the output, one row with none if there is none.\<close>

definition with_spends ::
    "chain_db \<Rightarrow> tx_output_row \<times> block_header \<Rightarrow>
     ((tx_output_row \<times> block_header) \<times> (tx_input_row \<times> block_header) option) list" where
  "with_spends d rb =
     (case spends_of d (fst rb) of
        [] \<Rightarrow> [(rb, None)]
      | sp # sps \<Rightarrow> map (\<lambda>s. (rb, Some s)) (sp # sps))"

definition pg_get_txos_for_address_with_spends ::
    "chain_repo_cfg \<Rightarrow> address \<Rightarrow>
     (chain_db pg, chain_repository_error, txo_with_spend list) op" where
  "pg_get_txos_for_address_with_spends cfg a =
     seq (map_err repo_err (query (\<lambda>d.
            order_txos cfg fst
              (concat (map (with_spends d)
                 (filter (\<lambda>(r, b). o_address r = a) (confirmed_outputs d)))))))
       (\<lambda>rows. ret (map (\<lambda>(rb, sp).
          \<lparr>tws_txo = map_txo cfg a rb, tws_spend = map_option map_spend sp\<rparr>) rows))"

definition unspent_outputs :: "chain_db \<Rightarrow> (tx_output_row \<times> block_header) list" where
  "unspent_outputs d = filter (\<lambda>(r, b). spends_of d r = []) (confirmed_outputs d)"

definition map_utxo ::
    "chain_repo_cfg \<Rightarrow> tx_output_row \<times> block_header \<Rightarrow> chain_repository_error + address_utxo" where
  "map_utxo cfg rb =
     bind_res (parse_addr cfg (o_address (fst rb))) (\<lambda>a.
     Inr \<lparr>au_address = a, au_utxo = map_txo cfg a rb\<rparr>)"

definition pg_get_utxos ::
    "chain_repo_cfg \<Rightarrow> (chain_db pg, chain_repository_error, address_utxo list) op" where
  "pg_get_utxos cfg =
     seq (map_err repo_err (query (\<lambda>d.
            sort_key (\<lambda>rb. cr_address_rank cfg (o_address (fst rb)))
              (order_txos cfg id (unspent_outputs d)))))
       (\<lambda>rows. lift_res (collect_res (map (map_utxo cfg) rows)))"

definition pg_chain_repository :: "chain_repo_cfg \<Rightarrow> chain_db pg chain_repository" where
  "pg_chain_repository cfg =
     \<lparr>add_block = pg_add_block,
      add_watch_address = pg_add_watch_address,
      filter_watch_addresses = pg_filter_watch_addresses cfg,
      get_block_headers = pg_get_block_headers,
      get_tip = pg_get_tip,
      get_txos_for_address = pg_get_txos_for_address cfg,
      get_txos_for_address_with_spends = pg_get_txos_for_address_with_spends cfg,
      get_utxos = pg_get_utxos cfg,
      undo_block = pg_undo_block\<rparr>"

section \<open>Keys of the migration\<close>

definition chain_db_inv :: "chain_db \<Rightarrow> bool" where
  "chain_db_inv d \<longleftrightarrow>
     distinct (map bh_hash (db_blocks d)) \<and> distinct (db_watch d) \<and>
     distinct (map output_key (db_tx_outputs d)) \<and> distinct (db_tx_blocks d) \<and>
     distinct (map input_key (db_tx_inputs d)) \<and>
     snd ` set (db_tx_blocks d) \<subseteq> bh_hash ` set (db_blocks d) \<and>
     (\<forall>r\<in>set (db_tx_inputs d). (i_tx_id r, i_index r) \<in> output_key ` set (db_tx_outputs d)) \<and>
     (\<forall>r\<in>set (db_tx_outputs d). o_address r \<in> set (db_watch d)) \<and>
     (\<forall>r\<in>set (db_tx_outputs d). ucast (ucast (o_index r) :: u32) = o_index r)"

lemma output_row_index [simp]: "ucast (ucast (o_index (output_row u)) :: u32) = o_index (output_row u)"
  by (simp add: output_row_def)

lemma chain_db_inv_empty: "chain_db_inv empty_chain_db"
  by (simp add: chain_db_inv_def empty_chain_db_def)

lemma insert_new_fst_distinct:
  "distinct (map key tab) \<Longrightarrow> distinct (map key (fst (insert_new key tab rs)))"
  by (metis insert_new_distinct prod.collapse)

lemma insert_new_fst_keys:
  "key ` set (fst (insert_new key tab rs)) = key ` set tab \<union> key ` set rs"
  by (metis insert_new_keys prod.collapse)

lemma insert_new_fst_subset: "set (fst (insert_new key tab rs)) \<subseteq> set tab \<union> set rs"
proof -
  obtain tab' new where r: "insert_new key tab rs = (tab', new)" by fastforce
  from insert_new_append [OF r] insert_new_subset [OF r] r show ?thesis by auto
qed

lemma insert_new_fst_superset: "set tab \<subseteq> set (fst (insert_new key tab rs))"
proof -
  obtain tab' new where r: "insert_new key tab rs = (tab', new)" by fastforce
  from insert_new_append [OF r] r show ?thesis by auto
qed

lemma insert_new_fst_again:
  "insert_new key (fst (insert_new key tab rs)) rs = (fst (insert_new key tab rs), [])"
  by (metis insert_new_again prod.collapse)

lemma set_insert_new_id [simp]: "set (fst (insert_new id tab rs)) = set tab \<union> set rs"
  using insert_new_fst_keys [of id tab rs] by simp

lemma chain_db_inv_insert_block: "chain_db_inv d \<Longrightarrow> chain_db_inv (insert_block b d)"
  using insert_new_fst_superset [of "db_blocks d" bh_hash "[b]"]
  by (auto simp: chain_db_inv_def insert_block_def insert_new_fst_distinct image_subset_iff)

lemma chain_db_inv_insert_outputs: "chain_db_inv d \<Longrightarrow> chain_db_inv (insert_outputs us d)"
proof -
  assume inv: "chain_db_inv d"
  define rs where "rs = filter (\<lambda>r. o_address r \<in> set (db_watch d)) (map output_row us)"
  have "set (fst (insert_new output_key (db_tx_outputs d) rs)) \<subseteq> set (db_tx_outputs d) \<union> set rs"
    by (rule insert_new_fst_subset)
  then have "\<forall>r\<in>set (fst (insert_new output_key (db_tx_outputs d) rs)).
      o_address r \<in> set (db_watch d) \<and> ucast (ucast (o_index r) :: u32) = o_index r"
    using inv by (auto simp: chain_db_inv_def rs_def)
  then show ?thesis
    using inv unfolding insert_outputs_def rs_def [symmetric]
    by (auto simp: chain_db_inv_def insert_new_fst_distinct insert_new_fst_keys)
qed

lemma chain_db_inv_insert_inputs:
  assumes "chain_db_inv d"
  shows "chain_db_inv (snd (insert_inputs ts d))"
proof -
  define rs where "rs = filter (\<lambda>r. (i_tx_id r, i_index r) \<in> output_key ` set (db_tx_outputs d))
      (map input_row ts)"
  have "set (fst (insert_new input_key (db_tx_inputs d) rs)) \<subseteq> set (db_tx_inputs d) \<union> set rs"
    by (rule insert_new_fst_subset)
  then have "\<forall>r\<in>set (fst (insert_new input_key (db_tx_inputs d) rs)).
      (i_tx_id r, i_index r) \<in> output_key ` set (db_tx_outputs d)"
    using assms by (auto simp: chain_db_inv_def rs_def)
  moreover have "snd (insert_inputs ts d) =
      d\<lparr>db_tx_inputs := fst (insert_new input_key (db_tx_inputs d) rs)\<rparr>"
    by (simp add: insert_inputs_def rs_def split: prod.split)
  ultimately show ?thesis
    using assms by (simp add: chain_db_inv_def insert_new_fst_distinct)
qed

lemma chain_db_inv_insert_tx_blocks:
  "chain_db_inv d \<Longrightarrow> h \<in> bh_hash ` set (db_blocks d) \<Longrightarrow> chain_db_inv (insert_tx_blocks txns h d)"
  using insert_new_fst_distinct [of id "db_tx_blocks d"]
  by (auto simp: chain_db_inv_def insert_tx_blocks_def)

text \<open>The effect of a committed block.\<close>

definition block_effect ::
    "block_header \<Rightarrow> address_utxo list \<Rightarrow> spent_txo list \<Rightarrow> chain_db \<Rightarrow> chain_db" where
  "block_effect b tx_outs tx_ins d =
     insert_tx_blocks (block_txns tx_outs tx_ins) (bh_hash b)
       (snd (insert_inputs tx_ins (insert_outputs tx_outs (insert_block b d))))"

lemma insert_sel [simp]:
  "db_blocks (insert_outputs us d) = db_blocks d"
  "db_blocks (snd (insert_inputs ts d)) = db_blocks d"
  "db_blocks (insert_tx_blocks txns h d) = db_blocks d"
  "db_watch (insert_block b d) = db_watch d"
  "db_watch (insert_outputs us d) = db_watch d"
  "db_watch (snd (insert_inputs ts d)) = db_watch d"
  "db_watch (insert_tx_blocks txns h d) = db_watch d"
  "db_tx_outputs (insert_block b d) = db_tx_outputs d"
  "db_tx_outputs (snd (insert_inputs ts d)) = db_tx_outputs d"
  "db_tx_outputs (insert_tx_blocks txns h d) = db_tx_outputs d"
  "db_tx_inputs (insert_block b d) = db_tx_inputs d"
  "db_tx_inputs (insert_outputs us d) = db_tx_inputs d"
  "db_tx_inputs (insert_tx_blocks txns h d) = db_tx_inputs d"
  "db_tx_blocks (insert_block b d) = db_tx_blocks d"
  "db_tx_blocks (insert_outputs us d) = db_tx_blocks d"
  "db_tx_blocks (snd (insert_inputs ts d)) = db_tx_blocks d"
  by (simp_all add: insert_block_def insert_outputs_def insert_inputs_def insert_tx_blocks_def
      split: prod.split)

lemma block_in_insert_block: "bh_hash b \<in> bh_hash ` set (db_blocks (insert_block b d))"
  using insert_new_fst_keys [of bh_hash "db_blocks d" "[b]"] by (simp add: insert_block_def)

lemma chain_db_inv_block_effect: "chain_db_inv d \<Longrightarrow> chain_db_inv (block_effect b outs ins d)"
  unfolding block_effect_def
  by (intro chain_db_inv_insert_tx_blocks chain_db_inv_insert_inputs chain_db_inv_insert_outputs
      chain_db_inv_insert_block) (simp_all add: block_in_insert_block)

lemma pg_add_block_Inr:
  assumes "pg_add_block b outs ins s = (Inr r, s')"
  shows "pg_data s' = block_effect b outs ins (pg_data s) \<and>
    r = map spent_of_row (fst (insert_inputs ins (insert_outputs outs (insert_block b (pg_data s)))))"
  using assms unfolding pg_add_block_def
  by (elim transact_Inr)
     (auto simp: add_utxos_def mark_spent_def op_iffs block_effect_def dest!: exec_Inr stmt_Inr)

lemma pg_add_block_Inl: "pg_add_block b outs ins s = (Inl e, s') \<Longrightarrow> pg_data s' = pg_data s"
  unfolding pg_add_block_def by (rule transact_error_rolls_back)

lemma pg_add_block_no_fault:
  "pg_faults s = [] \<Longrightarrow> pg_add_block b outs ins s =
     (Inr (map spent_of_row (fst (insert_inputs ins (insert_outputs outs (insert_block b (pg_data s)))))),
      s\<lparr>pg_data := block_effect b outs ins (pg_data s)\<rparr>)"
  by (simp add: pg_add_block_def add_utxos_def mark_spent_def block_effect_def transact_def
      sql_run seq_def map_err_def split: prod.split)

subsection \<open>Runs of the repository\<close>

datatype chain_call =
    AddBlock block_header "address_utxo list" "spent_txo list"
  | AddWatchAddress address
  | FilterWatchAddresses "address list"
  | GetBlockHeaders
  | GetTip
  | GetTxosForAddress address
  | GetTxosForAddressWithSpends address
  | GetUtxos
  | UndoBlock block_hash

fun run_chain_call :: "chain_repo_cfg \<Rightarrow> chain_call \<Rightarrow> chain_db pg \<Rightarrow> chain_db pg" where
  "run_chain_call cfg (AddBlock b os is) s = snd (pg_add_block b os is s)"
| "run_chain_call cfg (AddWatchAddress a) s = snd (pg_add_watch_address a s)"
| "run_chain_call cfg (FilterWatchAddresses as) s = snd (pg_filter_watch_addresses cfg as s)"
| "run_chain_call cfg GetBlockHeaders s = snd (pg_get_block_headers s)"
| "run_chain_call cfg GetTip s = snd (pg_get_tip s)"
| "run_chain_call cfg (GetTxosForAddress a) s = snd (pg_get_txos_for_address cfg a s)"
| "run_chain_call cfg (GetTxosForAddressWithSpends a) s =
     snd (pg_get_txos_for_address_with_spends cfg a s)"
| "run_chain_call cfg GetUtxos s = snd (pg_get_utxos cfg s)"
| "run_chain_call cfg (UndoBlock h) s = snd (pg_undo_block h s)"

lemma read_keeps_data:
  assumes "\<And>a w. snd (g a w) = w"
  shows "pg_data (snd (seq (map_err h (query f)) g s)) = pg_data s"
  using assms by (auto simp: seq_def map_err_def split: prod.splits sum.splits
      dest: query_keeps_data)

lemma chain_db_inv_undo:
  "chain_db_inv d \<Longrightarrow> chain_db_inv (d\<lparr>db_blocks := filter (\<lambda>b. bh_hash b \<noteq> h) (db_blocks d),
     db_tx_blocks := filter (\<lambda>tb. snd tb \<noteq> h) (db_tx_blocks d)\<rparr>)"
  by (auto simp: chain_db_inv_def distinct_map_filter)

lemma chain_db_inv_watch:
  "chain_db_inv d \<Longrightarrow> chain_db_inv (d\<lparr>db_watch := fst (insert_new id (db_watch d) [a])\<rparr>)"
  using insert_new_fst_distinct [of id "db_watch d" "[a]"]
  by (auto simp: chain_db_inv_def)

lemma exec_cases:
  assumes "map_err h (exec f) s = (r, s')"
  shows "pg_data s' = pg_data s \<or> pg_data s' = f (pg_data s)"
  using assms by (cases r) (auto simp: map_err_Inl_iff map_err_Inr_iff dest: exec_Inl exec_Inr)

lemma chain_db_inv_call:
  assumes "chain_db_inv (pg_data s)"
  shows "chain_db_inv (pg_data (run_chain_call cfg c s))"
proof (cases c)
  case (AddBlock b os "is")
  obtain r s' where r: "pg_add_block b os is s = (r, s')" by fastforce
  have "pg_data s' = pg_data s \<or> pg_data s' = block_effect b os is (pg_data s)"
    using r by (cases r) (auto dest: pg_add_block_Inl pg_add_block_Inr)
  with r AddBlock assms show ?thesis by (auto intro: chain_db_inv_block_effect)
next
  case (AddWatchAddress a)
  obtain r s' where r: "pg_add_watch_address a s = (r, s')" by fastforce
  from exec_cases [OF r [unfolded pg_add_watch_address_def]] r AddWatchAddress assms
  show ?thesis by (auto intro: chain_db_inv_watch simp del: insert_new.simps)
next
  case (UndoBlock h)
  obtain r s' where r: "pg_undo_block h s = (r, s')" by fastforce
  from exec_cases [OF r [unfolded pg_undo_block_def]] r UndoBlock assms
  show ?thesis by (auto intro: chain_db_inv_undo)
next
  case GetBlockHeaders
  then have "pg_data (run_chain_call cfg c s) = pg_data s"
    by (auto simp: pg_get_block_headers_def map_err_def split: prod.splits dest: query_keeps_data)
  with assms show ?thesis by simp
qed (use assms in \<open>simp_all add: pg_filter_watch_addresses_def pg_get_tip_def
    pg_get_txos_for_address_def pg_get_txos_for_address_with_spends_def pg_get_utxos_def
    read_keeps_data\<close>)

lemma chain_db_inv_calls:
  "chain_db_inv (pg_data s) \<Longrightarrow> chain_db_inv (pg_data (fold (run_chain_call cfg) calls s))"
  by (induction calls arbitrary: s) (auto intro: chain_db_inv_call)

text \<open>A watched address stays watched.\<close>

lemma watch_grows:
  "set (db_watch (pg_data s)) \<subseteq> set (db_watch (pg_data (run_chain_call cfg c s)))"
proof (cases c)
  case (AddBlock b os "is")
  obtain r s' where r: "pg_add_block b os is s = (r, s')" by fastforce
  have "pg_data s' = pg_data s \<or> pg_data s' = block_effect b os is (pg_data s)"
    using r by (cases r) (auto dest: pg_add_block_Inl pg_add_block_Inr)
  with r AddBlock show ?thesis by (auto simp: block_effect_def)
next
  case (AddWatchAddress a)
  obtain r s' where r: "pg_add_watch_address a s = (r, s')" by fastforce
  from exec_cases [OF r [unfolded pg_add_watch_address_def]] r AddWatchAddress
  show ?thesis by (auto simp del: insert_new.simps)
next
  case (UndoBlock h)
  obtain r s' where r: "pg_undo_block h s = (r, s')" by fastforce
  from exec_cases [OF r [unfolded pg_undo_block_def]] r UndoBlock show ?thesis by auto
next
  case GetBlockHeaders
  then have "pg_data (run_chain_call cfg c s) = pg_data s"
    by (auto simp: pg_get_block_headers_def map_err_def split: prod.splits dest: query_keeps_data)
  then show ?thesis by simp
qed (simp_all add: pg_filter_watch_addresses_def pg_get_tip_def
    pg_get_txos_for_address_def pg_get_txos_for_address_with_spends_def pg_get_utxos_def
    read_keeps_data)

lemma watch_grows_calls:
  "set (db_watch (pg_data s)) \<subseteq> set (db_watch (pg_data (fold (run_chain_call cfg) calls s)))"
  by (induction calls arbitrary: s) (auto dest: subsetD [OF watch_grows])

lemma add_watch_Inr:
  "pg_add_watch_address a s = (Inr u, s') \<Longrightarrow> a \<in> set (db_watch (pg_data s'))"
  by (auto simp: pg_add_watch_address_def map_err_Inr_iff dest!: exec_Inr simp del: insert_new.simps)

section \<open>What the queries see\<close>

lemma in_confirming:
  "b \<in> set (confirming d t) \<longleftrightarrow> b \<in> set (db_blocks d) \<and> (t, bh_hash b) \<in> set (db_tx_blocks d)"
  by (force simp: confirming_def)

lemma confirming_cong:
  assumes "db_blocks d = db_blocks d'" and "db_tx_blocks d = db_tx_blocks d'"
  shows "confirming d = confirming d'"
  using assms by (intro ext) (simp only: confirming_def)

lemma confirming_none: "t \<notin> fst ` set (db_tx_blocks d) \<Longrightarrow> confirming d t = []"
  by (force simp: confirming_def)

lemma confirmed_outputs_iff:
  "(r, b) \<in> set (confirmed_outputs d) \<longleftrightarrow>
     r \<in> set (db_tx_outputs d) \<and> b \<in> set (db_blocks d) \<and> (o_tx_id r, bh_hash b) \<in> set (db_tx_blocks d)"
proof -
  have "set (confirmed_outputs d) =
      Sigma (set (db_tx_outputs d)) (\<lambda>r. set (confirming d (o_tx_id r)))"
    by (auto simp: confirmed_outputs_def)
  then show ?thesis by (simp add: in_confirming)
qed

lemma confirmed_inputs_iff:
  "(r, b) \<in> set (confirmed_inputs d) \<longleftrightarrow>
     r \<in> set (db_tx_inputs d) \<and> b \<in> set (db_blocks d) \<and>
     (i_spending_tx_id r, bh_hash b) \<in> set (db_tx_blocks d)"
proof -
  have "set (confirmed_inputs d) =
      Sigma (set (db_tx_inputs d)) (\<lambda>r. set (confirming d (i_spending_tx_id r)))"
    by (auto simp: confirmed_inputs_def)
  then show ?thesis by (simp add: in_confirming)
qed

text \<open>The outputs and inputs that a block adds, and the rows it correlates to the block.\<close>

lemma insert_outputs_rows:
  obtains new where "db_tx_outputs (insert_outputs us d) = db_tx_outputs d @ new"
    "\<And>r. r \<in> set new \<Longrightarrow> o_tx_id r \<in> (\<lambda>u. op_txid (txo_outpoint (au_utxo u))) ` set us"
proof -
  obtain tab new where r: "insert_new output_key (db_tx_outputs d)
      (filter (\<lambda>r. o_address r \<in> set (db_watch d)) (map output_row us)) = (tab, new)" by fastforce
  from insert_new_append [OF r] insert_new_subset [OF r] r show ?thesis
    by (intro that [of new]) (auto simp: insert_outputs_def output_row_def)
qed

lemma insert_inputs_rows:
  obtains new where "db_tx_inputs (snd (insert_inputs ts d)) = db_tx_inputs d @ new"
    "\<And>r. r \<in> set new \<Longrightarrow> i_spending_tx_id r \<in> st_spending_tx ` set ts"
proof -
  obtain tab new where r: "insert_new input_key (db_tx_inputs d)
      (filter (\<lambda>r. (i_tx_id r, i_index r) \<in> output_key ` set (db_tx_outputs d))
        (map input_row ts)) = (tab, new)" by fastforce
  from insert_new_append [OF r] insert_new_subset [OF r] r show ?thesis
    by (intro that [of new]) (auto simp: insert_inputs_def input_row_def)
qed

lemma set_block_txns:
  "set (block_txns os is) =
     (\<lambda>u. op_txid (txo_outpoint (au_utxo u))) ` set os \<union> st_spending_tx ` set is"
  by (auto simp: block_txns_def)

definition undo_effect :: "block_hash \<Rightarrow> chain_db \<Rightarrow> chain_db" where
  "undo_effect h d =
     d\<lparr>db_blocks := filter (\<lambda>b. bh_hash b \<noteq> h) (db_blocks d),
       db_tx_blocks := filter (\<lambda>tb. snd tb \<noteq> h) (db_tx_blocks d)\<rparr>"

definition fresh_block :: "chain_db \<Rightarrow> block_header \<Rightarrow> address_utxo list \<Rightarrow> spent_txo list \<Rightarrow> bool" where
  "fresh_block d b os is \<longleftrightarrow>
     bh_hash b \<notin> bh_hash ` set (db_blocks d) \<and>
     set (block_txns os is) \<inter> fst ` set (db_tx_blocks d) = {}"

lemma insert_block_fresh:
  "bh_hash b \<notin> bh_hash ` set (db_blocks d) \<Longrightarrow> db_blocks (insert_block b d) = db_blocks d @ [b]"
  by (simp add: insert_block_def)

lemma undo_block_effect_tables:
  assumes inv: "chain_db_inv d" and fresh: "fresh_block d b os is"
  defines "d' \<equiv> undo_effect (bh_hash b) (block_effect b os is d)"
  shows "db_blocks d' = db_blocks d" and "db_tx_blocks d' = db_tx_blocks d"
proof -
  have "bh_hash b \<notin> bh_hash ` set (db_blocks d)" using fresh by (simp add: fresh_block_def)
  moreover from this have "filter (\<lambda>c. bh_hash c \<noteq> bh_hash b) (db_blocks d) = db_blocks d"
    by (intro filter_True) (metis image_eqI)
  ultimately show "db_blocks d' = db_blocks d"
    by (simp add: d'_def undo_effect_def block_effect_def insert_block_fresh)
  have "\<forall>tb\<in>set (db_tx_blocks d). snd tb \<noteq> bh_hash b"
    using inv fresh by (auto simp: chain_db_inv_def fresh_block_def)
  moreover obtain tab new where r: "insert_new id (db_tx_blocks d)
     (map (\<lambda>t. (t, bh_hash b)) (filter (tx_block_cond (snd (insert_inputs is (insert_outputs os (insert_block b d)))))
       (block_txns os is))) = (tab, new)" by fastforce
  ultimately show "db_tx_blocks d' = db_tx_blocks d"
    using insert_new_append [OF r] insert_new_subset [OF r]
    by (auto simp: d'_def undo_effect_def block_effect_def insert_tx_blocks_def filter_empty_conv
        intro!: filter_True)
qed

lemma undo_block_effect_seen:
  assumes inv: "chain_db_inv d" and fresh: "fresh_block d b os is"
  defines "d' \<equiv> undo_effect (bh_hash b) (block_effect b os is d)"
  shows "confirmed_outputs d' = confirmed_outputs d" and "confirmed_inputs d' = confirmed_inputs d"
proof -
  note tables = undo_block_effect_tables [OF inv fresh, folded d'_def]
  obtain no where no: "db_tx_outputs (insert_outputs os (insert_block b d)) = db_tx_outputs d @ no"
    "\<And>r. r \<in> set no \<Longrightarrow> o_tx_id r \<in> (\<lambda>u. op_txid (txo_outpoint (au_utxo u))) ` set os"
    using insert_outputs_rows [of os "insert_block b d"] by auto
  obtain ni where ni: "db_tx_inputs (snd (insert_inputs is (insert_outputs os (insert_block b d)))) =
      db_tx_inputs d @ ni"
    "\<And>r. r \<in> set ni \<Longrightarrow> i_spending_tx_id r \<in> st_spending_tx ` set is"
    using insert_inputs_rows [of "is" "insert_outputs os (insert_block b d)"] by auto
  have "db_tx_outputs d' = db_tx_outputs d @ no" "db_tx_inputs d' = db_tx_inputs d @ ni"
    by (simp_all add: d'_def undo_effect_def block_effect_def no ni)
  moreover have "confirming d' = confirming d"
    using tables by (rule confirming_cong)
  moreover have "\<forall>r\<in>set no. confirming d (o_tx_id r) = []"
  proof
    fix r assume "r \<in> set no"
    then have "o_tx_id r \<in> set (block_txns os is)" using no(2) by (simp add: set_block_txns)
    then show "confirming d (o_tx_id r) = []"
      using fresh by (intro confirming_none) (auto simp: fresh_block_def)
  qed
  moreover have "\<forall>r\<in>set ni. confirming d (i_spending_tx_id r) = []"
  proof
    fix r assume "r \<in> set ni"
    then have "i_spending_tx_id r \<in> set (block_txns os is)" by (simp add: ni(2) set_block_txns)
    then show "confirming d (i_spending_tx_id r) = []"
      using fresh by (intro confirming_none) (auto simp: fresh_block_def)
  qed
  ultimately show "confirmed_outputs d' = confirmed_outputs d" "confirmed_inputs d' = confirmed_inputs d"
    by (simp_all add: confirmed_outputs_def confirmed_inputs_def)
qed

lemma pg_get_utxos_cong:
  "confirmed_outputs d = confirmed_outputs d' \<Longrightarrow> confirmed_inputs d = confirmed_inputs d' \<Longrightarrow>
   fst (pg_get_utxos cfg \<lparr>pg_data = d, pg_faults = []\<rparr>) = fst (pg_get_utxos cfg \<lparr>pg_data = d', pg_faults = []\<rparr>)"
  by (simp add: pg_get_utxos_def unspent_outputs_def spends_of_def sql_run seq_def map_err_def)

text \<open>C32: undoing a block that was just added (the reorganisation path) restores the block list and
  the unspent outputs the service sees, whatever rows the block left behind in the output and
  input tables, provided the block and its transactions were not recorded before.\<close>

theorem undo_block_restores_utxos:
  assumes "chain_db_inv d" and "fresh_block d b os is"
  shows "(case pg_undo_block (bh_hash b)
            (snd (pg_add_block b os is \<lparr>pg_data = d, pg_faults = []\<rparr>)) of (r, s) \<Rightarrow>
          r = Inr () \<and> db_blocks (pg_data s) = db_blocks d \<and>
          fst (pg_get_utxos cfg s) = fst (pg_get_utxos cfg \<lparr>pg_data = d, pg_faults = []\<rparr>))"
  using undo_block_effect_tables [OF assms(1,2)]
    pg_get_utxos_cong [OF undo_block_effect_seen [OF assms(1,2)], of cfg]
  by (simp add: pg_add_block_no_fault pg_undo_block_def sql_run undo_effect_def)

lemma insert_again:
  assumes "db_blocks d' = db_blocks (block_effect b os is d)" "db_watch d' = db_watch d"
    "db_tx_outputs d' = db_tx_outputs (block_effect b os is d)"
    "db_tx_inputs d' = db_tx_inputs (block_effect b os is d)"
    "db_tx_blocks d' = db_tx_blocks (block_effect b os is d)"
  shows "block_effect b os is d' = d'"
    and "fst (insert_inputs is (insert_outputs os (insert_block b d'))) = []"
proof -
  have b: "insert_block b d' = d'"
    using assms(1) insert_new_fst_again [of bh_hash "db_blocks d" "[b]"]
    by (simp add: block_effect_def insert_block_def del: insert_new.simps)
  have o: "insert_outputs os d' = d'"
    using assms insert_new_fst_again [of output_key "db_tx_outputs d"]
    by (simp add: block_effect_def insert_outputs_def)
  define rs where "rs = filter (\<lambda>r. (i_tx_id r, i_index r) \<in> output_key ` set (db_tx_outputs d'))
      (map input_row is)"
  have "db_tx_inputs d' = fst (insert_new input_key (db_tx_inputs d) rs)"
    using assms by (simp add: rs_def block_effect_def insert_inputs_def split: prod.split)
  then have i: "insert_inputs is d' = ([], d')"
    using insert_new_fst_again [of input_key "db_tx_inputs d" rs]
    by (simp add: insert_inputs_def rs_def)
  have "tx_block_cond d' = tx_block_cond (snd (insert_inputs is (insert_outputs os (insert_block b d))))"
    using assms by (intro ext) (simp add: tx_block_cond_def block_effect_def)
  then have t: "insert_tx_blocks (block_txns os is) (bh_hash b) d' = d'"
    using assms insert_new_fst_again [of id "db_tx_blocks d"]
    by (simp add: block_effect_def insert_tx_blocks_def)
  show "block_effect b os is d' = d'" by (simp add: block_effect_def b o i t)
  show "fst (insert_inputs is (insert_outputs os (insert_block b d'))) = []" by (simp add: b o i)
qed

text \<open>Adding a block again reports no newly spent output and changes no table, so a
  synchronisation that is repeated after a lost acknowledgement is harmless.\<close>

lemma add_block_twice:
  "pg_add_block b os is (snd (pg_add_block b os is \<lparr>pg_data = d, pg_faults = []\<rparr>)) =
     (Inr [], snd (pg_add_block b os is \<lparr>pg_data = d, pg_faults = []\<rparr>))"
proof -
  have "db_watch (block_effect b os is d) = db_watch d" by (simp add: block_effect_def)
  from insert_again [OF refl this refl refl refl] show ?thesis
    by (simp add: pg_add_block_no_fault)
qed


lemma insert_tx_blocks_superset: "set (db_tx_blocks d) \<subseteq> set (db_tx_blocks (insert_tx_blocks txns h d))"
  by (auto simp: insert_tx_blocks_def)

lemma in_insert_tx_blocks:
  "(t, h) \<in> set (db_tx_blocks (insert_tx_blocks txns h d)) \<longleftrightarrow>
     (t, h) \<in> set (db_tx_blocks d) \<or> (t \<in> set txns \<and> tx_block_cond d t)"
  by (auto simp: insert_tx_blocks_def)

lemma watched_output_row:
  assumes u: "u \<in> set os" "au_address u \<in> set (db_watch d)"
  shows "\<exists>r\<in>set (db_tx_outputs (insert_outputs os d)). o_tx_id r = op_txid (txo_outpoint (au_utxo u))"
proof -
  have "output_row u \<in> set (filter (\<lambda>r. o_address r \<in> set (db_watch d)) (map output_row os))"
    using u by (auto simp: output_row_def)
  then have "output_key (output_row u) \<in> output_key ` set (db_tx_outputs (insert_outputs os d))"
    by (auto simp: insert_outputs_def insert_new_fst_keys)
  then show ?thesis by (auto simp: output_key_def output_row_def)
qed

lemma insert_new_in:
  assumes "r \<in> set rs" and "\<And>q. q \<in> set tab \<union> set rs \<Longrightarrow> key q = key r \<Longrightarrow> q = r"
  shows "r \<in> set (fst (insert_new key tab rs))"
proof -
  have "key r \<in> key ` set (fst (insert_new key tab rs))"
    using assms(1) by (simp add: insert_new_fst_keys)
  then obtain q where "q \<in> set (fst (insert_new key tab rs))" "key q = key r" by auto
  with insert_new_fst_subset [of key tab rs] assms(2) show ?thesis by auto
qed

lemma insert_inputs_tab:
  "db_tx_inputs (snd (insert_inputs ts d)) = fst (insert_new input_key (db_tx_inputs d)
     (filter (\<lambda>r. (i_tx_id r, i_index r) \<in> output_key ` set (db_tx_outputs d)) (map input_row ts)))"
  by (simp add: insert_inputs_def split: prod.split)

definition spent_key :: "tx_input_row \<Rightarrow> txid \<times> i64" where
  "spent_key r = (i_tx_id r, i_index r)"

text \<open>
  What the tables know already of a block and of an output, from a block that was undone say, is what
  the block says, and no recorded input spends the output.
\<close>

definition agrees :: "chain_db \<Rightarrow> block_header \<Rightarrow> tx_output_row \<Rightarrow> bool" where
  "agrees d b r \<longleftrightarrow>
     list_all (\<lambda>c. bh_hash c = bh_hash b \<longrightarrow> c = b) (db_blocks d) \<and>
     list_all (\<lambda>q. output_key q = output_key r \<longrightarrow> q = r) (db_tx_outputs d) \<and>
     list_all (\<lambda>q. spent_key q \<noteq> output_key r) (db_tx_inputs d)"

lemma stored_block:
  assumes "list_all (\<lambda>c. bh_hash c = bh_hash b \<longrightarrow> c = b) (db_blocks d)"
  shows "b \<in> set (db_blocks (insert_block b d))"
  using assms insert_new_in [of b "[b]" "db_blocks d" bh_hash] by (auto simp: insert_block_def list_all_iff)

lemma output_row_sel:
  "o_tx_id (output_row u) = op_txid (txo_outpoint (au_utxo u))" "o_address (output_row u) = au_address u"
  by (simp_all add: output_row_def)

text \<open>
  An output of a watched address is unspent once its block is added, unless the block spends it; and
  an input of a transaction that pays a watched address takes the output it spends off the unspent
  ones. The second needs the payment: see \<open>unwatched_spend_leaves_utxos\<close>.
\<close>

lemma unspent_after_block:
  assumes u: "u \<in> set os" "au_address u \<in> set (db_watch d)"
    and unique: "\<And>v. v \<in> set os \<Longrightarrow> output_key (output_row v) = output_key (output_row u) \<Longrightarrow>
      output_row v = output_row u"
    and agrees: "agrees d b (output_row u)"
    and unspent: "\<And>x. x \<in> set is \<Longrightarrow> spent_key (input_row x) \<noteq> output_key (output_row u)"
  shows "(output_row u, b) \<in> set (unspent_outputs (block_effect b os is d))"
proof -
  define d1 where "d1 = insert_outputs os (insert_block b d)"
  define d2 where "d2 = snd (insert_inputs is d1)"
  have d': "block_effect b os is d = insert_tx_blocks (block_txns os is) (bh_hash b) d2"
    by (simp add: block_effect_def d1_def d2_def)
  have r: "output_row u \<in> set (db_tx_outputs d1)"
    unfolding d1_def insert_outputs_def
    using u unique agrees
    by (auto intro!: insert_new_in simp: agrees_def list_all_iff output_row_sel)
  then have "tx_block_cond d2 (o_tx_id (output_row u))" by (auto simp: tx_block_cond_def d2_def)
  then have "(o_tx_id (output_row u), bh_hash b) \<in> set (db_tx_blocks (block_effect b os is d))"
    using u(1) by (auto simp: d' in_insert_tx_blocks set_block_txns output_row_sel)
  moreover have "b \<in> set (db_blocks (block_effect b os is d))"
    using stored_block [of b d] agrees by (simp add: d' d2_def d1_def agrees_def)
  ultimately have "(output_row u, b) \<in> set (confirmed_outputs (block_effect b os is d))"
    using r by (simp add: confirmed_outputs_iff d' d2_def)
  moreover have "spent_key i \<noteq> output_key (output_row u)" if "i \<in> set (db_tx_inputs d2)" for i
  proof -
    have "i \<in> set (db_tx_inputs d) \<union> input_row ` set is"
      using that insert_new_fst_subset [of input_key "db_tx_inputs d"] by (fastforce simp: d2_def insert_inputs_tab d1_def)
    with agrees unspent show ?thesis by (auto simp: agrees_def list_all_iff)
  qed
  then have "spends_of (block_effect b os is d) (output_row u) = []"
    by (auto simp: spends_of_def filter_empty_conv confirmed_inputs_iff d' spent_key_def output_key_def)
  ultimately show ?thesis by (simp add: unspent_outputs_def)
qed

lemma spent_after_block:
  assumes "x \<in> set is" and "\<And>y. y \<in> set is \<Longrightarrow> input_key (input_row y) = input_key (input_row x) \<Longrightarrow> y = x"
    and "\<And>q. q \<in> set (db_tx_inputs d) \<Longrightarrow> input_key q = input_key (input_row x) \<Longrightarrow> q = input_row x"
    and "u \<in> set os" "au_address u \<in> set (db_watch d)" "op_txid (txo_outpoint (au_utxo u)) = st_spending_tx x"
    and "output_key r = spent_key (input_row x)"
  shows "r \<notin> fst ` set (unspent_outputs (block_effect b os is d))"
proof
  assume r: "r \<in> fst ` set (unspent_outputs (block_effect b os is d))"
  define d1 where "d1 = insert_outputs os (insert_block b d)"
  define d2 where "d2 = snd (insert_inputs is d1)"
  have d': "block_effect b os is d = insert_tx_blocks (block_txns os is) (bh_hash b) d2"
    by (simp add: block_effect_def d1_def d2_def)
  have "r \<in> set (db_tx_outputs d1)"
    using r by (auto simp: unspent_outputs_def confirmed_outputs_iff d' d2_def)
  then have key: "spent_key (input_row x) \<in> output_key ` set (db_tx_outputs d1)" using assms(7) by (metis imageI)
  have i: "input_row x \<in> set (db_tx_inputs d2)"
    unfolding d2_def insert_inputs_tab
    by (rule insert_new_in) (use assms(1-3) key in \<open>auto simp: d1_def spent_key_def dest: assms(2,3)\<close>)
  have "tx_block_cond d2 (st_spending_tx x)"
    using watched_output_row [of u os "insert_block b d"] assms(4-6) by (simp add: tx_block_cond_def d1_def d2_def)
  then have t: "(st_spending_tx x, bh_hash b) \<in> set (db_tx_blocks (block_effect b os is d))"
    using assms(1) by (simp add: d' in_insert_tx_blocks set_block_txns)
  obtain c where c: "c \<in> set (db_blocks (insert_block b d))" "bh_hash c = bh_hash b"
    using block_in_insert_block [of b d] by auto
  have "(input_row x, c) \<in> set (confirmed_inputs (block_effect b os is d))"
    using i t c by (simp add: confirmed_inputs_iff d' d1_def d2_def input_row_def)
  then have "(input_row x, c) \<in> set (spends_of (block_effect b os is d) r)"
    using assms(7) by (simp add: spends_of_def output_key_def spent_key_def)
  then have "spends_of (block_effect b os is d) r \<noteq> []" by (metis empty_iff list.set(1))
  with r show False by (auto simp: unspent_outputs_def)
qed

definition unseen_spends :: "chain_db \<Rightarrow> address_utxo list \<Rightarrow> spent_txo list \<Rightarrow> bool" where
  "unseen_spends d os is \<longleftrightarrow>
     list_all (\<lambda>u. au_address u \<notin> set (db_watch d)) os \<and>
     set (block_txns os is) \<inter> o_tx_id ` set (db_tx_outputs d) = {} \<and>
     list_all (\<lambda>i. i_spending_tx_id i \<noteq> i_tx_id i) (db_tx_inputs d) \<and>
     list_all (\<lambda>x. st_spending_tx x \<noteq> op_txid (st_outpoint x)) is"

lemma confirming_insert_block:
  assumes inv: "chain_db_inv d" and fresh: "bh_hash b \<notin> bh_hash ` set (db_blocks d)"
    and "db_blocks d' = db_blocks (insert_block b d)" and "db_tx_blocks d' = db_tx_blocks d"
  shows "confirming d' = confirming d"
proof
  fix t
  have "\<forall>tb\<in>set (db_tx_blocks d). snd tb \<noteq> bh_hash b"
    using inv fresh by (auto simp: chain_db_inv_def)
  then have ne: "tb \<in> set (db_tx_blocks d) \<Longrightarrow> bh_hash b \<noteq> snd tb" for tb by metis
  then show "confirming d' t = confirming d t"
    using assms by (auto simp: confirming_def insert_block_fresh intro!: arg_cong [where f = concat]
        dest: ne)
qed

lemma insert_outputs_unwatched:
  assumes "list_all (\<lambda>u. au_address u \<notin> set (db_watch d)) os"
  shows "insert_outputs os d = d"
proof -
  have "filter (\<lambda>r. o_address r \<in> set (db_watch d)) (map output_row os) = []"
    using assms by (auto simp: filter_empty_conv output_row_def list_all_iff)
  then show ?thesis by (simp add: insert_outputs_def)
qed

lemma unseen_block_effect:
  assumes fresh: "fresh_block d b os is" and unseen: "unseen_spends d os is" and inv: "chain_db_inv d"
  defines "d' \<equiv> block_effect b os is d"
  shows "confirmed_outputs d' = confirmed_outputs d" and "confirmed_inputs d' = confirmed_inputs d"
proof -
  define d1 where "d1 = insert_block b d"
  define d2 where "d2 = snd (insert_inputs is d1)"
  have o: "insert_outputs os d1 = d1"
    using unseen by (intro insert_outputs_unwatched) (simp add: d1_def unseen_spends_def)
  have d': "d' = insert_tx_blocks (block_txns os is) (bh_hash b) d2"
    using o by (simp add: d'_def block_effect_def d2_def d1_def)
  have sub: "set (db_tx_inputs d2) \<subseteq> set (db_tx_inputs d) \<union> input_row ` set is"
  proof -
    define rs where "rs = filter (\<lambda>r. (i_tx_id r, i_index r) \<in> output_key ` set (db_tx_outputs d1)) (map input_row is)"
    have "db_tx_inputs d2 = fst (insert_new input_key (db_tx_inputs d) rs)"
      by (simp add: d2_def insert_inputs_def rs_def d1_def split: prod.split)
    with insert_new_fst_subset [of input_key "db_tx_inputs d" rs] show ?thesis by (auto simp: rs_def)
  qed
  then have "\<forall>i\<in>set (db_tx_inputs d2). i_spending_tx_id i \<noteq> i_tx_id i"
    using unseen by (auto simp: unseen_spends_def list_all_iff input_row_def)
  moreover have "\<forall>t\<in>set (block_txns os is). t \<notin> o_tx_id ` set (db_tx_outputs d2)"
    using unseen by (auto simp: unseen_spends_def d2_def d1_def)
  ultimately have "filter (tx_block_cond d2) (block_txns os is) = []"
    by (auto simp: filter_empty_conv tx_block_cond_def)
  then have t: "db_tx_blocks d' = db_tx_blocks d" by (simp add: d' insert_tx_blocks_def d2_def d1_def)
  have c: "confirming d' = confirming d"
    using fresh inv by (intro confirming_insert_block [OF _ _ _ t])
      (auto simp: fresh_block_def d' d2_def d1_def)
  show "confirmed_outputs d' = confirmed_outputs d"
    by (simp add: confirmed_outputs_def c) (simp add: d' d2_def d1_def)
  obtain ni where ni: "db_tx_inputs d2 = db_tx_inputs d @ ni"
    "\<And>r. r \<in> set ni \<Longrightarrow> i_spending_tx_id r \<in> st_spending_tx ` set is"
    using insert_inputs_rows [of "is" d1] by (auto simp: d2_def d1_def)
  have "\<forall>r\<in>set ni. confirming d (i_spending_tx_id r) = []"
  proof
    fix r assume "r \<in> set ni"
    then have "i_spending_tx_id r \<in> set (block_txns os is)" by (simp add: ni(2) set_block_txns)
    then show "confirming d (i_spending_tx_id r) = []"
      using fresh by (intro confirming_none) (auto simp: fresh_block_def)
  qed
  then show "confirmed_inputs d' = confirmed_inputs d"
    by (simp add: confirmed_inputs_def c) (simp add: d' ni)
qed

text \<open>C33: a block whose spending transactions pay no watched address leaves the unspent outputs as
  they were: the output it spends is recorded in the input table and reported as spent, yet
  \<open>get_utxos\<close> keeps returning it, because the transaction is not correlated with the block.\<close>

theorem unwatched_spend_leaves_utxos:
  assumes "chain_db_inv d" and "fresh_block d b os is" and "unseen_spends d os is"
  shows "fst (pg_get_utxos cfg (snd (pg_add_block b os is \<lparr>pg_data = d, pg_faults = []\<rparr>))) =
         fst (pg_get_utxos cfg \<lparr>pg_data = d, pg_faults = []\<rparr>)"
  using pg_get_utxos_cong [OF unseen_block_effect [OF assms(2,3,1)], of cfg]
  by (simp add: pg_add_block_no_fault)

section \<open>Addresses that are read back as they were stored\<close>

text \<open>Watched addresses were stored in their canonical text, for the configured network.\<close>

definition canonical :: "chain_repo_cfg \<Rightarrow> chain_db \<Rightarrow> bool" where
  "canonical cfg d \<longleftrightarrow> list_all (\<lambda>a. parse_address (cr_lib cfg) (cr_network cfg) a = Some a) (db_watch d)"

lemma filter_canonical:
  assumes "pg_faults s = []" and "canonical cfg (pg_data s)"
  shows "pg_filter_watch_addresses cfg as s = (Inr (filter (\<lambda>a. a \<in> set as) (db_watch (pg_data s))), s)"
proof -
  have "collect_res (map (parse_addr cfg) (filter (\<lambda>a. a \<in> set as) (db_watch (pg_data s)))) =
      Inr (filter (\<lambda>a. a \<in> set as) (db_watch (pg_data s)))"
    using assms(2) by (auto simp: collect_res_Inr canonical_def list_all_iff parse_addr_def of_option_def)
  then show ?thesis
    using assms(1) by (simp add: pg_filter_watch_addresses_def sql_run seq_def map_err_def)
qed

lemma get_utxos_canonical:
  assumes "pg_faults s = []" and "canonical cfg (pg_data s)" and "chain_db_inv (pg_data s)"
  shows "pg_get_utxos cfg s = (Inr (map (\<lambda>rb. \<lparr>au_address = o_address (fst rb), au_utxo = map_txo cfg (o_address (fst rb)) rb\<rparr>)
     (sort_key (\<lambda>rb. cr_address_rank cfg (o_address (fst rb))) (order_txos cfg id (unspent_outputs (pg_data s))))), s)"
proof -
  have "map_utxo cfg rb = Inr \<lparr>au_address = o_address (fst rb), au_utxo = map_txo cfg (o_address (fst rb)) rb\<rparr>"
    if "rb \<in> set (unspent_outputs (pg_data s))" for rb
  proof -
    have "fst rb \<in> set (db_tx_outputs (pg_data s))"
      using that confirmed_outputs_iff [of "fst rb" "snd rb"] by (simp add: unspent_outputs_def)
    then have "parse_address (cr_lib cfg) (cr_network cfg) (o_address (fst rb)) = Some (o_address (fst rb))"
      using assms(2,3) by (auto simp: canonical_def chain_db_inv_def list_all_iff)
    then show ?thesis by (simp add: map_utxo_def parse_addr_def of_option_def bind_res_def)
  qed
  then have "map (map_utxo cfg) (sort_key (\<lambda>rb. cr_address_rank cfg (o_address (fst rb))) (order_txos cfg id (unspent_outputs (pg_data s)))) =
    map Inr (map (\<lambda>rb. \<lparr>au_address = o_address (fst rb), au_utxo = map_txo cfg (o_address (fst rb)) rb\<rparr>)
     (sort_key (\<lambda>rb. cr_address_rank cfg (o_address (fst rb))) (order_txos cfg id (unspent_outputs (pg_data s)))))"
    by (auto simp: order_txos_def)
  then show ?thesis using assms(1) by (simp add: pg_get_utxos_def sql_run seq_def map_err_def del: map_map)
qed

lemma in_get_utxos:
  assumes "pg_faults s = []" and "canonical cfg (pg_data s)" and "chain_db_inv (pg_data s)"
  obtains us where "pg_get_utxos cfg s = (Inr us, s)"
    "set us = (\<lambda>(r, b). \<lparr>au_address = o_address r, au_utxo = map_txo cfg (o_address r) (r, b)\<rparr>) ` set (unspent_outputs (pg_data s))"
  by (rule that [OF get_utxos_canonical [OF assms]]) (simp add: order_txos_def case_prod_beta)

text \<open>C21: every run of the repository's operations from the empty database, in any order and with
  any failing statements, keeps the keys of the migration: distinct keys in every table,
  transactions correlated to existing blocks only, inputs that refer to recorded outputs, and
  outputs of watched addresses only.\<close>

theorem chain_db_inv_reachable:
  "chain_db_inv (pg_data (fold (run_chain_call cfg) calls \<lparr>pg_data = empty_chain_db, pg_faults = fs\<rparr>))"
  by (intro chain_db_inv_calls) (simp add: chain_db_inv_empty)

subsection \<open>A small database\<close>

definition ex_lib :: bitcoin_lib where
  "ex_lib =
     \<lparr>compute_txid = (\<lambda>t. word_of_nat (length (tx_output t))),
      compute_block_hash = (\<lambda>b. prev_blockhash b + 1),
      bip34_block_height = (\<lambda>b. None),
      parse_address = (\<lambda>n s. Some s),
      address_from_script = (\<lambda>n s. Some (map (\<lambda>w. char_of (unat w)) s)),
      address_script = map (\<lambda>c. word_of_nat (of_char c))\<rparr>"

definition ex_repo_cfg :: chain_repo_cfg where
  "ex_repo_cfg =
     \<lparr>cr_lib = ex_lib, cr_network = ''regtest'', cr_txid_rank = unat, cr_address_rank = length\<rparr>"

definition ex_output :: tx_output_row where
  "ex_output = \<lparr>o_tx_id = 7, o_index = 0, o_address = ''a'', o_amount = 1000\<rparr>"

definition ex_chain_db :: chain_db where
  "ex_chain_db =
     \<lparr>db_blocks = [\<lparr>bh_hash = 1, bh_height = 1, bh_prev = 0\<rparr>], db_watch = [''a''],
      db_tx_outputs = [ex_output], db_tx_blocks = [(7, 1)], db_tx_inputs = []\<rparr>"

definition ex_header :: block_header where
  "ex_header = \<lparr>bh_hash = 2, bh_height = 2, bh_prev = 1\<rparr>"

definition ex_spend :: spent_txo where
  "ex_spend = \<lparr>st_outpoint = OutPoint 7 0, st_spending_tx = 8, st_spending_input_index = 0\<rparr>"

lemmas ex_chain_defs =
  ex_chain_db_def ex_output_def ex_header_def ex_spend_def ex_repo_cfg_def ex_lib_def

lemma ex_chain_db_inv: "chain_db_inv ex_chain_db"
  by (simp add: ex_chain_defs chain_db_inv_def output_key_def)

lemma ex_fresh: "fresh_block ex_chain_db ex_header [] [ex_spend]"
  by (simp add: ex_chain_defs fresh_block_def block_txns_def)

lemma undo_block_restores_utxos_witness:
  "fst (pg_get_utxos ex_repo_cfg (snd (pg_undo_block 2 (snd (pg_add_block ex_header [] [ex_spend]
     \<lparr>pg_data = ex_chain_db, pg_faults = []\<rparr>))))) =
   fst (pg_get_utxos ex_repo_cfg \<lparr>pg_data = ex_chain_db, pg_faults = []\<rparr>)"
  using undo_block_restores_utxos [OF ex_chain_db_inv ex_fresh, of ex_repo_cfg]
  by (simp add: ex_header_def split: prod.splits)

lemma ex_utxos:
  "pg_get_utxos ex_repo_cfg \<lparr>pg_data = ex_chain_db, pg_faults = []\<rparr> =
     (Inr [\<lparr>au_address = ''a'', au_utxo = \<lparr>txo_block_hash = 1, txo_block_height = 1,
      txo_outpoint = OutPoint 7 0, txo_tx_out = \<lparr>txo_value = 1000, txo_script = [97]\<rparr>\<rparr>\<rparr>],
      \<lparr>pg_data = ex_chain_db, pg_faults = []\<rparr>)"
  by (simp add: ex_chain_defs pg_get_utxos_def sql_run seq_def map_err_def order_txos_def
      unspent_outputs_def confirmed_outputs_def confirming_def spends_of_def confirmed_inputs_def
      map_utxo_def parse_addr_def of_option_def bind_res_def map_txo_def)

lemma unwatched_spend_leaves_utxos_witness:
  "fst (pg_get_utxos ex_repo_cfg (snd (pg_add_block ex_header [] [ex_spend]
     \<lparr>pg_data = ex_chain_db, pg_faults = []\<rparr>))) =
   Inr [\<lparr>au_address = ''a'', au_utxo = \<lparr>txo_block_hash = 1, txo_block_height = 1,
      txo_outpoint = OutPoint 7 0, txo_tx_out = \<lparr>txo_value = 1000, txo_script = [97]\<rparr>\<rparr>\<rparr>]"
proof -
  have "unseen_spends ex_chain_db [] [ex_spend]"
    by (simp add: ex_chain_defs unseen_spends_def block_txns_def)
  from unwatched_spend_leaves_utxos [OF ex_chain_db_inv ex_fresh this, of ex_repo_cfg]
  show ?thesis by (simp add: ex_utxos)
qed

end
