(* ===== verification/Chain_Monitor.thy ===== *)
theory Chain_Monitor
  imports Memchain Chain_Repository
begin

text \<open>
  The chain monitor (\<open>chain/monitor.rs\<close>): it scans a block for outputs to watched addresses and
  for spends, and it synchronises the block table and the in-memory chain with the node.

  The monitor is generic in its client and its repository, as in the source: both are records of
  operations over a state \<open>'w\<close>. The cancellation token is a function of that state, which the
  client's operations may change; loops take fuel. Both callers of \<open>do_sync\<close> drop the chain when
  it fails, so only a successful run returns one.
\<close>

section \<open>Scanning a block\<close>

record 'w chain_monitor =
  cm_network :: network
  cm_client :: "'w chain_client"
  cm_repository :: "'w chain_repository"
  cm_poll_interval :: nat
  cm_full_sync_interval :: nat
  cm_lib :: bitcoin_lib

text \<open>The three collections the loop over the transactions fills.\<close>

record block_scan =
  sc_spent_txos :: "spent_txo list"
  sc_addresses :: "address list"
  sc_address_utxos :: "address \<rightharpoonup> (outpoint \<times> tx_out) list"

definition scan_output ::
    "bitcoin_lib \<Rightarrow> network \<Rightarrow> txid \<Rightarrow> nat \<times> tx_out \<Rightarrow> block_scan \<Rightarrow> block_scan" where
  "scan_output lib net txid vo sc =
     (case vo of (vout, output) \<Rightarrow>
        (case address_from_script lib net (txo_script output) of
           None \<Rightarrow> sc
         | Some a \<Rightarrow>
             let entry = (case sc_address_utxos sc a of None \<Rightarrow> [] | Some l \<Rightarrow> l) in
             sc\<lparr>sc_addresses := sc_addresses sc @ [a],
                sc_address_utxos := (sc_address_utxos sc)
                  (a \<mapsto> entry @ [(OutPoint txid (word_of_nat vout), output)])\<rparr>))"

definition scan_input :: "txid \<Rightarrow> nat \<times> tx_in \<Rightarrow> block_scan \<Rightarrow> block_scan" where
  "scan_input txid vi sc =
     (case vi of (vin, input) \<Rightarrow>
        sc\<lparr>sc_spent_txos := sc_spent_txos sc @
             [\<lparr>st_outpoint = previous_output input, st_spending_tx = txid,
               st_spending_input_index = word_of_nat vin\<rparr>]\<rparr>)"

definition scan_tx :: "bitcoin_lib \<Rightarrow> network \<Rightarrow> transaction \<Rightarrow> block_scan \<Rightarrow> block_scan" where
  "scan_tx lib net tx sc =
     (let txid = compute_txid lib tx in
      fold (scan_input txid) (enumerate 0 (tx_input tx))
        (fold (scan_output lib net txid) (enumerate 0 (tx_output tx)) sc))"

definition scan_block :: "bitcoin_lib \<Rightarrow> network \<Rightarrow> block \<Rightarrow> block_scan" where
  "scan_block lib net blk =
     fold (scan_tx lib net) (txdata blk)
       \<lparr>sc_spent_txos = [], sc_addresses = [], sc_address_utxos = Map.empty\<rparr>"

definition watch_utxos ::
    "block_hash \<Rightarrow> u64 \<Rightarrow> (address \<rightharpoonup> (outpoint \<times> tx_out) list) \<Rightarrow> address list \<Rightarrow>
     address_utxo list" where
  "watch_utxos bhash height utxos watch_addresses =
     concat (List.map_filter
       (\<lambda>a. map_option (map (\<lambda>(p, out).
          \<lparr>au_address = a,
           au_utxo = \<lparr>txo_block_hash = bhash, txo_block_height = height, txo_outpoint = p,
             txo_tx_out = out\<rparr>\<rparr>)) (utxos a))
       watch_addresses)"

definition process_block :: "'w chain_monitor \<Rightarrow> block \<Rightarrow> ('w, chain_error, unit) op" where
  "process_block cm blk =
     (let bhash = compute_block_hash (cm_lib cm) blk in
      seq (lift_res (of_option (ChainGeneral (BoxMsg ''bip34''))
            (bip34_block_height (cm_lib cm) blk))) (\<lambda>height.
      let sc = scan_block (cm_lib cm) (cm_network cm) blk in
      seq (map_err Database
            (filter_watch_addresses (cm_repository cm) (sc_addresses sc))) (\<lambda>watch_addresses.
      seq (map_err Database
            (add_block (cm_repository cm)
               \<lparr>bh_hash = bhash, bh_height = height, bh_prev = prev_blockhash blk\<rparr>
               (watch_utxos bhash height (sc_address_utxos sc) watch_addresses)
               (sc_spent_txos sc))) (\<lambda>_.
      ret ()))))"

section \<open>Synchronisation\<close>

text \<open>The loop that collects the missed headers; \<open>None\<close> when it was cancelled.\<close>

fun catch_up ::
    "nat \<Rightarrow> 'w chain_monitor \<Rightarrow> ('w \<Rightarrow> bool) \<Rightarrow> chain \<Rightarrow> block_header \<Rightarrow> chain \<Rightarrow>
     ('w, chain_error exn, chain option) op" where
  "catch_up 0 cm token existing cur new_chain w = (Inl Diverged, w)"
| "catch_up (Suc n) cm token existing cur new_chain w =
     (if token w then (Inr None, w)
      else if contains_block existing (bh_hash cur) then (Inr (Some new_chain), w)
      else seq (map_err Err (get_block_header (cm_client cm) (bh_prev cur))) (\<lambda>prev.
             case chain_prepend prev new_chain of
               (Inl e, _) \<Rightarrow> fail e
             | (Inr _, new_chain') \<Rightarrow> catch_up n cm token existing prev new_chain') w)"

text \<open>The loops over \<open>iter_backwards\<close> and \<open>iter_forwards\<close>; \<open>False\<close> when cancelled.\<close>

fun undo_blocks ::
    "nat \<Rightarrow> 'w chain_monitor \<Rightarrow> ('w \<Rightarrow> bool) \<Rightarrow> chain \<Rightarrow> chain \<Rightarrow> block_info option \<Rightarrow>
     ('w, chain_error exn, bool) op" where
  "undo_blocks 0 cm token existing new_chain cur w = (Inl Diverged, w)"
| "undo_blocks (Suc n) cm token existing new_chain cur w =
     (case bwd_next existing cur of
        Inl e \<Rightarrow> (Inl e, w)
      | Inr None \<Rightarrow> (Inr True, w)
      | Inr (Some (reorg_block, cur')) \<Rightarrow>
          if token w then (Inr False, w)
          else if contains_block new_chain (bh_hash reorg_block) then (Inr True, w)
          else seq (map_err (Err \<circ> Database)
                     (undo_block (cm_repository cm) (bh_hash reorg_block))) (\<lambda>_.
                 undo_blocks n cm token existing new_chain cur') w)"

fun process_blocks ::
    "nat \<Rightarrow> 'w chain_monitor \<Rightarrow> ('w \<Rightarrow> bool) \<Rightarrow> chain \<Rightarrow> block_info option \<Rightarrow>
     ('w, chain_error exn, bool) op" where
  "process_blocks 0 cm token new_chain cur w = (Inl Diverged, w)"
| "process_blocks (Suc n) cm token new_chain cur w =
     (case fwd_next new_chain cur of
        Inl e \<Rightarrow> (Inl e, w)
      | Inr None \<Rightarrow> (Inr True, w)
      | Inr (Some (current_block, cur')) \<Rightarrow>
          if token w then (Inr False, w)
          else seq (map_err Err (get_block (cm_client cm) (bh_hash current_block))) (\<lambda>blk.
               seq (map_err Err (process_block cm blk)) (\<lambda>_.
               process_blocks n cm token new_chain cur')) w)"

definition do_sync ::
    "nat \<Rightarrow> 'w chain_monitor \<Rightarrow> ('w \<Rightarrow> bool) \<Rightarrow> chain \<Rightarrow> ('w, chain_error exn, chain) op" where
  "do_sync fuel cm token existing =
     seq (map_err Err (get_tip_hash (cm_client cm))) (\<lambda>tip_hash.
     seq (map_err Err (get_block_header (cm_client cm) tip_hash)) (\<lambda>current_header.
     seq (catch_up fuel cm token existing current_header (chain_new current_header)) (\<lambda>caught_up.
       case caught_up of
         None \<Rightarrow> ret existing
       | Some new_chain \<Rightarrow>
           seq (lift_res (chain_base new_chain)) (\<lambda>base.
           seq (lift_res (chain_tip existing)) (\<lambda>tip.
           seq (if base \<noteq> tip
                then seq (lift_res (bwd_new existing)) (undo_blocks fuel cm token existing new_chain)
                else ret True) (\<lambda>undone.
           if \<not> undone then ret existing
           else
             seq (lift_res (fwd_new new_chain)) (\<lambda>first.
             seq (process_blocks fuel cm token new_chain first) (\<lambda>processed.
             if \<not> processed then ret existing
             else (case chain_retip fuel new_chain existing of
                     (Inl e, _) \<Rightarrow> fail e
                   | (Inr _, chain) \<Rightarrow> ret chain)))))))))"

text \<open>
  \<open>start_tip_sync\<close> and \<open>start_full_sync\<close>. \<open>wait d w\<close> is the \<open>select!\<close> between the cancellation
  and a sleep of length \<open>d\<close>: it is \<open>True\<close> when the token was cancelled first.
\<close>

fun start_tip_sync ::
    "nat \<Rightarrow> nat \<Rightarrow> 'w chain_monitor \<Rightarrow> ('w \<Rightarrow> bool) \<Rightarrow> (nat \<Rightarrow> 'w \<Rightarrow> bool \<times> 'w) \<Rightarrow> chain \<Rightarrow>
     ('w, chain_error exn, unit) op" where
  "start_tip_sync 0 fuel cm token wait chain w = (Inl Diverged, w)"
| "start_tip_sync (Suc n) fuel cm token wait chain w =
     (if token w then (Inr (), w)
      else seq (do_sync fuel cm token chain) (\<lambda>chain' w1.
             case wait (cm_poll_interval cm) w1 of
               (True, w2) \<Rightarrow> (Inr (), w2)
             | (False, w2) \<Rightarrow> start_tip_sync n fuel cm token wait chain' w2) w)"

fun start_full_sync ::
    "nat \<Rightarrow> nat \<Rightarrow> 'w chain_monitor \<Rightarrow> ('w \<Rightarrow> bool) \<Rightarrow> (nat \<Rightarrow> 'w \<Rightarrow> bool \<times> 'w) \<Rightarrow> chain \<Rightarrow>
     ('w, chain_error exn, unit) op" where
  "start_full_sync 0 fuel cm token wait birthday_chain w = (Inl Diverged, w)"
| "start_full_sync (Suc n) fuel cm token wait birthday_chain w =
     (if token w then (Inr (), w)
      else seq (do_sync fuel cm token birthday_chain) (\<lambda>_ w1.
             case wait (cm_full_sync_interval cm) w1 of
               (True, w2) \<Rightarrow> (Inr (), w2)
             | (False, w2) \<Rightarrow> start_full_sync n fuel cm token wait birthday_chain w2) w)"

text \<open>
  The part of \<open>start\<close> before the tasks are spawned: the chain of the tip task and the birthday
  chain of the full synchronisation.
\<close>

primrec walk_back ::
    "nat \<Rightarrow> 'w chain_monitor \<Rightarrow> block_header \<Rightarrow> ('w, chain_error exn, block_header) op" where
  "walk_back 0 cm h = ret h"
| "walk_back (Suc n) cm h =
     seq (map_err Err (get_block_header (cm_client cm) (bh_prev h))) (\<lambda>h'. walk_back n cm h')"

definition start_chains :: "'w chain_monitor \<Rightarrow> ('w, chain_error exn, chain \<times> chain) op" where
  "start_chains cm =
     seq (map_err (Err \<circ> Database) (get_block_headers (cm_repository cm))) (\<lambda>blocks.
     seq (case chain_try_from blocks of
            Inr chain \<Rightarrow> ret chain
          | Inl (Err EmptyChain) \<Rightarrow>
              seq (map_err Err (get_tip_hash (cm_client cm))) (\<lambda>tip_hash.
              seq (map_err Err (get_block_header (cm_client cm) tip_hash)) (\<lambda>tip_header.
              seq (walk_back 20 cm tip_header) (\<lambda>birthday_header.
              seq (map_err (Err \<circ> Database)
                    (add_block (cm_repository cm) birthday_header [] [])) (\<lambda>_.
              ret (chain_new birthday_header)))))
          | Inl e \<Rightarrow> fail e) (\<lambda>chain.
     seq (lift_res (chain_base chain)) (\<lambda>base.
     ret (chain, chain_new base))))"

section \<open>What the loop over the outputs collects\<close>

definition tx_outputs_of ::
    "bitcoin_lib \<Rightarrow> network \<Rightarrow> transaction \<Rightarrow> (address \<times> outpoint \<times> tx_out) list" where
  "tx_outputs_of lib net tx =
     List.map_filter (\<lambda>(i, out). map_option (\<lambda>a. (a, OutPoint (compute_txid lib tx) (word_of_nat i), out))
       (address_from_script lib net (txo_script out))) (enumerate 0 (tx_output tx))"

definition tx_spends_of :: "bitcoin_lib \<Rightarrow> transaction \<Rightarrow> spent_txo list" where
  "tx_spends_of lib tx =
     map (\<lambda>(i, inp). \<lparr>st_outpoint = previous_output inp, st_spending_tx = compute_txid lib tx,
       st_spending_input_index = word_of_nat i\<rparr>) (enumerate 0 (tx_input tx))"

definition grouped :: "('k \<times> 'v) list \<Rightarrow> ('k \<rightharpoonup> 'v list)" where
  "grouped kvs k = (if k \<in> fst ` set kvs then Some (map snd (filter (\<lambda>kv. fst kv = k) kvs)) else None)"

definition scan_of :: "(address \<times> outpoint \<times> tx_out) list \<Rightarrow> spent_txo list \<Rightarrow> block_scan" where
  "scan_of outs sps =
     \<lparr>sc_spent_txos = sps, sc_addresses = map fst outs, sc_address_utxos = grouped outs\<rparr>"

lemma grouped_snoc:
  "grouped (kvs @ [(k, v)]) =
     (grouped kvs)(k \<mapsto> (case grouped kvs k of None \<Rightarrow> [] | Some l \<Rightarrow> l) @ [v])"
  by (rule ext) (auto simp: grouped_def image_iff filter_empty_conv)

lemma fold_scan_output:
  "fold (scan_output lib net t) vos (scan_of outs sps) =
     scan_of (outs @ List.map_filter (\<lambda>(i, out). map_option (\<lambda>a. (a, OutPoint t (word_of_nat i), out))
       (address_from_script lib net (txo_script out))) vos) sps"
proof (induction vos arbitrary: outs)
  case (Cons vo vos)
  obtain i out where vo: "vo = (i, out)" by fastforce
  show ?case
  proof (cases "address_from_script lib net (txo_script out)")
    case None
    with Cons show ?thesis by (simp add: vo scan_output_def map_filter_simps)
  next
    case (Some a)
    have "scan_output lib net t vo (scan_of outs sps) =
        scan_of (outs @ [(a, OutPoint t (word_of_nat i), out)]) sps"
      using Some grouped_snoc [of outs a]
      by (simp add: vo scan_output_def scan_of_def Let_def)
    with Cons Some show ?thesis by (simp add: vo map_filter_simps)
  qed
qed (simp add: map_filter_simps)

lemma fold_scan_input:
  "fold (scan_input t) vis (scan_of outs sps) =
     scan_of outs (sps @ map (\<lambda>(i, inp). \<lparr>st_outpoint = previous_output inp, st_spending_tx = t,
       st_spending_input_index = word_of_nat i\<rparr>) vis)"
  by (induction vis arbitrary: sps) (auto simp: scan_input_def scan_of_def)

lemma scan_tx_scan_of:
  "scan_tx lib net tx (scan_of outs sps) =
     scan_of (outs @ tx_outputs_of lib net tx) (sps @ tx_spends_of lib tx)"
  by (simp add: scan_tx_def Let_def fold_scan_output fold_scan_input tx_outputs_of_def tx_spends_of_def)

lemma fold_scan_tx:
  "fold (scan_tx lib net) txs (scan_of outs sps) =
     scan_of (outs @ concat (map (tx_outputs_of lib net) txs)) (sps @ concat (map (tx_spends_of lib) txs))"
  by (induction txs arbitrary: outs sps) (simp_all add: scan_tx_scan_of)

text \<open>The three collections that the loop over a block's transactions builds are, for every
  block: the addresses of all outputs with an address, in block order with repetitions; the
  outputs grouped by address; and every input of every transaction with its index. No output to a
  known address and no spend is missed, and none is attributed to another transaction.\<close>

lemma scan_block_correct:
  "scan_block lib net blk =
     (let outs = concat (map (tx_outputs_of lib net) (txdata blk)) in
      \<lparr>sc_spent_txos = concat (map (tx_spends_of lib) (txdata blk)),
       sc_addresses = map fst outs, sc_address_utxos = grouped outs\<rparr>)"
proof -
  have "\<lparr>sc_spent_txos = [], sc_addresses = [], sc_address_utxos = Map.empty\<rparr> = scan_of [] []"
    by (simp add: scan_of_def grouped_def fun_eq_iff)
  then show ?thesis
    using fold_scan_tx [of lib net "txdata blk" "[]" "[]"]
    by (simp add: scan_block_def scan_of_def Let_def)
qed

section \<open>The block table as a set of headers\<close>

text \<open>
  What the synchronisation needs of a repository: an abstraction of its state to the set of stored
  headers, and the effect of every operation on it, failing ones included.
\<close>

locale header_store =
  fixes repo :: "'w chain_repository"
    and headers :: "'w \<Rightarrow> block_header set"
  assumes add_block_ok:
      "add_block repo b os is w = (Inr r, w') \<Longrightarrow>
       headers w' = (if bh_hash b \<in> bh_hash ` headers w then headers w else insert b (headers w))"
    and add_block_err: "add_block repo b os is w = (Inl e, w') \<Longrightarrow> headers w' = headers w"
    and undo_block_ok:
      "undo_block repo h w = (Inr u, w') \<Longrightarrow> headers w' = {b \<in> headers w. bh_hash b \<noteq> h}"
    and undo_block_err: "undo_block repo h w = (Inl e, w') \<Longrightarrow> headers w' = headers w"
    and filter_keeps: "headers (snd (filter_watch_addresses repo as w)) = headers w"
begin

lemma undo_last:
  assumes "undo_block repo (bh_hash x) w = (Inr u, w')" and "headers w = set (hs @ [x])"
    and "good_headers (hs @ [x])"
  shows "headers w' = set hs"
proof -
  have "\<forall>y\<in>set hs. bh_hash y \<noteq> bh_hash x"
    using assms(3) by (auto simp: good_headers_def image_iff)
  with assms(2) undo_block_ok [OF assms(1)] show ?thesis by auto
qed

lemma add_next:
  assumes "add_block repo x os is w = (Inr u, w')" and "headers w = set hs"
    and "good_headers (hs @ [x])"
  shows "headers w' = set (hs @ [x])"
  using assms by (auto simp: add_block_ok good_headers_def)

lemma add_present:
  assumes "add_block repo x os is w = (Inr u, w')" and "headers w = set hs" and "x \<in> set hs"
  shows "headers w' = set hs"
  using assms by (auto simp: add_block_ok)

end

text \<open>
  A node that may fail at any call, but reports, while the monitor follows it, headers and blocks
  of one branch \<open>view\<close> and its last block as the tip. Its operations leave the store alone.
\<close>

definition honest_node ::
    "('w \<Rightarrow> block_header set) \<Rightarrow> bitcoin_lib \<Rightarrow> block_header list \<Rightarrow> 'w chain_client \<Rightarrow> bool" where
  "honest_node headers lib view cl \<longleftrightarrow>
     (\<forall>w. headers (snd (get_tip_hash cl w)) = headers w \<and>
          (\<forall>t. fst (get_tip_hash cl w) = Inr t \<longrightarrow> t = bh_hash (last view))) \<and>
     (\<forall>h w. headers (snd (get_block_header cl h w)) = headers w \<and>
          (\<forall>x. fst (get_block_header cl h w) = Inr x \<longrightarrow> h \<in> hashes view \<longrightarrow>
             x \<in> set view \<and> bh_hash x = h)) \<and>
     (\<forall>h w. headers (snd (get_block cl h w)) = headers w \<and>
          (\<forall>b. fst (get_block cl h w) = Inr b \<longrightarrow> h \<in> hashes view \<longrightarrow>
             (\<exists>x\<in>set view. bh_hash x = h \<and> compute_block_hash lib b = h \<and>
                prev_blockhash b = bh_prev x \<and> bip34_block_height lib b \<in> {None, Some (bh_height x)})))"

lemma honest_tip:
  "honest_node headers lib view cl \<Longrightarrow> get_tip_hash cl w = (r, w') \<Longrightarrow>
     headers w' = headers w \<and> (\<forall>t. r = Inr t \<longrightarrow> t = bh_hash (last view))"
  unfolding honest_node_def by (metis fst_conv snd_conv)

lemma good_headers_unique:
  "good_headers hs \<Longrightarrow> x \<in> set hs \<Longrightarrow> y \<in> set hs \<Longrightarrow> bh_hash x = bh_hash y \<Longrightarrow> x = y"
  unfolding good_headers_def by (metis distinct_map inj_onD)

lemma honest_header:
  assumes "honest_node headers lib view cl" and "good_headers view" and "y \<in> set view"
    and "get_block_header cl (bh_hash y) w = (r, w')"
  shows "headers w' = headers w \<and> (\<forall>x. r = Inr x \<longrightarrow> x = y)"
proof -
  have "bh_hash y \<in> hashes view" using assms(3) by (simp add: hashes_def)
  with assms have "headers w' = headers w \<and> (\<forall>x. r = Inr x \<longrightarrow> x \<in> set view \<and> bh_hash x = bh_hash y)"
    unfolding honest_node_def by (metis fst_conv snd_conv)
  with assms(2,3) good_headers_unique show ?thesis by blast
qed

lemma honest_block:
  assumes "honest_node headers lib view cl" and "good_headers view" and "y \<in> set view"
    and "get_block cl (bh_hash y) w = (r, w')"
  shows "headers w' = headers w \<and> (\<forall>b. r = Inr b \<longrightarrow>
     compute_block_hash lib b = bh_hash y \<and> prev_blockhash b = bh_prev y \<and>
     bip34_block_height lib b \<in> {None, Some (bh_height y)})"
proof -
  have h: "bh_hash y \<in> hashes view" using assms(3) by (simp add: hashes_def)
  have "fst (get_block cl (bh_hash y) w) = r" "snd (get_block cl (bh_hash y) w) = w'"
    using assms(4) by simp_all
  with assms(1) h have "headers w' = headers w" "\<forall>b. r = Inr b \<longrightarrow> (\<exists>x\<in>set view. bh_hash x = bh_hash y \<and>
      compute_block_hash lib b = bh_hash y \<and> prev_blockhash b = bh_prev x \<and>
      bip34_block_height lib b \<in> {None, Some (bh_height x)})"
    unfolding honest_node_def by blast+
  with assms(2,3) good_headers_unique show ?thesis by blast
qed


text \<open>Ways in which a loop of the synchronisation may end.\<close>

definition stopped :: "chain_error exn + bool \<Rightarrow> bool" where
  "stopped r \<longleftrightarrow> r = Inr False \<or> (\<exists>e. r = Inl (Err e))"

text \<open>
  Nothing fails from the states in \<open>live\<close>: the token is not cancelled, the node answers for the
  branch \<open>view\<close>, whose blocks carry their height, and the repository's statements succeed.
\<close>

definition answers :: "('w \<Rightarrow> bool) \<Rightarrow> ('e + 'a) \<times> 'w \<Rightarrow> bool" where
  "answers live rw \<longleftrightarrow> \<not> isl (fst rw) \<and> live (snd rw)"

definition live_system ::
    "('w \<Rightarrow> bool) \<Rightarrow> ('w \<Rightarrow> bool) \<Rightarrow> block_header list \<Rightarrow> 'w chain_monitor \<Rightarrow> bool" where
  "live_system live token view cm \<longleftrightarrow>
     (\<forall>w. live w \<longrightarrow> \<not> token w \<and> answers live (get_tip_hash (cm_client cm) w) \<and>
       (\<forall>h\<in>hashes view. answers live (get_block_header (cm_client cm) h w) \<and>
          answers live (get_block (cm_client cm) h w) \<and>
          (\<forall>b. fst (get_block (cm_client cm) h w) = Inr b \<longrightarrow>
             bip34_block_height (cm_lib cm) b \<noteq> None)) \<and>
       (\<forall>as. answers live (filter_watch_addresses (cm_repository cm) as w)) \<and>
       (\<forall>b os is. answers live (add_block (cm_repository cm) b os is w)) \<and>
       (\<forall>h. answers live (undo_block (cm_repository cm) h w)))"

lemma live_systemD:
  assumes "live_system live token view cm" and "live w"
  shows "\<not> token w"
    and "get_tip_hash (cm_client cm) w = (rt, w') \<Longrightarrow> \<not> isl rt \<and> live w'"
    and "y \<in> set view \<Longrightarrow> get_block_header (cm_client cm) (bh_hash y) w = (rh, w') \<Longrightarrow>
       \<not> isl rh \<and> live w'"
    and "y \<in> set view \<Longrightarrow> get_block (cm_client cm) (bh_hash y) w = (rb, w') \<Longrightarrow>
       \<not> isl rb \<and> live w' \<and> (\<forall>b. rb = Inr b \<longrightarrow> bip34_block_height (cm_lib cm) b \<noteq> None)"
    and "filter_watch_addresses (cm_repository cm) as w = (rf, w') \<Longrightarrow> \<not> isl rf \<and> live w'"
    and "add_block (cm_repository cm) b os is w = (ra, w') \<Longrightarrow> \<not> isl ra \<and> live w'"
    and "undo_block (cm_repository cm) h w = (ru, w') \<Longrightarrow> \<not> isl ru \<and> live w'"
  using assms unfolding live_system_def answers_def hashes_def
  by (force, (metis fst_conv snd_conv image_eqI)+)

lemma process_block_live:
  assumes live: "live_system live token view cm" "live w"
    and "bip34_block_height (cm_lib cm) blk \<noteq> None" and run: "process_block cm blk w = (r, w')"
  shows "r = Inr () \<and> live w'"
proof -
  obtain h where h: "bip34_block_height (cm_lib cm) blk = Some h" using assms(3) by auto
  define sc where "sc = scan_block (cm_lib cm) (cm_network cm) blk"
  obtain r0 w0 where f: "filter_watch_addresses (cm_repository cm) (sc_addresses sc) w = (r0, w0)"
    by fastforce
  from live_systemD(5) [OF live f] obtain as where as: "r0 = Inr as" "live w0" by (cases r0) auto
  obtain ra wa where a: "add_block (cm_repository cm)
      \<lparr>bh_hash = compute_block_hash (cm_lib cm) blk, bh_height = h, bh_prev = prev_blockhash blk\<rparr>
      (watch_utxos (compute_block_hash (cm_lib cm) blk) h (sc_address_utxos sc) as)
      (sc_spent_txos sc) w0 = (ra, wa)" by fastforce
  from live_systemD(6) [OF live(1) as(2) a] obtain u where u: "ra = Inr u" "live wa" by (cases ra) auto
  from run f as a u h show ?thesis
    by (auto simp: process_block_def Let_def of_option_def seq_def map_err_def simp flip: sc_def)
qed

lemma catch_up_store:
  assumes good: "good_headers (b # new)" and sep: "hashes new \<inter> hashes (pre @ b # post) = {}"
    and node: "honest_node headers (cm_lib cm) view (cm_client cm)" "good_headers view"
      "set (b # new) \<subseteq> set view"
    and "b # new = xs @ ys" and "ys \<noteq> []" and "length xs < n"
    and "catch_up n cm token (chain_of (pre @ b # post)) (hd ys) (chain_of ys) w = (r, w')"
  shows "headers w' = headers w \<and>
    (r = Inr None \<or> r = Inr (Some (chain_of (b # new))) \<or> (\<exists>e. r = Inl (Err e)))"
  using assms(6-)
proof (induction xs arbitrary: ys w n rule: rev_induct)
  case Nil
  then obtain m where n: "n = Suc m" by (cases n) auto
  from Nil have "ys = b # new" by simp
  with Nil n show ?case by (auto split: if_splits)
next
  case (snoc x xs)
  then obtain m where n: "n = Suc m" "length xs < m" by (cases n) auto
  obtain y ys' where ys: "ys = y # ys'" using snoc.prems(2) by (cases ys) auto
  have gx: "good_headers (xs @ [x] @ ys)" using good snoc.prems(1) by simp
  then have gys: "good_headers ys" and prev: "bh_prev y = bh_hash x"
    using good_headers_append [of "xs @ [x]" ys] snoc.prems(2) ys by auto
  have "y \<in> set new" using snoc.prems(1) ys by (cases xs) auto
  then have "bh_hash y \<in> hashes new" by (simp add: hashes_def)
  then have y: "bh_hash y \<notin> hashes (pre @ b # post)" using sep by blast
  have "x \<in> set (b # new)" using snoc.prems(1) by auto
  then have x: "x \<in> set view" using node(3) by auto
  obtain rg wg where g: "get_block_header (cm_client cm) (bh_hash x) w = (rg, wg)" by fastforce
  note hg = honest_header [OF node(1,2) x g]
  show ?case
  proof (cases "token w \<or> isl rg")
    case True
    with snoc.prems(4) n ys y g hg prev show ?thesis
      by (auto simp: seq_def map_err_def isl_def split: if_splits)
  next
    case False
    with hg have rg: "rg = Inr x" "headers wg = headers w" by (cases rg; auto)+
    have "chain_prepend x (chain_of ys) = (Inr (), chain_of (x # ys))"
      using gys prev by (simp add: chain_prepend_chain_of ys)
    with snoc.prems(4) n ys y g rg prev False
    have run: "catch_up m cm token (chain_of (pre @ b # post)) (hd (x # ys)) (chain_of (x # ys)) wg = (r, w')"
      by (simp add: seq_def map_err_def)
    have "b # new = xs @ x # ys" using snoc.prems(1) by simp
    from snoc.IH [OF this _ n(2) run] rg show ?thesis by simp
  qed
qed

lemma undo_blocks_live:
  assumes live: "live_system live token view cm" "live w"
    and "undo_blocks n cm token old new_chain cur w = (r, w')"
  shows "live w' \<and> \<not> stopped r"
  using assms(2-)
proof (induction n arbitrary: cur w)
  case (Suc n)
  note tok = live_systemD(1) [OF live(1) Suc.prems(1)]
  show ?case
  proof (cases "bwd_next old cur")
    case (Inl e)
    then have "e = Panic" by (auto simp: bwd_next_def split: option.splits if_splits)
    with Suc.prems Inl show ?thesis by (auto simp: stopped_def)
  next
    case (Inr x)
    show ?thesis
    proof (cases "x = None \<or> contains_block new_chain (bh_hash (fst (the x)))")
      case True
      with Suc.prems Inr tok show ?thesis by (cases x) (auto simp: stopped_def)
    next
      case False
      then obtain h cur' where x: "x = Some (h, cur')" by auto
      obtain ru wu where u: "undo_block (cm_repository cm) (bh_hash h) w = (ru, wu)" by fastforce
      from live_systemD(7) [OF live(1) Suc.prems(1) u] obtain v where "ru = Inr v" "live wu"
        by (cases ru) auto
      with Suc.prems Inr x u tok False Suc.IH [of wu cur'] show ?thesis
        by (simp add: seq_def map_err_def)
    qed
  qed
qed (auto simp: stopped_def)

lemma process_blocks_live:
  assumes live: "live_system live token view cm" "live w"
    and good: "good_headers (b # new)" and sub: "set (b # new) \<subseteq> set view"
    and "b # new = xs @ ys"
    and "process_blocks n cm token (chain_of (b # new)) (cursor (b # new) ys) w = (r, w')"
  shows "live w' \<and> \<not> stopped r"
  using assms(2,5-)
proof (induction n arbitrary: xs ys w)
  case (Suc n)
  show ?case
  proof (cases ys)
    case Nil
    with Suc.prems show ?thesis by (auto simp: cursor_def fwd_next_def stopped_def)
  next
    case (Cons y ys')
    have nxt: "fwd_next (chain_of (b # new)) (cursor (b # new) (y # ys')) =
        Inr (Some (y, cursor (b # new) ys'))"
      using good fwd_next_chain_of [of xs y ys'] by (simp add: Suc.prems(2) Cons)
    have y: "y \<in> set view" using sub Suc.prems(2) Cons by auto
    obtain rb wb where gb: "get_block (cm_client cm) (bh_hash y) w = (rb, wb)" by fastforce
    from live_systemD(4) [OF live(1) Suc.prems(1) y gb] obtain blk where
      blk: "rb = Inr blk" "live wb" "bip34_block_height (cm_lib cm) blk \<noteq> None" by (cases rb) auto
    obtain rp wp where pb: "process_block cm blk wb = (rp, wp)" by fastforce
    from process_block_live [OF live(1) blk(2,3) pb] have p: "rp = Inr ()" "live wp" by auto
    have "process_blocks n cm token (chain_of (b # new)) (cursor (b # new) ys') wp = (r, w')"
      using Suc.prems(3) Cons nxt gb blk pb p live_systemD(1) [OF live(1) Suc.prems(1)]
      by (simp add: seq_def map_err_def)
    with Suc.IH [of wp "xs @ [y]" ys'] Suc.prems(2) Cons p show ?thesis by simp
  qed
qed (auto simp: stopped_def)

lemma catch_up_live:
  assumes live: "live_system live token view cm" "live w"
    and node: "honest_node headers (cm_lib cm) view (cm_client cm)" "good_headers view"
      "set (b # new) \<subseteq> set view"
    and good: "good_headers (b # new)" and b: "contains_block old (bh_hash b)"
    and "b # new = xs @ ys" and "ys \<noteq> []"
    and "catch_up n cm token old (hd ys) (chain_of ys) w = (r, w')"
  shows "live w' \<and> r \<noteq> Inr None \<and> (\<nexists>e. r = Inl (Err e))"
  using assms(2,8-)
proof (induction n arbitrary: xs ys w)
  case (Suc n)
  note tok = live_systemD(1) [OF live(1) Suc.prems(1)]
  show ?case
  proof (cases "contains_block old (bh_hash (hd ys))")
    case True
    with Suc.prems tok show ?thesis by auto
  next
    case False
    with Suc.prems(2) b have "xs \<noteq> []" by (cases xs) auto
    then obtain xs' x where xs: "xs = xs' @ [x]" by (cases xs rule: rev_cases) auto
    have gys: "good_headers ys" and prev: "bh_prev (hd ys) = bh_hash x"
      using good good_headers_append [of "xs' @ [x]" ys] Suc.prems(2,3) xs by auto
    have x: "x \<in> set view" using node(3) Suc.prems(2) xs by auto
    obtain rg wg where g: "get_block_header (cm_client cm) (bh_hash x) w = (rg, wg)" by fastforce
    from honest_header [OF node(1,2) x g] live_systemD(3) [OF live(1) Suc.prems(1) x g]
    have rg: "rg = Inr x" "live wg" by (cases rg; auto)+
    have "chain_prepend x (chain_of ys) = (Inr (), chain_of (x # ys))"
      using gys prev by (simp add: chain_prepend_chain_of)
    with Suc.prems(4) g rg prev False tok
    have "catch_up n cm token old (hd (x # ys)) (chain_of (x # ys)) wg = (r, w')"
      by (simp add: seq_def map_err_def)
    with Suc.IH [of wg xs' "x # ys"] Suc.prems(2) xs rg show ?thesis by simp
  qed
qed auto

lemma do_sync_live:
  assumes hs: "good_headers (pre @ b # post)" and view: "good_headers (vpre @ b # new)"
    and node: "honest_node headers (cm_lib cm) (vpre @ b # new) (cm_client cm)"
    and sep: "hashes new \<inter> hashes (pre @ b # post) = {}"
    and live: "live_system live token (vpre @ b # new) cm" "live w"
    and fuel: "length post + length new + 2 \<le> fuel"
    and run: "do_sync fuel cm token (chain_of (pre @ b # post)) w = (r, w')"
    and not_stuck: "r \<noteq> Inl Diverged" "r \<noteq> Inl Panic"
  shows "r = Inr (chain_of (pre @ b # new))"
proof -
  let ?hs = "pre @ b # post" and ?new = "chain_of (b # new)" and ?view = "vpre @ b # new"
  define old where "old = chain_of ?hs"
  have gn: "good_headers (b # new)" using view by (rule good_headers_suffix) simp
  have sub: "set (b # new) \<subseteq> set ?view" by auto
  define t where "t = last (b # new)"
  have t: "t \<in> set ?view" "b # new = butlast (b # new) @ [t]"
    using last_in_set [of "b # new"] by (auto simp: t_def simp del: last.simps butlast.simps)
  obtain r1 w1 where s1: "get_tip_hash (cm_client cm) w = (r1, w1)" by fastforce
  from honest_tip [OF node s1] live_systemD(2) [OF live s1]
  have h1: "r1 = Inr (bh_hash t)" "live w1" by (cases r1; auto simp: t_def)+
  obtain r2 w2 where s2: "get_block_header (cm_client cm) (bh_hash t) w1 = (r2, w2)" by fastforce
  from honest_header [OF node view t(1) s2] live_systemD(3) [OF live(1) h1(2) t(1) s2]
  have h2: "r2 = Inr t" "live w2" by (cases r2; auto)+
  obtain r3 w3 where s3: "catch_up fuel cm token old t (chain_new t) w2 = (r3, w3)" by fastforce
  have "contains_block old (bh_hash b)" by (simp add: old_def)
  from catch_up_live [OF live(1) h2(2) node view sub gn this t(2), of fuel r3 w3] s3
  have h3: "live w3" "r3 \<noteq> Inr None" "\<nexists>e. r3 = Inl (Err e)" by (auto simp: chain_new_chain_of)
  from catch_up_store [OF gn sep node view sub t(2), of fuel token w2 r3 w3] s3 h3 fuel
  have i3: "r3 = Inr (Some ?new)" by (auto simp: old_def chain_new_chain_of)
  define undo where "undo = (if chain_base ?new \<noteq> chain_tip old
      then seq (lift_res (bwd_new old)) (undo_blocks fuel cm token old ?new) else ret True)"
  obtain r4 w4 where s4: "undo w3 = (r4, w4)" by fastforce
  have h4: "live w4" "\<not> stopped r4"
    using s4 h3(1) undo_blocks_live [OF live(1) h3(1)]
    by (auto simp: undo_def seq_def old_def bwd_new_chain_of [OF hs] stopped_def split: if_splits)
  have rt: "chain_retip fuel ?new old = (Inr (), chain_of (pre @ b # new))"
    unfolding old_def using hs gn sep fuel by (intro chain_retip_chain_of) (auto simp: hashes_def)
  have run4: "seq undo (\<lambda>undone. if \<not> undone then ret old
       else seq (lift_res (fwd_new ?new)) (\<lambda>first.
            seq (process_blocks fuel cm token ?new first) (\<lambda>processed.
            if \<not> processed then ret old
            else (case chain_retip fuel ?new old of
               (Inl e, _) \<Rightarrow> fail e
             | (Inr _, chain) \<Rightarrow> ret chain)))) w3 = (r, w')"
    using run [unfolded do_sync_def, folded old_def] s1 h1 s2 h2 s3 i3 gn hs
    by (simp add: seq_def map_err_def undo_def old_def)
  obtain r5 w5 where s5: "process_blocks fuel cm token ?new (cursor (b # new) (b # new)) w4 = (r5, w5)"
    by fastforce
  have h5: "\<not> stopped r5" using process_blocks_live [OF live(1) h4(1) gn sub _ s5, of "[]"] by simp
  show ?thesis
    using run4 s4 h4 s5 h5 not_stuck
    by (cases r4; cases r5; auto simp: seq_def fwd_new_chain_of [OF gn] rt stopped_def
        split: if_splits; metis exn.exhaust)
qed

context header_store
begin

lemma process_block_store:
  assumes pb: "process_block cm blk w = (r, w')" and repo: "cm_repository cm = repo"
    and blk: "compute_block_hash (cm_lib cm) blk = bh_hash y" "prev_blockhash blk = bh_prev y"
      "bip34_block_height (cm_lib cm) blk \<in> {None, Some (bh_height y)}"
  shows "(\<exists>e. r = Inl e) \<and> headers w' = headers w \<or>
    (\<exists>w0 os is u. r = Inr () \<and> headers w0 = headers w \<and> add_block repo y os is w0 = (Inr u, w'))"
proof (cases "bip34_block_height (cm_lib cm) blk")
  case None
  with pb show ?thesis by (auto simp: process_block_def Let_def of_option_def seq_def)
next
  case (Some h)
  then have h: "h = bh_height y" using blk(3) by simp
  define sc where "sc = scan_block (cm_lib cm) (cm_network cm) blk"
  obtain r0 w0 where f: "filter_watch_addresses repo (sc_addresses sc) w = (r0, w0)" by fastforce
  then have w0: "headers w0 = headers w" using filter_keeps [of "sc_addresses sc" w] by simp
  show ?thesis
  proof (cases r0)
    case (Inl e)
    with pb f w0 Some show ?thesis
      by (auto simp: process_block_def Let_def of_option_def seq_def repo sc_def map_err_def)
  next
    case (Inr as)
    obtain ra wa where a: "add_block repo y (watch_utxos (bh_hash y) h (sc_address_utxos sc) as)
        (sc_spent_txos sc) w0 = (ra, wa)" by fastforce
    have y: "\<lparr>bh_hash = bh_hash y, bh_height = h, bh_prev = bh_prev y\<rparr> = y" by (simp add: h)
    show ?thesis
    proof (cases ra)
      case (Inl e)
      with pb f Inr a Some w0 add_block_err [of y _ _ w0 e wa] show ?thesis
        by (auto simp: process_block_def Let_def of_option_def seq_def repo blk y
            map_err_def simp flip: sc_def)
    next
      case (Inr u)
      with pb f \<open>r0 = Inr as\<close> a Some w0 show ?thesis
        by (auto simp: process_block_def Let_def of_option_def seq_def repo blk y
            map_err_def simp flip: sc_def)
    qed
  qed
qed

lemma undo_blocks_store:
  assumes hs: "good_headers (pre @ b # post)"
    and sep: "hashes new \<inter> hashes (pre @ b # post) = {}"
    and repo: "cm_repository cm = repo"
    and "post = zs @ ds" and "headers w = set (pre @ b # zs)" and "length zs < n"
    and "undo_blocks n cm token (chain_of (pre @ b # post)) (chain_of (b # new))
           (cursor_back (pre @ b # post) (pre @ b # zs)) w = (r, w')"
  shows "r = Inr True \<and> headers w' = set (pre @ [b]) \<or>
     stopped r \<and> (\<exists>zs ds. post = zs @ ds \<and> headers w' = set (pre @ b # zs))"
  using assms(4-)
proof (induction zs arbitrary: ds w n rule: rev_induct)
  case Nil
  then obtain m where n: "n = Suc m" by (cases n) auto
  have "bwd_next (chain_of (pre @ b # post)) (cursor_back (pre @ b # post) (pre @ [b])) =
      Inr (Some (b, cursor_back (pre @ b # post) pre))"
    using hs by (rule bwd_next_chain_of)
  with Nil n have "r = Inr True \<and> headers w' = set (pre @ [b]) \<or> stopped r \<and> headers w' = set (pre @ b # [])"
    by (auto simp: stopped_def split: if_splits)
  then show ?case by (metis append_Nil)
next
  case (snoc z zs)
  then obtain m where n: "n = Suc m" "length zs < m" by (cases n) auto
  let ?hs = "pre @ b # post"
  have nxt: "bwd_next (chain_of ?hs) (cursor_back ?hs (pre @ b # zs @ [z])) =
      Inr (Some (z, cursor_back ?hs (pre @ b # zs)))"
    using bwd_next_chain_of [of "pre @ b # zs" z ds] hs snoc.prems(1) by simp
  have z: "bh_hash z \<notin> hashes (b # new)"
    using hs sep snoc.prems(1) by (auto simp: good_headers_def hashes_def)
  have g: "good_headers ((pre @ b # zs) @ [z])"
    using good_headers_prefix [of "pre @ b # zs" z ds] hs snoc.prems(1) by simp
  obtain ru wu where u: "undo_block repo (bh_hash z) w = (ru, wu)" by fastforce
  show ?case
  proof (cases "token w")
    case True
    with snoc.prems(4) n nxt have "r = Inr False" "w' = w" by simp_all
    with snoc.prems(1,2) show ?thesis unfolding stopped_def by blast
  next
    case False
    show ?thesis
    proof (cases ru)
      case (Inl e)
      with snoc.prems(4) n nxt z u False have "r = Inl (Err (Database e))" "w' = wu"
        by (simp_all add: repo seq_def map_err_def)
      with undo_block_err [OF u [unfolded Inl]] snoc.prems(1,2) show ?thesis
        unfolding stopped_def by metis
    next
      case (Inr x)
      have h: "headers wu = set (pre @ b # zs)"
      proof (rule undo_last)
        show "undo_block repo (bh_hash z) w = (Inr x, wu)" using u Inr by simp
        show "headers w = set ((pre @ b # zs) @ [z])" using snoc.prems(2) by simp
      qed (rule g)
      have run: "undo_blocks m cm token (chain_of ?hs) (chain_of (b # new))
          (cursor_back ?hs (pre @ b # zs)) wu = (r, w')"
        using snoc.prems(4) n nxt z u Inr False by (simp add: repo seq_def map_err_def)
      have "post = zs @ z # ds" using snoc.prems(1) by simp
      from snoc.IH [OF this h n(2) run] show ?thesis .
    qed
  qed
qed

lemma process_blocks_store:
  assumes whole: "good_headers (pre @ b # new)"
    and node: "honest_node headers (cm_lib cm) view (cm_client cm)" "good_headers view"
      "set (b # new) \<subseteq> set view"
    and repo: "cm_repository cm = repo"
    and "b # new = xs @ ys" and "headers w = set (pre @ (if xs = [] then [b] else xs))"
    and "length ys < n"
    and "process_blocks n cm token (chain_of (b # new)) (cursor (b # new) ys) w = (r, w')"
  shows "r = Inr True \<and> headers w' = set (pre @ b # new) \<or>
     stopped r \<and> (\<exists>ns ds. new = ns @ ds \<and> headers w' = set (pre @ b # ns))"
  using assms(6-)
proof (induction ys arbitrary: xs w n)
  case Nil
  then obtain m where n: "n = Suc m" by (cases n) auto
  from Nil show ?case by (auto simp: n cursor_def fwd_next_def)
next
  case (Cons y ys)
  then obtain m where n: "n = Suc m" "length ys < m" by (cases n) auto
  have good: "good_headers (b # new)" using whole good_headers_suffix [of pre] by auto
  then have nxt: "fwd_next (chain_of (b # new)) (cursor (b # new) (y # ys)) =
      Inr (Some (y, cursor (b # new) ys))"
    using fwd_next_chain_of [of xs y ys] by (simp add: Cons.prems(1))
  have y: "y \<in> set view" using node(3) Cons.prems(1) by auto
  define st where "st = (if xs = [] then [b] else xs)"
  have st: "headers w = set (pre @ st)" "\<exists>ns ds. new = ns @ ds \<and> set (pre @ st) = set (pre @ b # ns)"
  proof -
    show "headers w = set (pre @ st)" using Cons.prems(2) by (simp add: st_def)
    show "\<exists>ns ds. new = ns @ ds \<and> set (pre @ st) = set (pre @ b # ns)"
    proof (cases xs)
      case Nil
      then show ?thesis by (intro exI [of _ "[]"] exI [of _ new]) (simp add: st_def)
    next
      case (Cons x xs')
      with Cons.prems(1) show ?thesis
        by (intro exI [of _ xs'] exI [of _ "y # ys"]) (simp add: st_def)
    qed
  qed
  obtain rb wb where gb: "get_block (cm_client cm) (bh_hash y) w = (rb, wb)" by fastforce
  note hb = honest_block [OF node(1,2) y gb]
  obtain rp wp where pb: "process_block cm (projr rb) wb = (rp, wp)" by fastforce
  show ?case
  proof (cases "token w \<or> isl rb \<or> (\<exists>e. rp = Inl e)")
    case True
    have "stopped r \<and> headers w' = headers w"
    proof (cases "token w \<or> isl rb")
      case True
      with Cons.prems(4) n nxt gb hb show ?thesis
        by (auto simp: stopped_def seq_def map_err_def isl_def split: if_splits)
    next
      case False
      then obtain blk where blk: "rb = Inr blk" by (cases rb) auto
      with hb process_block_store [OF pb repo, of y]
      have "headers wp = headers w" using True False by auto
      with Cons.prems(4) n nxt gb hb True False blk pb show ?thesis
        by (auto simp: stopped_def seq_def map_err_def split: if_splits)
    qed
    with st show ?thesis by auto
  next
    case False
    then obtain blk where blk: "rb = Inr blk" and "\<nexists>e. rp = Inl e" by (cases rb) auto
    with hb process_block_store [OF pb repo, of y] obtain w0 os "is" u where
      ab: "rp = Inr ()" "headers w0 = headers w" "add_block repo y os is w0 = (Inr u, wp)" by auto
    have "headers wp = set (pre @ xs @ [y])"
    proof (cases "xs = []")
      case True
      with Cons.prems ab add_present [OF ab(3), of "pre @ [b]"] show ?thesis by simp
    next
      case False
      have "good_headers ((pre @ xs) @ [y])"
        using whole good_headers_prefix [of "pre @ xs" y ys] by (simp add: Cons.prems(1))
      with False Cons.prems ab add_next [OF ab(3), of "pre @ xs"] show ?thesis by simp
    qed
    moreover have "process_blocks m cm token (chain_of (b # new)) (cursor (b # new) ys) wp = (r, w')"
      using Cons.prems(4) n nxt gb blk pb False ab by (simp add: seq_def map_err_def)
    ultimately show ?thesis
      using Cons.IH [of "xs @ [y]" wp m] Cons.prems(1) n by simp
  qed
qed

lemma do_sync_store:
  assumes hs: "good_headers (pre @ b # post)" and view: "good_headers (vpre @ b # new)"
    and sep: "hashes new \<inter> hashes (pre @ b # post) = {}"
    and node: "honest_node headers (cm_lib cm) (vpre @ b # new) (cm_client cm)"
    and repo: "cm_repository cm = repo" and stored: "headers w = set (pre @ b # post)"
    and fuel: "length post + length new + 2 \<le> fuel"
    and run: "do_sync fuel cm token (chain_of (pre @ b # post)) w = (r, w')"
  shows "r = Inr (chain_of (pre @ b # new)) \<and> headers w' = set (pre @ b # new) \<or>
     (r = Inr (chain_of (pre @ b # post)) \<or> (\<exists>e. r = Inl (Err e))) \<and>
     ((\<exists>zs ds. post = zs @ ds \<and> headers w' = set (pre @ b # zs)) \<or>
      (\<exists>ns ds. new = ns @ ds \<and> headers w' = set (pre @ b # ns)))"
proof -
  let ?hs = "pre @ b # post" and ?new = "chain_of (b # new)"
  define old where "old = chain_of ?hs"
  have gn: "good_headers (b # new)" using view by (rule good_headers_suffix) simp
  have sub: "set (b # new) \<subseteq> set (vpre @ b # new)" by auto
  have whole: "good_headers (pre @ b # new)"
    by (rule good_headers_switch [OF hs gn refl]) (use sep in \<open>auto simp: hashes_def\<close>)
  have same: "?thesis" if "headers w' = headers w" "r = Inr old \<or> (\<exists>e. r = Inl (Err e))"
    using that stored unfolding old_def by (metis append_Nil2)
  have part: "?thesis" if "r = Inr old \<or> (\<exists>e. r = Inl (Err e))"
     "(\<exists>zs ds. post = zs @ ds \<and> headers w' = set (pre @ b # zs)) \<or>
      (\<exists>ns ds. new = ns @ ds \<and> headers w' = set (pre @ b # ns))"
    using that unfolding old_def by blast
  define t where "t = last (b # new)"
  have t: "t \<in> set (vpre @ b # new)" "b # new = butlast (b # new) @ [t]"
    using last_in_set [of "b # new"] by (auto simp: t_def simp del: last.simps butlast.simps)
  obtain r1 w1 where s1: "get_tip_hash (cm_client cm) w = (r1, w1)" by fastforce
  have h1: "headers w1 = headers w" "\<And>x. r1 = Inr x \<Longrightarrow> x = bh_hash t"
    using honest_tip [OF node s1] by (auto simp: t_def)
  show ?thesis
  proof (cases r1)
    case (Inl e)
    with run s1 h1 show ?thesis by (intro same) (auto simp: do_sync_def seq_def map_err_def)
  next
    case i1: (Inr x1)
    obtain r2 w2 where s2: "get_block_header (cm_client cm) (bh_hash t) w1 = (r2, w2)" by fastforce
    have h2: "headers w2 = headers w" "\<And>x. r2 = Inr x \<Longrightarrow> x = t"
      using honest_header [OF node view t(1) s2] h1 by auto
    show ?thesis
    proof (cases r2)
      case (Inl e)
      with run s1 i1 h1 s2 h2 show ?thesis
        by (intro same) (auto simp: do_sync_def seq_def map_err_def)
    next
      case i2: (Inr x2)
      obtain r3 w3 where s3: "catch_up fuel cm token old t (chain_new t) w2 = (r3, w3)" by fastforce
      have h3: "headers w3 = headers w" "r3 = Inr None \<or> r3 = Inr (Some ?new) \<or> (\<exists>e. r3 = Inl (Err e))"
        using catch_up_store [OF gn sep node view sub t(2), of fuel token w2 r3 w3] s3 h2 fuel
        by (auto simp: old_def chain_new_chain_of)
      note pre_run = run [unfolded do_sync_def, folded old_def] s1 i1 h1 s2 i2 h2 s3
      show ?thesis
      proof (cases "r3 = Inr (Some ?new)")
        case False
        with pre_run h3 show ?thesis by (intro same) (auto simp: seq_def map_err_def)
      next
        case i3: True
        define undo where "undo = (if chain_base ?new \<noteq> chain_tip old
            then seq (lift_res (bwd_new old)) (undo_blocks fuel cm token old ?new) else ret True)"
        obtain r4 w4 where s4: "undo w3 = (r4, w4)" by fastforce
        have bt: "chain_base ?new = Inr b" "chain_tip old = Inr (last ?hs)"
          using gn hs by (simp_all add: old_def)
        have h4: "r4 = Inr True \<and> headers w4 = set (pre @ [b]) \<or>
            stopped r4 \<and> (\<exists>zs ds. post = zs @ ds \<and> headers w4 = set (pre @ b # zs))"
        proof (cases "b = last ?hs")
          case True
          then have "post = []"
            using hs by (cases post rule: rev_cases) (auto simp: good_headers_def)
          with s4 True bt h3 stored show ?thesis by (auto simp: undo_def)
        next
          case False
          with s4 bt have "undo_blocks fuel cm token old ?new (cursor_back ?hs ?hs) w3 = (r4, w4)"
            by (simp add: undo_def seq_def old_def bwd_new_chain_of [OF hs])
          from undo_blocks_store [OF hs sep repo _ _ _ this [unfolded old_def], of "[]"]
          show ?thesis using h3 stored fuel by simp
        qed
        have run4: "seq undo (\<lambda>undone. if \<not> undone then ret old
             else seq (lift_res (fwd_new ?new)) (\<lambda>first.
                  seq (process_blocks fuel cm token ?new first) (\<lambda>processed.
                  if \<not> processed then ret old
                  else (case chain_retip fuel ?new old of
                     (Inl e, _) \<Rightarrow> fail e
                   | (Inr _, chain) \<Rightarrow> ret chain)))) w3 = (r, w')"
          using pre_run i3 bt by (simp add: seq_def map_err_def undo_def)
        show ?thesis
        proof (cases "stopped r4")
          case True
          with run4 s4 h4 show ?thesis by (intro part) (auto simp: stopped_def seq_def)
        next
          case False
          with h4 have i4: "r4 = Inr True" "headers w4 = set (pre @ [b])" by auto
          obtain r5 w5 where s5: "process_blocks fuel cm token ?new (cursor (b # new) (b # new)) w4 = (r5, w5)"
            by fastforce
          have h5: "r5 = Inr True \<and> headers w5 = set (pre @ b # new) \<or>
              stopped r5 \<and> (\<exists>ns ds. new = ns @ ds \<and> headers w5 = set (pre @ b # ns))"
            using process_blocks_store [OF whole node view sub repo _ _ _ s5, of "[]"] i4 fuel by simp
          have rt: "chain_retip fuel ?new old = (Inr (), chain_of (pre @ b # new))"
            unfolding old_def using hs gn sep fuel
            by (intro chain_retip_chain_of) (auto simp: hashes_def)
          show ?thesis
          proof (cases "stopped r5")
            case True
            with run4 s4 i4 h5 s5 show ?thesis
              by (intro part) (auto simp: seq_def fwd_new_chain_of [OF gn] stopped_def)
          next
            case False
            with run4 s4 i4 h5 s5 show ?thesis
              by (auto simp: seq_def fwd_new_chain_of [OF gn] rt)
          qed
        qed
      qed
    qed
  qed
qed

end

section \<open>The monitor over the database and a node\<close>

text \<open>The state of the system: the chain database and the node's own state.\<close>

definition lift_repository :: "'d chain_repository \<Rightarrow> ('d \<times> 'n) chain_repository" where
  "lift_repository r =
     \<lparr>add_block = (\<lambda>b os is. on_fst (add_block r b os is)),
      add_watch_address = (\<lambda>a. on_fst (add_watch_address r a)),
      filter_watch_addresses = (\<lambda>as. on_fst (filter_watch_addresses r as)),
      get_block_headers = on_fst (get_block_headers r),
      get_tip = on_fst (get_tip r),
      get_txos_for_address = (\<lambda>a. on_fst (get_txos_for_address r a)),
      get_txos_for_address_with_spends = (\<lambda>a. on_fst (get_txos_for_address_with_spends r a)),
      get_utxos = on_fst (get_utxos r),
      undo_block = (\<lambda>h. on_fst (undo_block r h))\<rparr>"

definition lift_client :: "'n chain_client \<Rightarrow> ('d \<times> 'n) chain_client" where
  "lift_client c =
     \<lparr>broadcast_tx = (\<lambda>t. on_snd (broadcast_tx c t)),
      get_blockheight = on_snd (get_blockheight c),
      get_tip_hash = on_snd (get_tip_hash c),
      get_block = (\<lambda>h. on_snd (get_block c h)),
      get_block_header = (\<lambda>h. on_snd (get_block_header c h)),
      get_sender_addresses = (\<lambda>ps. on_snd (get_sender_addresses c ps)),
      get_transaction = (\<lambda>t. on_snd (get_transaction c t))\<rparr>"

abbreviation table :: "chain_db pg \<times> 'n \<Rightarrow> block_header set" where
  "table w \<equiv> set (db_blocks (pg_data (fst w)))"

lemma pg_filter_keeps_data:
  "pg_filter_watch_addresses cfg as s = (r, s') \<Longrightarrow> pg_data s' = pg_data s"
  using read_keeps_data [of "\<lambda>rows. lift_res (collect_res (map (parse_addr cfg) rows))" repo_err _ s]
  by (metis lift_res_run pg_filter_watch_addresses_def snd_conv)

lemma block_effect_blocks:
  "db_blocks (block_effect b os is d) =
     (if bh_hash b \<in> bh_hash ` set (db_blocks d) then db_blocks d else db_blocks d @ [b])"
  by (simp add: block_effect_def insert_block_def)

lemma pg_undo_block_cases:
  assumes "pg_undo_block h s = (r, s')"
  shows "pg_data s' = (if isl r then pg_data s else undo_effect h (pg_data s))"
  using assms
  by (cases r) (auto simp: pg_undo_block_def op_iffs undo_effect_def dest: exec_Inl exec_Inr)

interpretation pg_headers: header_store "lift_repository (pg_chain_repository cfg)" table
proof
  fix b os "is" w r w'
  assume "add_block (lift_repository (pg_chain_repository cfg)) b os is w = (Inr r, w')"
  then show "table w' = (if bh_hash b \<in> bh_hash ` table w then table w else insert b (table w))"
    by (auto simp: lift_repository_def pg_chain_repository_def on_fst_eq block_effect_blocks
        dest!: pg_add_block_Inr)
next
  fix b os "is" w e w'
  assume "add_block (lift_repository (pg_chain_repository cfg)) b os is w = (Inl e, w')"
  then show "table w' = table w"
    by (auto simp: lift_repository_def pg_chain_repository_def on_fst_eq dest!: pg_add_block_Inl)
next
  fix h w u w'
  assume "undo_block (lift_repository (pg_chain_repository cfg)) h w = (Inr u, w')"
  then show "table w' = {b \<in> table w. bh_hash b \<noteq> h}"
    by (auto simp: lift_repository_def pg_chain_repository_def on_fst_eq undo_effect_def
        dest!: pg_undo_block_cases)
next
  fix h w e w'
  assume "undo_block (lift_repository (pg_chain_repository cfg)) h w = (Inl e, w')"
  then show "table w' = table w"
    by (auto simp: lift_repository_def pg_chain_repository_def on_fst_eq dest!: pg_undo_block_cases)
next
  fix as w
  show "table (snd (filter_watch_addresses (lift_repository (pg_chain_repository cfg)) as w)) = table w"
    by (auto simp: lift_repository_def pg_chain_repository_def on_fst_def
        dest: pg_filter_keeps_data split: prod.splits)
qed

subsection \<open>What a synchronisation preserves\<close>

definition sync_keeps :: "('w \<Rightarrow> bool) \<Rightarrow> 'w chain_monitor \<Rightarrow> bool" where
  "sync_keeps P cm \<longleftrightarrow>
     keeps P (get_tip_hash (cm_client cm)) \<and> (\<forall>h. keeps P (get_block_header (cm_client cm) h)) \<and>
     (\<forall>h. keeps P (get_block (cm_client cm) h)) \<and>
     (\<forall>as. keeps P (filter_watch_addresses (cm_repository cm) as)) \<and>
     (\<forall>b os is. keeps P (add_block (cm_repository cm) b os is)) \<and>
     (\<forall>h. keeps P (undo_block (cm_repository cm) h))"

lemma keeps_process_block [keeps_intro]: "sync_keeps P cm \<Longrightarrow> keeps P (process_block cm blk)"
  by (auto simp: process_block_def Let_def sync_keeps_def intro!: keeps_intro)

lemma keeps_catch_up [keeps_intro]:
  assumes "\<And>h. keeps P (get_block_header (cm_client cm) h)"
  shows "keeps P (catch_up n cm token old cur new_chain)"
proof (induction n arbitrary: cur new_chain)
  case (Suc n)
  have "keeps P (seq (map_err Err (get_block_header (cm_client cm) (bh_prev cur))) (\<lambda>prev.
      case chain_prepend prev new_chain of (Inl e, _) \<Rightarrow> fail e
      | (Inr _, new_chain') \<Rightarrow> catch_up n cm token old prev new_chain'))"
    using Suc assms by (auto split: prod.split sum.split intro!: keeps_intro)
  then show ?case by (simp add: keeps_def)
qed (simp add: keeps_def)

lemma keeps_undo_blocks [keeps_intro]:
  "sync_keeps P cm \<Longrightarrow> keeps P (undo_blocks n cm token old new_chain cur)"
proof (induction n arbitrary: cur)
  case (Suc n)
  have "keeps P (seq (map_err (Err \<circ> Database) (undo_block (cm_repository cm) h))
      (\<lambda>_. undo_blocks n cm token old new_chain cur'))" for h cur'
    using Suc by (auto simp: sync_keeps_def intro!: keeps_intro)
  then show ?case by (auto simp: keeps_def split: sum.split option.split)
qed (simp add: keeps_def)

lemma keeps_process_blocks [keeps_intro]:
  "sync_keeps P cm \<Longrightarrow> keeps P (process_blocks n cm token new_chain cur)"
proof (induction n arbitrary: cur)
  case (Suc n)
  have "keeps P (seq (map_err Err (get_block (cm_client cm) h)) (\<lambda>blk.
      seq (map_err Err (process_block cm blk)) (\<lambda>_.
      process_blocks n cm token new_chain cur')))" for h cur'
    using Suc by (auto simp: sync_keeps_def intro!: keeps_intro keeps_process_block [OF Suc.prems])
  then show ?case by (auto simp: keeps_def split: sum.split option.split)
qed (simp add: keeps_def)

lemma keeps_do_sync: "sync_keeps P cm \<Longrightarrow> keeps P (do_sync fuel cm token old)"
  unfolding do_sync_def
  by (auto intro!: keeps_intro split: option.split prod.split sum.split) (auto simp: sync_keeps_def)

definition pg_monitor :: "bitcoin_lib \<Rightarrow> network \<Rightarrow> 'n chain_client \<Rightarrow> chain_repo_cfg \<Rightarrow> (chain_db pg \<times> 'n) chain_monitor" where
  "pg_monitor lib net cl cfg =
     \<lparr>cm_network = net, cm_client = lift_client cl,
      cm_repository = lift_repository (pg_chain_repository cfg), cm_poll_interval = 1,
      cm_full_sync_interval = 60 * 60 * 24, cm_lib = lib\<rparr>"

lemma pg_monitor_keeps_inv:
  "sync_keeps (\<lambda>w. chain_db_inv (pg_data (fst w))) (pg_monitor lib net cl cfg)"
proof -
  note call = chain_db_inv_call [where cfg = cfg]
  have "chain_db_inv (pg_data s) \<Longrightarrow> chain_db_inv (pg_data (snd (pg_add_block b os is s)))" for s b os "is"
    using call [of s "AddBlock b os is"] by simp
  moreover have "chain_db_inv (pg_data s) \<Longrightarrow> chain_db_inv (pg_data (snd (pg_undo_block h s)))" for s h
    using call [of s "UndoBlock h"] by simp
  moreover have "chain_db_inv (pg_data s) \<Longrightarrow>
      chain_db_inv (pg_data (snd (pg_filter_watch_addresses cfg as s)))" for s as
    using call [of s "FilterWatchAddresses as"] by simp
  ultimately show ?thesis
    by (auto simp: sync_keeps_def pg_monitor_def lift_client_def lift_repository_def
        pg_chain_repository_def keeps_def on_fst_def on_snd_def split: prod.split)
       (metis snd_conv)+
qed

subsection \<open>Starting from the stored headers\<close>

definition rising :: "block_header list \<Rightarrow> bool" where
  "rising hs \<longleftrightarrow> sorted_wrt (\<lambda>g h. sint (bh_height g) < sint (bh_height h)) hs"

lemma stored_headers:
  assumes inv: "chain_db_inv d" and tab: "set (db_blocks d) = set hs" and "rising hs"
  shows "pg_get_block_headers \<lparr>pg_data = d, pg_faults = []\<rparr> = (Inr (rev hs), \<lparr>pg_data = d, pg_faults = []\<rparr>)"
proof -
  let ?k = "\<lambda>b. - sint (bh_height b)"
  have strict: "sorted_wrt (<) (map ?k (rev hs))"
    using assms(3) by (simp add: rising_def sorted_wrt_map sorted_wrt_rev)
  then have s: "sorted (map ?k (rev hs))" "distinct (map ?k (rev hs))"
    by (simp_all add: strict_sorted_iff)
  then have inj: "inj_on ?k (set hs)" by (simp add: distinct_map)
  have d: "distinct (db_blocks d)" using inv by (auto simp: chain_db_inv_def distinct_map)
  have "sort_key ?k (db_blocks d) = rev hs"
  proof (rule map_sorted_distinct_set_unique)
    show "inj_on ?k (set (sort_key ?k (db_blocks d)) \<union> set (rev hs))" using inj tab by simp
    show "distinct (map ?k (sort_key ?k (db_blocks d)))"
      using inj tab d by (simp add: distinct_map)
  qed (use s tab in simp_all)
  then show ?thesis by (simp add: pg_get_block_headers_def sql_run)
qed

lemma start_chains_stored:
  assumes "chain_db_inv d" and "set (db_blocks d) = set hs" and "rising hs" and "good_headers hs"
  shows "start_chains (pg_monitor lib net cl cfg) (\<lparr>pg_data = d, pg_faults = []\<rparr>, n) =
     (Inr (chain_of hs, chain_new (hd hs)), (\<lparr>pg_data = d, pg_faults = []\<rparr>, n))"
proof -
  have "distinct (map bh_hash (rev hs))" using assms(4) by (simp add: good_headers_def flip: rev_map)
  from try_from_headers [OF this] have "chain_try_from (rev hs) = Inr (chain_of hs)"
    using assms(4) by (simp add: good_headers_def)
  with stored_headers [OF assms(1-3)] show ?thesis
    using assms(4)
    by (simp add: start_chains_def pg_monitor_def lift_repository_def pg_chain_repository_def
        on_fst_def seq_def map_err_def)
qed


definition honest_client :: "bitcoin_lib \<Rightarrow> block_header list \<Rightarrow> 'n chain_client \<Rightarrow> bool" where
  "honest_client lib view cl \<longleftrightarrow> honest_node (\<lambda>_. {}) lib view cl"

lemma honest_lift:
  "honest_client lib view cl \<Longrightarrow> honest_node table lib view (lift_client cl)"
  by (simp add: honest_client_def honest_node_def lift_client_def on_snd_def case_prod_beta)

text \<open>
  A synchronisation starts from a stored branch \<open>pre @ b # post\<close> and a node on the branch
  \<open>vpre @ b # new\<close>, which forks after the block \<open>b\<close>.
\<close>

definition sync_start ::
    "block_header list \<Rightarrow> block_header \<Rightarrow> block_header list \<Rightarrow> block_header list \<Rightarrow>
     block_header list \<Rightarrow> chain_db \<Rightarrow> bool" where
  "sync_start pre b post vpre new d \<longleftrightarrow>
     good_headers (pre @ b # post) \<and> rising (pre @ b # post) \<and>
     good_headers (vpre @ b # new) \<and> rising (vpre @ b # new) \<and>
     hashes new \<inter> hashes (pre @ b # post) = {} \<and>
     chain_db_inv d \<and> set (db_blocks d) = set (pre @ b # post)"

lemma rising_append:
  "rising (xs @ ys) \<longleftrightarrow> rising xs \<and> rising ys \<and>
     (\<forall>x\<in>set xs. \<forall>y\<in>set ys. sint (bh_height x) < sint (bh_height y))"
  by (simp add: rising_def sorted_wrt_append)

lemma rising_switch:
  assumes "rising (pre @ b # post)" and "rising (vpre @ b # new)" shows "rising (pre @ b # new)"
proof -
  have "rising (b # new)" "rising pre" "\<forall>x\<in>set pre. sint (bh_height x) < sint (bh_height b)"
    using assms by (simp_all add: rising_append)
  then show ?thesis by (fastforce simp: rising_def sorted_wrt_append)
qed

lemma good_rising_prefix:
  "good_headers (pre @ b # xs @ ys) \<Longrightarrow> rising (pre @ b # xs @ ys) \<Longrightarrow>
     good_headers (pre @ b # xs) \<and> rising (pre @ b # xs)"
  using good_headers_append [of "pre @ b # xs" ys] rising_append [of "pre @ b # xs" ys]
  by (auto split: if_splits)

lemma same_chain_no_switch:
  assumes "good_headers (pre @ b # post)" and "hashes new \<inter> hashes (pre @ b # post) = {}"
    and "chain_of (pre @ b # new) = chain_of (pre @ b # post)"
  shows "new = []" and "post = []"
proof -
  have h: "hashes (pre @ b # new) = hashes (pre @ b # post)"
    using arg_cong [OF assms(3), of "\<lambda>c. dom (ch_blocks c)"] by simp
  have "hashes new \<subseteq> hashes (pre @ b # post)" unfolding h [symmetric] by auto
  with assms(2) have "hashes new = {}" by blast
  then show new: "new = []" by (auto simp: hashes_def)
  have "hashes post \<subseteq> hashes (pre @ [b])" using h by (auto simp: new)
  moreover have "hashes post \<inter> hashes (pre @ [b]) = {}"
    using assms(1) by (auto simp: good_headers_def hashes_def)
  ultimately have "hashes post = {}" by blast
  then show "post = []" by (auto simp: hashes_def)
qed

lemma pg_sync_outcome:
  assumes start: "sync_start pre b post vpre new (pg_data s)"
    and node: "honest_client lib (vpre @ b # new) cl"
    and fuel: "length post + length new + 2 \<le> fuel"
    and run: "do_sync fuel (pg_monitor lib net cl cfg) token (chain_of (pre @ b # post)) (s, n) = (r, w')"
  obtains hs where "good_headers hs" "rising hs" "hd hs = hd (pre @ [b])" "table w' = set hs"
    "chain_db_inv (pg_data (fst w'))"
    "r = Inr (chain_of hs) \<and> hs = pre @ b # new \<or> r = Inr (chain_of (pre @ b # post)) \<or>
     (\<exists>e. r = Inl (Err e))"
proof -
  note st = start [unfolded sync_start_def]
  have gn: "good_headers (pre @ b # new)"
    by (rule good_headers_switch [of pre b post b new])
       (use st good_headers_suffix [of vpre "b # new"] in \<open>auto simp: hashes_def\<close>)
  have rn: "rising (pre @ b # new)" using st rising_switch by blast
  have inv: "chain_db_inv (pg_data (fst w'))"
    using keepsD [OF keeps_do_sync [OF pg_monitor_keeps_inv] _ run] st by simp
  have hd: "hd (pre @ b # xs) = hd (pre @ [b])" for xs by (simp add: hd_append)
  have "r = Inr (chain_of (pre @ b # new)) \<and> table w' = set (pre @ b # new) \<or>
     (r = Inr (chain_of (pre @ b # post)) \<or> (\<exists>e. r = Inl (Err e))) \<and>
     ((\<exists>zs ds. post = zs @ ds \<and> table w' = set (pre @ b # zs)) \<or>
      (\<exists>ns ds. new = ns @ ds \<and> table w' = set (pre @ b # ns)))"
    using st honest_lift [OF node] fuel
    by (intro pg_headers.do_sync_store [OF _ _ _ _ _ _ _ run]) (simp_all add: pg_monitor_def)
  then consider "r = Inr (chain_of (pre @ b # new))" "table w' = set (pre @ b # new)"
    | zs ds where "r = Inr (chain_of (pre @ b # post)) \<or> (\<exists>e. r = Inl (Err e))"
        "post = zs @ ds" "table w' = set (pre @ b # zs)"
    | ns ds where "r = Inr (chain_of (pre @ b # post)) \<or> (\<exists>e. r = Inl (Err e))"
        "new = ns @ ds" "table w' = set (pre @ b # ns)"
    by blast
  then show thesis
  proof cases
    case 1
    with gn rn inv hd show thesis by (intro that [of "pre @ b # new"]) auto
  next
    case 2
    with st good_rising_prefix [of pre b zs ds] inv hd show thesis
      by (intro that [of "pre @ b # zs"]) auto
  next
    case 3
    with gn rn good_rising_prefix [of pre b ns ds] inv hd show thesis
      by (intro that [of "pre @ b # ns"]) auto
  qed
qed

text \<open>C16: whatever interrupts a synchronisation with a node on another branch (a failing
  statement, a failing call of the node, the cancellation, a rejected block), it neither panics
  nor runs out of fuel, and the block table it leaves behind is a linked chain from the same
  birthday block: a restart rebuilds the in-memory chain from it without an error. When the
  synchronisation completes, that chain is the node's branch joined at the fork.\<close>

theorem sync_interrupted_restarts:
  assumes "sync_start pre b post vpre new (pg_data s)"
    and "honest_client lib (vpre @ b # new) cl"
    and "length post + length new + 2 \<le> fuel"
  shows "(case do_sync fuel (pg_monitor lib net cl cfg) token (chain_of (pre @ b # post)) (s, n) of
     (r, w') \<Rightarrow> \<exists>hs. good_headers hs \<and> hd hs = hd (pre @ [b]) \<and>
       fst (start_chains (pg_monitor lib net cl cfg)
              (\<lparr>pg_data = pg_data (fst w'), pg_faults = []\<rparr>, snd w')) =
         Inr (chain_of hs, chain_new (hd hs)) \<and>
       (r = Inr (chain_of hs) \<and> hs = pre @ b # new \<or> r = Inr (chain_of (pre @ b # post)) \<or>
        (\<exists>e. r = Inl (Err e))))"
proof -
  obtain r w' where run: "do_sync fuel (pg_monitor lib net cl cfg) token (chain_of (pre @ b # post))
      (s, n) = (r, w')" by (rule prod.exhaust)
  from pg_sync_outcome [OF assms run] obtain hs where hs: "good_headers hs" "rising hs"
      "hd hs = hd (pre @ [b])" "table w' = set hs" "chain_db_inv (pg_data (fst w'))"
      "r = Inr (chain_of hs) \<and> hs = pre @ b # new \<or> r = Inr (chain_of (pre @ b # post)) \<or>
       (\<exists>e. r = Inl (Err e))" .
  from start_chains_stored [OF hs(5,4,2,1), of lib net cl cfg "snd w'"] hs(1,3,6) show ?thesis
    unfolding run prod.case by (intro exI [of _ hs]) simp
qed

text \<open>
  A run in which nothing fails: the node answers for the branch and its blocks carry their height,
  no statement fails, and every stored address can be read back.
\<close>

definition answering_client :: "bitcoin_lib \<Rightarrow> block_header list \<Rightarrow> 'n chain_client \<Rightarrow> bool" where
  "answering_client lib view cl \<longleftrightarrow>
     (\<forall>n. \<not> isl (fst (get_tip_hash cl n)) \<and>
       (\<forall>h\<in>hashes view. \<not> isl (fst (get_block_header cl h n)) \<and> \<not> isl (fst (get_block cl h n)) \<and>
          (\<forall>b. fst (get_block cl h n) = Inr b \<longrightarrow> bip34_block_height lib b \<noteq> None)))"

definition readable :: "chain_repo_cfg \<Rightarrow> chain_db \<Rightarrow> bool" where
  "readable cfg d \<longleftrightarrow> list_all (\<lambda>a. parse_address (cr_lib cfg) (cr_network cfg) a \<noteq> None) (db_watch d)"

lemma collect_parse:
  assumes "\<And>a. a \<in> set as \<Longrightarrow> parse_address (cr_lib cfg) (cr_network cfg) a \<noteq> None"
  shows "\<not> isl (collect_res (map (parse_addr cfg) as))"
  using assms
  by (induction as) (auto simp: parse_addr_def of_option_def split: option.splits sum.splits)

lemma pg_live:
  assumes "answering_client lib view cl"
  shows "live_system (\<lambda>w. pg_faults (fst w) = [] \<and> readable cfg (pg_data (fst w)))
           (\<lambda>_. False) view (pg_monitor lib net cl cfg)"
proof -
  have f: "\<not> isl (fst (pg_filter_watch_addresses cfg as s)) \<and> snd (pg_filter_watch_addresses cfg as s) = s"
    if "pg_faults s = []" "readable cfg (pg_data s)" for as s
    using that collect_parse [of "filter (\<lambda>a. a \<in> set as) (db_watch (pg_data s))" cfg]
    by (simp add: pg_filter_watch_addresses_def sql_run seq_def map_err_def readable_def list_all_iff)
  have "db_watch (block_effect b os is d) = db_watch d" for b os "is" d
    by (simp add: block_effect_def)
  moreover have "pg_faults s = [] \<Longrightarrow> pg_undo_block h s = (Inr (), s\<lparr>pg_data := undo_effect h (pg_data s)\<rparr>)"
    for h s by (simp add: pg_undo_block_def sql_run undo_effect_def)
  moreover have "db_watch (undo_effect h d) = db_watch d" for h d by (simp add: undo_effect_def)
  ultimately show ?thesis
    using f assms unfolding answering_client_def
    by (auto simp: live_system_def answers_def pg_monitor_def lift_client_def lift_repository_def
        pg_chain_repository_def on_fst_def on_snd_def pg_add_block_no_fault readable_def case_prod_beta)
qed

lemma pg_sync_completes:
  assumes "sync_start pre b post vpre new (pg_data s)" and "pg_faults s = []" and "readable cfg (pg_data s)"
    and "honest_client lib (vpre @ b # new) cl" and "answering_client lib (vpre @ b # new) cl"
    and "length post + length new + 2 \<le> fuel"
    and run: "do_sync fuel (pg_monitor lib net cl cfg) (\<lambda>_. False) (chain_of (pre @ b # post)) (s, n) = (r, w')"
  shows "r = Inr (chain_of (pre @ b # new)) \<and> table w' = set (pre @ b # new) \<and> good_headers (pre @ b # new)"
proof -
  note st = assms(1) [unfolded sync_start_def]
  have g: "good_headers (pre @ b # new)"
    by (rule good_headers_switch [of pre b post b new])
       (use st good_headers_suffix [of vpre "b # new"] in \<open>auto simp: hashes_def\<close>)
  from pg_sync_outcome [OF assms(1,4,6) run] have ne: "r \<noteq> Inl Diverged" "r \<noteq> Inl Panic" by auto
  have r: "r = Inr (chain_of (pre @ b # new))"
  proof (rule do_sync_live [OF _ _ _ _ pg_live [OF assms(5)] _ assms(6) run ne])
    show "honest_node table (cm_lib (pg_monitor lib net cl cfg)) (vpre @ b # new)
        (cm_client (pg_monitor lib net cl cfg))"
      using honest_lift [OF assms(4)] by (simp add: pg_monitor_def)
  qed (use st assms(2,3) in simp_all)
  moreover have "table w' = set (pre @ b # new)"
  proof -
    have out: "r = Inr (chain_of (pre @ b # new)) \<and> table w' = set (pre @ b # new) \<or>
       (r = Inr (chain_of (pre @ b # post)) \<or> (\<exists>e. r = Inl (Err e))) \<and>
       ((\<exists>zs ds. post = zs @ ds \<and> table w' = set (pre @ b # zs)) \<or>
        (\<exists>ns ds. new = ns @ ds \<and> table w' = set (pre @ b # ns)))"
    proof (rule pg_headers.do_sync_store [OF _ _ _ _ _ _ assms(6) run])
      show "honest_node table (cm_lib (pg_monitor lib net cl cfg)) (vpre @ b # new)
          (cm_client (pg_monitor lib net cl cfg))"
        using honest_lift [OF assms(4)] by (simp add: pg_monitor_def)
      show "cm_repository (pg_monitor lib net cl cfg) = lift_repository (pg_chain_repository cfg)"
        by (simp add: pg_monitor_def)
    qed (use st in simp_all)
    show ?thesis
    proof (cases "chain_of (pre @ b # new) = chain_of (pre @ b # post)")
      case True
      with same_chain_no_switch [of pre b post new] st have "new = []" "post = []" by blast+
      with out show ?thesis by auto
    next
      case False
      with out r show ?thesis by simp
    qed
  qed
  ultimately show ?thesis using g by simp
qed

text \<open>C15: when no statement and no call fails and the token is not cancelled, a synchronisation
  returns, with the node's branch joined at the fork as the in-memory chain, the same chain in the
  block table, every abandoned block undone and its tip the node's tip.\<close>

theorem sync_reaches_tip:
  assumes "sync_start pre b post vpre new (pg_data s)" and "pg_faults s = []" and "readable cfg (pg_data s)"
    and "honest_client lib (vpre @ b # new) cl" and "answering_client lib (vpre @ b # new) cl"
    and "length post + length new + 2 \<le> fuel"
  shows "(case do_sync fuel (pg_monitor lib net cl cfg) (\<lambda>_. False) (chain_of (pre @ b # post)) (s, n) of
     (r, w') \<Rightarrow> r = Inr (chain_of (pre @ b # new)) \<and>
       set (db_blocks (pg_data (fst w'))) = set (pre @ b # new) \<and>
       chain_tip (chain_of (pre @ b # new)) = Inr (last (vpre @ b # new)))"
proof -
  obtain r w' where run: "do_sync fuel (pg_monitor lib net cl cfg) (\<lambda>_. False) (chain_of (pre @ b # post))
      (s, n) = (r, w')" by (rule prod.exhaust)
  from pg_sync_completes [OF assms run] chain_tip_chain_of [of "pre @ b # new"] show ?thesis unfolding run by simp
qed

subsection \<open>A node with a reorganised branch\<close>

text \<open>A node that serves the branch it is given; the rest of a block holds its hash and height.\<close>

definition ex_view :: "block_header list" where
  "ex_view = ex_headers [0, 1, 2, 13, 14]"

definition ex_node :: "unit chain_client" where
  "ex_node =
     \<lparr>broadcast_tx = (\<lambda>_. ret ()), get_blockheight = ret 4, get_tip_hash = ret 14,
      get_block = (\<lambda>h. lift_res (of_option BlockNotFound (map_option
        (\<lambda>x. \<lparr>prev_blockhash = bh_prev x, block_rest = [ucast (bh_hash x), ucast (bh_height x)],
           txdata = []\<rparr>) (find (\<lambda>x. bh_hash x = h) ex_view)))),
      get_block_header = (\<lambda>h. lift_res (of_option BlockNotFound (find (\<lambda>x. bh_hash x = h) ex_view))),
      get_sender_addresses = (\<lambda>_. ret []), get_transaction = (\<lambda>_. fail BlockNotFound)\<rparr>"

definition ex_node_lib :: bitcoin_lib where
  "ex_node_lib = ex_lib\<lparr>compute_block_hash := (\<lambda>b. ucast (hd (block_rest b))),
     bip34_block_height := (\<lambda>b. Some (ucast (last (block_rest b))))\<rparr>"

definition ex_reorg_db :: "chain_db pg" where
  "ex_reorg_db = \<lparr>pg_data = empty_chain_db\<lparr>db_blocks := ex_headers [0, 1, 2, 3]\<rparr>, pg_faults = []\<rparr>"

lemma ex_view_eq:
  "ex_view = ex_headers [0, 1] @ \<lparr>bh_hash = 2, bh_height = 2, bh_prev = 1\<rparr> # ex_headers [2, 13, 14]"
  by (simp add: ex_view_def ex_headers_def)

lemma ex_node_honest: "honest_client ex_node_lib ex_view ex_node"
  by (simp add: honest_client_def honest_node_def ex_node_def ex_node_lib_def ex_view_def ex_headers_def
      of_option_def hashes_def)

lemma ex_node_answers: "answering_client ex_node_lib ex_view ex_node"
  by (simp add: answering_client_def ex_node_def ex_node_lib_def ex_view_def ex_headers_def
      of_option_def hashes_def)

lemma ex_sync_start:
  "sync_start (ex_headers [0, 1]) \<lparr>bh_hash = 2, bh_height = 2, bh_prev = 1\<rparr> (ex_headers [2, 3])
     (ex_headers [0, 1]) (ex_headers [2, 13, 14]) (pg_data ex_reorg_db)"
  by (simp add: sync_start_def ex_headers_def good_headers_def rising_def hashes_def ex_reorg_db_def
      chain_db_inv_def empty_chain_db_def)

lemma sync_interrupted_restarts_witness:
  "\<exists>hs. good_headers hs \<and> fst (start_chains (pg_monitor ex_node_lib ''regtest'' ex_node ex_repo_cfg)
     (\<lparr>pg_data = pg_data (fst (snd (do_sync 9 (pg_monitor ex_node_lib ''regtest'' ex_node ex_repo_cfg)
        (\<lambda>_. False) (chain_of (ex_headers [0, 1, 2, 3])) (ex_reorg_db\<lparr>pg_faults := [False, True]\<rparr>, ())))),
       pg_faults = []\<rparr>, ())) = Inr (chain_of hs, chain_new (hd hs))"
proof -
  have "ex_headers [0, 1] @ \<lparr>bh_hash = 2, bh_height = 2, bh_prev = 1\<rparr> # ex_headers [2, 3] = ex_headers [0, 1, 2, 3]"
    by (simp add: ex_headers_def)
  with sync_interrupted_restarts [of _ _ _ _ _ "ex_reorg_db\<lparr>pg_faults := [False, True]\<rparr>", simplified,
      OF ex_sync_start ex_node_honest [unfolded ex_view_eq],
      of 9 "''regtest''" ex_repo_cfg "\<lambda>_. False" "()"]
  show ?thesis by (auto simp: ex_headers_def split: prod.splits)
qed

lemma sync_reaches_tip_witness:
  "fst (do_sync 9 (pg_monitor ex_node_lib ''regtest'' ex_node ex_repo_cfg)
     (\<lambda>_. False) (chain_of (ex_headers [0, 1, 2, 3])) (ex_reorg_db, ())) =
   Inr (chain_of (ex_headers [0, 1, 2, 13, 14]))"
proof -
  have "ex_headers [0, 1] @ \<lparr>bh_hash = 2, bh_height = 2, bh_prev = 1\<rparr> # ex_headers [2, 3] = ex_headers [0, 1, 2, 3]"
    by (simp add: ex_headers_def)
  with sync_reaches_tip [OF ex_sync_start _ _ ex_node_honest [unfolded ex_view_eq]
      ex_node_answers [unfolded ex_view_eq], of ex_repo_cfg 9 "''regtest''" "()"]
  show ?thesis
    by (auto simp: ex_reorg_db_def empty_chain_db_def readable_def ex_headers_def split: prod.splits)
qed

end
