(* ===== verification/Claim_Repository.thy ===== *)
theory Claim_Repository
  imports Chain_Repository Swap_Types
begin

text \<open>
  The claims and their repository (\<open>claim/repository.rs\<close>, \<open>postgresql/claim_repository.rs\<close>). The
  query for the claims reads the chain tables too, so the database here holds both.

  The consensus encoding of a transaction is a parameter; the claims of equal rank come in the
  order of the table.
\<close>

section \<open>Data and trait\<close>

record claim =
  cl_creation_time :: system_time
  cl_tx :: transaction
  cl_destination :: address
  cl_fee_per_kw :: u32
  cl_auto_bump :: bool

datatype claim_repository_error = ClaimInvalidTimestamp | ClaimRepoGeneral boxed_error

record 'w claim_repository =
  add_claim :: "claim \<Rightarrow> ('w, claim_repository_error, unit) op"
  get_claims :: "outpoint list \<Rightarrow> ('w, claim_repository_error, claim list) op"

section \<open>Tables\<close>

record claim_row =
  clr_tx_id :: txid
  clr_creation_time :: i64
  clr_tx :: bytes
  clr_destination :: address
  clr_fee_per_kw :: i64
  clr_auto_bump :: bool

record claim_input_row =
  ci_claim_tx_id :: txid
  ci_tx_id :: txid
  ci_output_index :: i64

record claim_db =
  cdb_chain :: chain_db
  cdb_claims :: "claim_row list"
  cdb_inputs :: "claim_input_row list"

record claim_repo_cfg =
  cc_lib :: bitcoin_lib
  cc_network :: network
  consensus_encode :: "transaction \<Rightarrow> bytes"
  consensus_decode :: "bytes \<Rightarrow> transaction option"

definition claim_err :: "sqlx_error \<Rightarrow> claim_repository_error" where
  "claim_err e = ClaimRepoGeneral (BoxSqlx e)"

section \<open>Statements\<close>

definition claim_row_of :: "claim_repo_cfg \<Rightarrow> claim \<Rightarrow> i64 \<Rightarrow> claim_row" where
  "claim_row_of cfg c secs =
     \<lparr>clr_tx_id = compute_txid (cc_lib cfg) (cl_tx c), clr_creation_time = secs,
      clr_tx = consensus_encode cfg (cl_tx c), clr_destination = cl_destination c,
      clr_fee_per_kw = ucast (cl_fee_per_kw c), clr_auto_bump = cl_auto_bump c\<rparr>"

definition insert_claim :: "claim_row \<Rightarrow> claim_db \<Rightarrow> sqlx_error + (unit \<times> claim_db)" where
  "insert_claim row d =
     (if clr_tx_id row \<in> clr_tx_id ` set (cdb_claims d) then Inl (SqlxDatabase (Some ''claims_pkey''))
      else Inr ((), d\<lparr>cdb_claims := cdb_claims d @ [row]\<rparr>))"

definition claim_input_rows :: "claim_repo_cfg \<Rightarrow> transaction \<Rightarrow> claim_input_row list" where
  "claim_input_rows cfg tx =
     map (\<lambda>i. \<lparr>ci_claim_tx_id = compute_txid (cc_lib cfg) tx,
              ci_tx_id = op_txid (previous_output i),
              ci_output_index = ucast (op_vout (previous_output i))\<rparr>) (tx_input tx)"

definition insert_claim_inputs :: "claim_input_row list \<Rightarrow> claim_db \<Rightarrow> claim_db" where
  "insert_claim_inputs rows d = d\<lparr>cdb_inputs := cdb_inputs d @ rows\<rparr>"

definition pg_add_claim :: "claim_repo_cfg \<Rightarrow> claim \<Rightarrow> (claim_db pg, claim_repository_error, unit) op" where
  "pg_add_claim cfg c =
     transact claim_err
       (seq (lift_res (of_option (ClaimRepoGeneral (BoxMsg ''time'')) (secs_of_time (cl_creation_time c))))
          (\<lambda>secs.
        seq (map_err claim_err (stmt (insert_claim (claim_row_of cfg c secs)))) (\<lambda>_.
        map_err claim_err (exec (insert_claim_inputs (claim_input_rows cfg (cl_tx c)))))))"

text \<open>
  The inner subquery: the transactions one of whose watched outputs is spent in a block. The query
  compares transaction ids only, and returns a claim if one of its inputs spends another transaction.
\<close>

definition spent_tx_ids :: "claim_db \<Rightarrow> txid set" where
  "spent_tx_ids d = (\<lambda>(r, b). i_tx_id r) ` set (confirmed_inputs (cdb_chain d))"

definition claim_rows :: "claim_db \<Rightarrow> claim_row list" where
  "claim_rows d =
     sort_key (\<lambda>r. - sint (clr_fee_per_kw r))
       (sort_key (\<lambda>r. - sint (clr_creation_time r))
         (filter (\<lambda>r. \<exists>ri\<in>set (cdb_inputs d). ci_claim_tx_id ri = clr_tx_id r \<and> ci_tx_id ri \<notin> spent_tx_ids d)
           (cdb_claims d)))"

definition map_claim :: "claim_repo_cfg \<Rightarrow> claim_row \<Rightarrow> claim_repository_error + claim" where
  "map_claim cfg row =
     bind_res (of_option ClaimInvalidTimestamp (time_of_secs (clr_creation_time row))) (\<lambda>t.
     bind_res (of_option (ClaimRepoGeneral (BoxMsg ''address''))
                (parse_address (cc_lib cfg) (cc_network cfg) (clr_destination row))) (\<lambda>a.
     bind_res (of_option (ClaimRepoGeneral (BoxMsg ''transaction''))
                (consensus_decode cfg (clr_tx row))) (\<lambda>tx.
     Inr \<lparr>cl_creation_time = t, cl_tx = tx, cl_destination = a,
          cl_fee_per_kw = ucast (clr_fee_per_kw row), cl_auto_bump = clr_auto_bump row\<rparr>)))"

text \<open>The outpoints are not used. The loop over the rows stops at the first that does not parse.\<close>

definition pg_get_claims ::
    "claim_repo_cfg \<Rightarrow> outpoint list \<Rightarrow> (claim_db pg, claim_repository_error, claim list) op" where
  "pg_get_claims cfg outpoints =
     seq (map_err claim_err (query claim_rows)) (\<lambda>rows.
     lift_res (collect_res (map (map_claim cfg) rows)))"

definition pg_claim_repository :: "claim_repo_cfg \<Rightarrow> claim_db pg claim_repository" where
  "pg_claim_repository cfg = \<lparr>add_claim = pg_add_claim cfg, get_claims = pg_get_claims cfg\<rparr>"

section \<open>What is stored\<close>

definition claim_effect :: "claim_repo_cfg \<Rightarrow> claim \<Rightarrow> i64 \<Rightarrow> claim_db \<Rightarrow> claim_db" where
  "claim_effect cfg c secs d =
     insert_claim_inputs (claim_input_rows cfg (cl_tx c))
       (d\<lparr>cdb_claims := cdb_claims d @ [claim_row_of cfg c secs]\<rparr>)"

lemma pg_add_claim_Inr:
  assumes "pg_add_claim cfg c s = (Inr u, s')"
  shows "\<exists>secs. secs_of_time (cl_creation_time c) = Some secs \<and>
    compute_txid (cc_lib cfg) (cl_tx c) \<notin> clr_tx_id ` set (cdb_claims (pg_data s)) \<and>
    pg_data s' = claim_effect cfg c secs (pg_data s)"
  using assms unfolding pg_add_claim_def
  by (elim transact_Inr)
     (auto simp: run_Inr insert_claim_def claim_effect_def claim_row_of_def split: if_splits
       dest!: stmt_Inr exec_Inr)

lemma pg_add_claim_Inl: "pg_add_claim cfg c s = (Inl e, s') \<Longrightarrow> pg_data s' = pg_data s"
  unfolding pg_add_claim_def by (rule transact_error_rolls_back)

lemma pg_get_claims_data: "pg_get_claims cfg ops s = (r, s') \<Longrightarrow> pg_data s' = pg_data s"
  by (cases r) (auto simp: pg_get_claims_def op_iffs lift_res_def dest: query_keeps_data)

text \<open>Every claim has all its inputs, and no input is without its claim.\<close>

definition claim_db_inv :: "claim_repo_cfg \<Rightarrow> claim_db \<Rightarrow> bool" where
  "claim_db_inv cfg d \<longleftrightarrow>
     distinct (map clr_tx_id (cdb_claims d)) \<and>
     (\<forall>r\<in>set (cdb_claims d). \<exists>tx. clr_tx r = consensus_encode cfg tx \<and>
        clr_tx_id r = compute_txid (cc_lib cfg) tx \<and>
        filter (\<lambda>i. ci_claim_tx_id i = clr_tx_id r) (cdb_inputs d) = claim_input_rows cfg tx) \<and>
     ci_claim_tx_id ` set (cdb_inputs d) \<subseteq> clr_tx_id ` set (cdb_claims d)"

datatype claim_call = AddClaim claim | GetClaims "outpoint list"

fun run_claim_call :: "claim_repo_cfg \<Rightarrow> claim_call \<Rightarrow> claim_db pg \<Rightarrow> claim_db pg" where
  "run_claim_call cfg (AddClaim c) s = snd (pg_add_claim cfg c s)"
| "run_claim_call cfg (GetClaims ops) s = snd (pg_get_claims cfg ops s)"

lemma claim_inputs_own: "set (claim_input_rows cfg tx) \<subseteq> {i. ci_claim_tx_id i = compute_txid (cc_lib cfg) tx}"
  by (auto simp: claim_input_rows_def)

lemma claim_db_inv_effect:
  assumes inv: "claim_db_inv cfg d" and new: "compute_txid (cc_lib cfg) (cl_tx c) \<notin> clr_tx_id ` set (cdb_claims d)"
  shows "claim_db_inv cfg (claim_effect cfg c secs d)"
proof -
  let ?t = "compute_txid (cc_lib cfg) (cl_tx c)"
  have "filter (\<lambda>i. ci_claim_tx_id i = ?t) (cdb_inputs d) = []"
    using inv new unfolding claim_db_inv_def filter_empty_conv by (metis image_eqI subsetD)
  moreover have "filter (\<lambda>i. ci_claim_tx_id i = ?t) (claim_input_rows cfg (cl_tx c)) = claim_input_rows cfg (cl_tx c)"
    using claim_inputs_own [of cfg "cl_tx c"] by (auto simp: filter_id_conv)
  moreover have "filter (\<lambda>i. ci_claim_tx_id i = t) (claim_input_rows cfg (cl_tx c)) = []" if "t \<noteq> ?t" for t
    using claim_inputs_own [of cfg "cl_tx c"] that by (auto simp: filter_empty_conv)
  ultimately show ?thesis
    using inv new claim_inputs_own [of cfg "cl_tx c"]
    by (auto simp: claim_db_inv_def claim_effect_def insert_claim_inputs_def claim_row_of_def image_iff)
qed

lemma claim_db_inv_call: "claim_db_inv cfg (pg_data s) \<Longrightarrow> claim_db_inv cfg (pg_data (run_claim_call cfg call s))"
proof (cases call)
  case (AddClaim c)
  assume inv: "claim_db_inv cfg (pg_data s)"
  obtain r s' where r: "pg_add_claim cfg c s = (r, s')" by fastforce
  with inv AddClaim show ?thesis
    by (cases r) (auto dest: pg_add_claim_Inl dest!: pg_add_claim_Inr simp: claim_db_inv_effect)
next
  case (GetClaims ops)
  assume "claim_db_inv cfg (pg_data s)"
  moreover obtain r s' where run: "pg_get_claims cfg ops s = (r, s')" by fastforce
  ultimately show ?thesis using GetClaims pg_get_claims_data [OF run] by simp
qed

text \<open>C30: after any sequence of calls, whatever statements fail, every stored claim has exactly the rows
  of its transaction's inputs, and no row of an input is left without its claim: a claim is stored
  whole or not at all.\<close>

theorem claim_db_inv_reachable:
  "claim_db_inv cfg (pg_data (fold (run_claim_call cfg) calls
     \<lparr>pg_data = \<lparr>cdb_chain = chain, cdb_claims = [], cdb_inputs = []\<rparr>, pg_faults = fs\<rparr>))"
proof -
  have "claim_db_inv cfg (pg_data s) \<Longrightarrow> claim_db_inv cfg (pg_data (fold (run_claim_call cfg) calls s))" for s
    by (induction calls arbitrary: s) (simp_all add: claim_db_inv_call)
  then show ?thesis by (simp add: claim_db_inv_def)
qed

section \<open>Storing and reading back\<close>

definition claim_storable :: "claim_repo_cfg \<Rightarrow> claim \<Rightarrow> bool" where
  "claim_storable cfg c \<longleftrightarrow>
     0 \<le> cl_creation_time c \<and> cl_creation_time c < 2 ^ 63 * nanos_per_sec \<and>
     parse_address (cc_lib cfg) (cc_network cfg) (cl_destination c) = Some (cl_destination c) \<and>
     consensus_decode cfg (consensus_encode cfg (cl_tx c)) = Some (cl_tx c)"

definition whole_seconds :: "claim \<Rightarrow> claim" where
  "whole_seconds c = c\<lparr>cl_creation_time := cl_creation_time c - cl_creation_time c mod nanos_per_sec\<rparr>"

lemma map_claim_row:
  assumes "claim_storable cfg c" and "secs_of_time (cl_creation_time c) = Some secs"
  shows "map_claim cfg (claim_row_of cfg c secs) = Inr (whole_seconds c)"
proof -
  have "time_of_secs secs = Some (cl_creation_time c - cl_creation_time c mod nanos_per_sec)"
    using assms time_of_secs_of_time [of "cl_creation_time c"] by (auto simp: claim_storable_def)
  with assms(1) show ?thesis
    by (simp add: map_claim_def claim_row_of_def bind_res_def of_option_def claim_storable_def whole_seconds_def)
qed

lemma collect_res_member:
  "collect_res (map f xs) = Inr ys \<Longrightarrow> x \<in> set xs \<Longrightarrow> f x = Inr y \<Longrightarrow> y \<in> set ys"
  unfolding collect_res_Inr by (metis image_eqI list.set_map Inr_inject imageE)

lemma claim_stored:
  assumes "pg_add_claim cfg c s = (Inr u, s')" and "i \<in> set (tx_input (cl_tx c))"
  shows "\<exists>secs. secs_of_time (cl_creation_time c) = Some secs \<and> claim_row_of cfg c secs \<in> set (cdb_claims (pg_data s')) \<and>
    (\<exists>ri\<in>set (cdb_inputs (pg_data s')). ci_claim_tx_id ri = compute_txid (cc_lib cfg) (cl_tx c) \<and>
      ci_tx_id ri = op_txid (previous_output i))"
proof -
  from pg_add_claim_Inr [OF assms(1)] obtain secs where secs: "secs_of_time (cl_creation_time c) = Some secs"
    and data: "pg_data s' = claim_effect cfg c secs (pg_data s)" by blast
  have "\<exists>ri\<in>set (claim_input_rows cfg (cl_tx c)). ci_claim_tx_id ri = compute_txid (cc_lib cfg) (cl_tx c) \<and>
      ci_tx_id ri = op_txid (previous_output i)"
    using assms(2) by (auto simp: claim_input_rows_def)
  then show ?thesis using secs by (auto simp: data claim_effect_def insert_claim_inputs_def bex_Un)
qed

text \<open>The order of two nested sorts.\<close>

lemma insort_rank:
  assumes "sorted_wrt (\<lambda>a b. f a < f b \<or> f a = f b \<and> g a \<le> g b) ys" and "\<forall>y\<in>set ys. g x \<le> g y"
  shows "sorted_wrt (\<lambda>a b. f a < (f b :: 'b :: linorder) \<or> f a = f b \<and> (g a :: 'c :: linorder) \<le> g b) (insort_key f x ys)"
  using assms by (induction ys) (auto simp: set_insort_key)

lemma sort_sort_rank:
  "sorted_wrt (\<lambda>a b. f a < (f b :: 'b :: linorder) \<or> f a = f b \<and> (g a :: 'c :: linorder) \<le> g b)
     (sort_key f (sort_key g xs))"
proof -
  have "sorted (map g ys) \<Longrightarrow> sorted_wrt (\<lambda>a b. f a < f b \<or> f a = f b \<and> g a \<le> g b) (sort_key f ys)" for ys
    by (induction ys) (auto intro: insort_rank)
  then show ?thesis by simp
qed

definition rank_order :: "claim \<Rightarrow> claim \<Rightarrow> bool" where
  "rank_order a b \<longleftrightarrow> cl_fee_per_kw b < cl_fee_per_kw a \<or>
     cl_fee_per_kw a = cl_fee_per_kw b \<and> cl_creation_time b \<le> cl_creation_time a"

lemma map_claim_rank:
  assumes "map_claim cfg r = Inr a" and "map_claim cfg q = Inr b"
    and "ucast (ucast (clr_fee_per_kw r) :: u32) = clr_fee_per_kw r"
    and "ucast (ucast (clr_fee_per_kw q) :: u32) = clr_fee_per_kw q"
    and "- sint (clr_fee_per_kw r) < - sint (clr_fee_per_kw q) \<or>
      - sint (clr_fee_per_kw r) = - sint (clr_fee_per_kw q) \<and> - sint (clr_creation_time r) \<le> - sint (clr_creation_time q)"
  shows "rank_order a b"
proof -
  have fee: "sint x = int (unat (ucast x :: u32))" if "ucast (ucast (x :: i64) :: u32) = x" for x
  proof -
    have b: "unat (ucast x :: u32) < 2 ^ 32" by (rule less_le_trans [OF unsigned_less]) simp
    then have "unat (ucast (ucast x :: u32) :: i64) = unat (ucast x :: u32)" by (simp add: unat_ucast_up)
    with b sint_of_small [of "ucast (ucast x :: u32) :: i64"] show ?thesis unfolding that by simp
  qed
  have time: "time_of_secs x = Some t \<Longrightarrow> t = sint x * nanos_per_sec" for x t
    using sint_of_small [of x] by (auto simp: time_of_secs_def split: if_splits)
  show ?thesis
    using assms fee [OF assms(3)] fee [OF assms(4)]
    by (auto simp: map_claim_def bind_res_Inr rank_order_def word_less_def word_uint_eq_iff dest!: time)
qed

text \<open>The fee rates of the table are those of \<open>u32\<close> values, as \<open>add_claim\<close> writes them.\<close>

definition u32_fees :: "claim_db \<Rightarrow> bool" where
  "u32_fees d \<longleftrightarrow> (\<forall>r\<in>set (cdb_claims d). ucast (ucast (clr_fee_per_kw r) :: u32) = clr_fee_per_kw r)"

text \<open>The claims come in the documented order, highest fee rate first and latest first among equal
  ones, so the claim that is rechecked first is the one most likely in the node's mempool.\<close>

lemma get_claims_sorted:
  assumes "pg_get_claims cfg ops s = (Inr cs, s')" and "u32_fees (pg_data s)"
  shows "sorted_wrt rank_order cs"
proof -
  let ?rows = "claim_rows (pg_data s)"
  from assms(1) have rows: "map (map_claim cfg) ?rows = map Inr cs"
    by (auto simp: pg_get_claims_def op_iffs collect_res_Inr dest!: query_Inr)
  then have len: "length cs = length ?rows" by (metis length_map)
  have at: "map_claim cfg (?rows ! i) = Inr (cs ! i)" if "i < length cs" for i
    using rows that len by (metis nth_map)
  have mem: "ucast (ucast (clr_fee_per_kw (?rows ! i)) :: u32) = clr_fee_per_kw (?rows ! i)" if "i < length cs" for i
    using assms(2) nth_mem [of i ?rows] that len by (auto simp: u32_fees_def claim_rows_def)
  have sorted: "sorted_wrt (\<lambda>r q. - sint (clr_fee_per_kw r) < - sint (clr_fee_per_kw q) \<or>
      - sint (clr_fee_per_kw r) = - sint (clr_fee_per_kw q) \<and>
      - sint (clr_creation_time r) \<le> - sint (clr_creation_time q)) ?rows"
    unfolding claim_rows_def by (rule sort_sort_rank)
  have "rank_order (cs ! i) (cs ! j)" if ij: "i < j" "j < length cs" for i j
  proof -
    have i: "i < length cs" using ij by simp
    show ?thesis
      using sorted_wrt_nth_less [OF sorted ij(1)] ij(2) len
      by (intro map_claim_rank [OF at [OF i] at [OF ij(2)] mem [OF i] mem [OF ij(2)]]) simp
  qed
  then show ?thesis unfolding sorted_wrt_iff_nth_less by blast
qed

text \<open>Whatever is done with the claims afterwards, the rows of a claim stay.\<close>

lemma claim_rows_stay:
  "set (cdb_claims (pg_data s)) \<subseteq> set (cdb_claims (pg_data (fold (run_claim_call cfg) calls s))) \<and>
   set (cdb_inputs (pg_data s)) \<subseteq> set (cdb_inputs (pg_data (fold (run_claim_call cfg) calls s)))"
proof (induction calls arbitrary: s)
  case (Cons call calls)
  have "set (cdb_claims (pg_data s)) \<subseteq> set (cdb_claims (pg_data (run_claim_call cfg call s))) \<and>
      set (cdb_inputs (pg_data s)) \<subseteq> set (cdb_inputs (pg_data (run_claim_call cfg call s)))"
  proof (cases call)
    case (AddClaim c)
    obtain r s' where r: "pg_add_claim cfg c s = (r, s')" by fastforce
    then show ?thesis using AddClaim
      by (cases r) (auto dest: pg_add_claim_Inl dest!: pg_add_claim_Inr simp: claim_effect_def insert_claim_inputs_def)
  next
    case (GetClaims ops)
    obtain r s' where "pg_get_claims cfg ops s = (r, s')" by fastforce
    from pg_get_claims_data [OF this] this GetClaims show ?thesis by simp
  qed
  with Cons.IH [of "run_claim_call cfg call s"] show ?case by auto
qed simp

text \<open>The tables some time later: other claims were recorded and read, and the chain went on.\<close>

definition claims_later :: "claim_repo_cfg \<Rightarrow> claim_call list \<Rightarrow> chain_db \<Rightarrow> claim_db pg \<Rightarrow> claim_db pg \<Rightarrow> bool" where
  "claims_later cfg calls chain s t \<longleftrightarrow> pg_data t = (pg_data (fold (run_claim_call cfg) calls s))\<lparr>cdb_chain := chain\<rparr>"

lemma claims_later_simps:
  assumes "claims_later cfg calls chain s t"
  shows "cdb_chain (pg_data t) = chain" and "set (cdb_claims (pg_data s)) \<subseteq> set (cdb_claims (pg_data t))"
    and "set (cdb_inputs (pg_data s)) \<subseteq> set (cdb_inputs (pg_data t))"
  using assms claim_rows_stay [of s cfg calls] by (simp_all add: claims_later_def)

lemma claims_later_inv:
  assumes "claims_later cfg calls chain s t" and "claim_db_inv cfg (pg_data s)"
  shows "claim_db_inv cfg (pg_data t)"
proof -
  have "claim_db_inv cfg (pg_data (fold (run_claim_call cfg) calls s))"
    using assms(2) by (induction calls arbitrary: s) (simp_all add: claim_db_inv_call)
  then show ?thesis using assms(1) by (simp add: claims_later_def claim_db_inv_def)
qed

lemma pg_get_claims_Inr:
  "pg_get_claims cfg ops s = (Inr cs, s') \<Longrightarrow> collect_res (map (map_claim cfg) (claim_rows (pg_data s))) = Inr cs"
  by (auto simp: pg_get_claims_def op_iffs dest!: query_Inr)

lemma added_claim_read:
  assumes "pg_add_claim cfg c s = (Inr u, s')" and "claim_storable cfg c" and "claims_later cfg calls chain s' t"
    and "i \<in> set (tx_input (cl_tx c))" and "op_txid (previous_output i) \<notin> spent_tx_ids (pg_data t)"
    and "pg_get_claims cfg ops t = (Inr cs, t')"
  shows "whole_seconds c \<in> set cs"
proof -
  from claim_stored [OF assms(1,4)] obtain secs ri where secs: "secs_of_time (cl_creation_time c) = Some secs"
    and row: "claim_row_of cfg c secs \<in> set (cdb_claims (pg_data t))"
    and ri: "ri \<in> set (cdb_inputs (pg_data t))" "ci_claim_tx_id ri = compute_txid (cc_lib cfg) (cl_tx c)"
      "ci_tx_id ri = op_txid (previous_output i)"
    using claims_later_simps(2,3) [OF assms(3)] by blast
  have "claim_row_of cfg c secs \<in> set (claim_rows (pg_data t))"
    using row ri assms(5) by (auto simp: claim_rows_def claim_row_of_def)
  from collect_res_member [OF pg_get_claims_Inr [OF assms(6)] this map_claim_row [OF assms(2) secs]] show ?thesis .
qed

text \<open>Adding a claim with the same transaction again fails and changes nothing.\<close>

lemma add_claim_again:
  assumes "pg_add_claim cfg c s = (Inr u, s')" and "claims_later cfg calls chain s' t"
    and "pg_add_claim cfg c' t = (r, t')" and "cl_tx c' = cl_tx c"
  shows "isl r \<and> pg_data t' = pg_data t"
proof -
  have "compute_txid (cc_lib cfg) (cl_tx c) \<in> clr_tx_id ` set (cdb_claims (pg_data t))"
    using pg_add_claim_Inr [OF assms(1)] claims_later_simps(2) [OF assms(2)]
    by (force simp: claim_effect_def insert_claim_inputs_def claim_row_of_def)
  then show ?thesis using assms(3,4) by (cases r) (auto dest: pg_add_claim_Inr pg_add_claim_Inl)
qed

section \<open>Which recorded claims are returned\<close>

text \<open>C31: which recorded claims a round gets back. The claim is recorded, then any other claims are
  recorded and read, and the chain tables change. The claim is among those returned if and only if one of its
  inputs comes from a transaction of which no output at all is spent in a block: the query looks for
  the transaction of the input among the spent ones, not for the output. So a claim whose outputs
  are all unspent is not returned while a sibling of each is spent in a block.\<close>

theorem recorded_claim_returned:
  assumes "claim_db_inv cfg (pg_data s)" and "pg_add_claim cfg c s = (Inr u, s')" and "claim_storable cfg c"
    and "\<forall>tx. consensus_decode cfg (consensus_encode cfg tx) = Some (cl_tx c) \<longrightarrow> tx = cl_tx c"
    and "claims_later cfg calls chain s' t" and "pg_get_claims cfg ops t = (Inr cs, t')"
  shows "whole_seconds c \<in> set cs \<longleftrightarrow>
    (\<exists>i\<in>set (tx_input (cl_tx c)). \<forall>(r, b)\<in>set (confirmed_inputs chain). i_tx_id r \<noteq> op_txid (previous_output i))"
proof
  have spent: "spent_tx_ids (pg_data t) = (\<lambda>(r, b). i_tx_id r) ` set (confirmed_inputs chain)"
    by (simp add: spent_tx_ids_def claims_later_simps(1) [OF assms(5)])
  show "whole_seconds c \<in> set cs" if "\<exists>i\<in>set (tx_input (cl_tx c)). \<forall>(r, b)\<in>set (confirmed_inputs chain).
      i_tx_id r \<noteq> op_txid (previous_output i)"
    using that added_claim_read [OF assms(2,3,5) _ _ assms(6)] unfolding spent by fastforce
  assume "whole_seconds c \<in> set cs"
  then obtain row where row: "row \<in> set (claim_rows (pg_data t))" "map_claim cfg row = Inr (whole_seconds c)"
    using pg_get_claims_Inr [OF assms(6)] unfolding collect_res_Inr by (metis image_iff list.set_map)
  then have tx: "consensus_decode cfg (clr_tx row) = Some (cl_tx c)"
    by (auto simp: map_claim_def bind_res_Inr of_option_Inr whole_seconds_def dest!: arg_cong [where f = cl_tx])
  obtain ri where ri: "ri \<in> set (cdb_inputs (pg_data t))" "ci_claim_tx_id ri = clr_tx_id row"
      "ci_tx_id ri \<notin> spent_tx_ids (pg_data t)" and mem: "row \<in> set (cdb_claims (pg_data t))"
    using row(1) by (auto simp: claim_rows_def)
  have "claim_db_inv cfg (pg_data t)"
    using assms(1,2) claims_later_inv [OF assms(5)] pg_add_claim_Inr [OF assms(2)] claim_db_inv_effect by metis
  with mem tx assms(4) have "filter (\<lambda>i. ci_claim_tx_id i = clr_tx_id row) (cdb_inputs (pg_data t)) = claim_input_rows cfg (cl_tx c)"
    unfolding claim_db_inv_def by metis
  moreover have "ri \<in> set (filter (\<lambda>i. ci_claim_tx_id i = clr_tx_id row) (cdb_inputs (pg_data t)))" using ri(1,2) by simp
  ultimately have "ri \<in> set (claim_input_rows cfg (cl_tx c))" by simp
  then obtain i where "i \<in> set (tx_input (cl_tx c))" "ci_tx_id ri = op_txid (previous_output i)"
    by (auto simp: claim_input_rows_def)
  with ri(3) show "\<exists>i\<in>set (tx_input (cl_tx c)). \<forall>(r, b)\<in>set (confirmed_inputs chain). i_tx_id r \<noteq> op_txid (previous_output i)"
    unfolding spent by force
qed

section \<open>A claim whose transaction has another spent output\<close>

definition ex_claim_tx :: transaction where
  "ex_claim_tx =
     \<lparr>tx_version = 2, tx_lock_time = 109,
      tx_input = [\<lparr>previous_output = OutPoint 7 0, script_sig = [], tx_sequence = 0, tx_witness = []\<rparr>],
      tx_output = [\<lparr>txo_value = 900, txo_script = []\<rparr>]\<rparr>"

definition ex_claim_cfg :: claim_repo_cfg where
  "ex_claim_cfg =
     \<lparr>cc_lib = ex_lib, cc_network = ''regtest'',
      consensus_encode = (\<lambda>t. if t = ex_claim_tx then [1] else []),
      consensus_decode = (\<lambda>b. if b = [1] then Some ex_claim_tx else None)\<rparr>"

definition ex_claim :: claim where
  "ex_claim =
     \<lparr>cl_creation_time = 6 * nanos_per_sec, cl_tx = ex_claim_tx, cl_destination = ''d'', cl_fee_per_kw = 253,
      cl_auto_bump = True\<rparr>"

text \<open>Two outputs of one transaction; \<open>spent\<close> says whether a block spends the second.\<close>

definition ex_two_outputs :: "bool \<Rightarrow> chain_db" where
  "ex_two_outputs spent =
     \<lparr>db_blocks = [\<lparr>bh_hash = 1, bh_height = 1, bh_prev = 0\<rparr>, \<lparr>bh_hash = 2, bh_height = 2, bh_prev = 1\<rparr>],
      db_watch = [''a'', ''b''],
      db_tx_outputs = [ex_output, ex_output\<lparr>o_index := 1, o_address := ''b''\<rparr>],
      db_tx_blocks = [(7, 1), (9, 2)],
      db_tx_inputs = (if spent then [\<lparr>i_tx_id = 7, i_index = 1, i_spending_tx_id = 9, i_spending_index = 0\<rparr>] else [])\<rparr>"

definition ex_claim_db :: "bool \<Rightarrow> claim_db pg" where
  "ex_claim_db spent =
     \<lparr>pg_data = \<lparr>cdb_chain = ex_two_outputs spent, cdb_claims = [], cdb_inputs = []\<rparr>, pg_faults = []\<rparr>"

lemmas ex_claim_defs = ex_claim_cfg_def ex_claim_tx_def ex_claim_def ex_two_outputs_def ex_claim_db_def ex_output_def ex_lib_def

lemma ex_add_claim:
  "pg_add_claim ex_claim_cfg ex_claim (ex_claim_db spent) =
     (Inr (), \<lparr>pg_data = claim_effect ex_claim_cfg ex_claim 6 (pg_data (ex_claim_db spent)), pg_faults = []\<rparr>)"
  by (simp add: pg_add_claim_def transact_def seq_def map_err_def sql_run ex_claim_db_def claim_effect_def
      insert_claim_def secs_of_time_def of_option_def ex_claim_def)

lemma ex_spent: "spent_tx_ids (pg_data (ex_claim_db spent)) = (if spent then {7} else {})"
  by (simp add: spent_tx_ids_def confirmed_inputs_def confirming_def ex_claim_defs)

lemma ex_spent_effect:
  "spent_tx_ids (claim_effect cfg c secs d) = spent_tx_ids d"
  by (simp add: spent_tx_ids_def claim_effect_def insert_claim_inputs_def)

lemma ex_get_claims:
  "\<exists>cs s. pg_get_claims ex_claim_cfg ops (snd (pg_add_claim ex_claim_cfg ex_claim (ex_claim_db spent))) = (Inr cs, s)"
  unfolding ex_add_claim snd_conv
  by (simp add: pg_get_claims_def seq_def map_err_def sql_run claim_rows_def claim_effect_def
      insert_claim_inputs_def ex_spent [unfolded ex_claim_db_def])
     (simp add: claim_row_of_def claim_input_rows_def ex_claim_db_def ex_claim_cfg_def ex_claim_def ex_claim_tx_def
       map_claim_def time_of_secs_def of_option_def bind_res_def ex_lib_def)

text \<open>The output that the claim spends is in the list of the unspent ones.\<close>

lemma ex_unspent_output:
  "\<exists>us. fst (pg_get_utxos ex_repo_cfg \<lparr>pg_data = ex_two_outputs True, pg_faults = []\<rparr>) = Inr us \<and>
     OutPoint 7 0 \<in> (txo_outpoint \<circ> au_utxo) ` set us"
  by (simp add: ex_chain_defs ex_two_outputs_def pg_get_utxos_def sql_run seq_def map_err_def order_txos_def
      unspent_outputs_def confirmed_outputs_def confirming_def spends_of_def confirmed_inputs_def
      map_utxo_def parse_addr_def of_option_def bind_res_def map_txo_def)

lemma ex_claim_storable: "claim_storable ex_claim_cfg ex_claim"
  by (simp add: claim_storable_def ex_claim_cfg_def ex_claim_def ex_lib_def)

lemma recorded_claim_returned_witness:
  "\<exists>s' cs cs' us. pg_add_claim ex_claim_cfg ex_claim (ex_claim_db True) = (Inr (), s') \<and>
     fst (pg_get_claims ex_claim_cfg [OutPoint 7 0] s') = Inr cs \<and> ex_claim \<notin> set cs \<and>
     fst (pg_get_utxos ex_repo_cfg \<lparr>pg_data = cdb_chain (pg_data s'), pg_faults = []\<rparr>) = Inr us \<and>
     OutPoint 7 0 \<in> (txo_outpoint \<circ> au_utxo) ` set us \<and>
     fst (pg_get_claims ex_claim_cfg [OutPoint 7 0] (s'\<lparr>pg_data := (pg_data s')\<lparr>cdb_chain := ex_two_outputs False\<rparr>\<rparr>)) = Inr cs' \<and>
     ex_claim \<in> set cs'"
proof -
  let ?s' = "snd (pg_add_claim ex_claim_cfg ex_claim (ex_claim_db True))"
  let ?t = "?s'\<lparr>pg_data := (pg_data ?s')\<lparr>cdb_chain := ex_two_outputs False\<rparr>\<rparr>"
  have t: "?t = snd (pg_add_claim ex_claim_cfg ex_claim (ex_claim_db False))"
    unfolding ex_add_claim by (simp add: claim_effect_def insert_claim_inputs_def ex_claim_db_def)
  obtain cs1 t1 where run1: "pg_get_claims ex_claim_cfg [OutPoint 7 0] ?s' = (Inr cs1, t1)" using ex_get_claims by blast
  obtain cs2 t2 where run2: "pg_get_claims ex_claim_cfg [OutPoint 7 0] ?t = (Inr cs2, t2)" using ex_get_claims unfolding t by blast
  have add: "pg_add_claim ex_claim_cfg ex_claim (ex_claim_db True) = (Inr (), ?s')" by (simp add: ex_add_claim)
  have inv: "claim_db_inv ex_claim_cfg (pg_data (ex_claim_db True))" by (simp add: claim_db_inv_def ex_claim_db_def)
  have dec: "\<forall>tx. consensus_decode ex_claim_cfg (consensus_encode ex_claim_cfg tx) = Some (cl_tx ex_claim) \<longrightarrow> tx = cl_tx ex_claim"
    by (simp add: ex_claim_cfg_def ex_claim_def)
  have later: "claims_later ex_claim_cfg [] (ex_two_outputs True) ?s' ?s'" "claims_later ex_claim_cfg [] (ex_two_outputs False) ?s' ?t"
    unfolding ex_add_claim by (simp_all add: claims_later_def claim_effect_def insert_claim_inputs_def ex_claim_db_def)
  have whole: "whole_seconds ex_claim = ex_claim" by (simp add: whole_seconds_def ex_claim_def)
  have ins: "confirmed_inputs (ex_two_outputs True) = [(\<lparr>i_tx_id = 7, i_index = 1, i_spending_tx_id = 9, i_spending_index = 0\<rparr>,
      \<lparr>bh_hash = 2, bh_height = 2, bh_prev = 1\<rparr>)]" "confirmed_inputs (ex_two_outputs False) = []"
    by (simp_all add: confirmed_inputs_def confirming_def ex_two_outputs_def)
  note returned = recorded_claim_returned [OF inv add ex_claim_storable dec, unfolded whole]
  have "ex_claim \<notin> set cs1" "ex_claim \<in> set cs2"
    using returned [OF later(1) run1] returned [OF later(2) run2]
    by (simp_all add: ins ex_claim_def ex_claim_tx_def)
  moreover have "cdb_chain (pg_data ?s') = ex_two_outputs True"
    unfolding ex_add_claim by (simp add: claim_effect_def insert_claim_inputs_def ex_claim_db_def)
  ultimately show ?thesis using add run1 run2 ex_unspent_output by (metis fst_conv)
qed

end
