(* ===== verification/Claim_Service.thy ===== *)
theory Claim_Service
  imports Claim_Repository Swap_Service
begin

text \<open>
  The claim service (\<open>claim/service.rs\<close>) and the claim monitor (\<open>claim/monitor.rs\<close>): the outputs
  that can be claimed, the transaction that claims them, and the rounds that decide for every
  output whether it is claimed anew, sent again or replaced at a higher fee rate.

  \<open>ClaimError\<close> boxes every error; here the box keeps what it was made from.
\<close>

section \<open>Errors\<close>

datatype claim_service_error =
    ServiceChainRepository chain_repository_error
  | ServiceGetSwaps get_swaps_error

datatype claim_error =
    ClaimBoxed boxed_error
  | ClaimSwap swap_error
  | ClaimChainRepository chain_repository_error
  | ClaimChain chain_error
  | ClaimBroadcast broadcast_error
  | ClaimFee fee_estimate_error
  | ClaimRepository claim_repository_error
  | ClaimWallet wallet_error
  | ClaimService claim_service_error

fun of_chain_repository_error :: "chain_repository_error \<Rightarrow> claim_error" where
  "of_chain_repository_error MultipleTips = ClaimChainRepository MultipleTips"
| "of_chain_repository_error (ChainRepoGeneral e) = ClaimBoxed e"

fun of_chain_error :: "chain_error \<Rightarrow> claim_error" where
  "of_chain_error (ChainGeneral e) = ClaimBoxed e"
| "of_chain_error e = ClaimChain e"

section \<open>The service\<close>

record 'w claim_service =
  cs_chain_client :: "'w chain_client"
  cs_chain_repository :: "'w chain_repository"
  cs_claim_repository :: "'w claim_repository"
  cs_swap_repository :: "'w swap_repository"
  cs_swap_service :: "'w swap_service"
  cs_lib :: bitcoin_lib
  cs_now :: "'w \<Rightarrow> system_time"

definition claimable_of ::
    "(address \<rightharpoonup> swap_state_paid_outpoints) \<Rightarrow> address_utxo \<Rightarrow> claimable_utxo option" where
  "claimable_of swaps utxo =
     (case swaps (au_address utxo) of
        None \<Rightarrow> None
      | Some s \<Rightarrow>
          (case ss_preimage (spo_swap_state s) of
             None \<Rightarrow> None
           | Some p \<Rightarrow> Some
               \<lparr>cu_swap = ss_swap (spo_swap_state s), cu_utxo = au_utxo utxo,
                paid_with_request = map_option po_payment_request
                  (find (\<lambda>po. po_outpoint po = txo_outpoint (au_utxo utxo)) (spo_paid_outpoints s)),
                cu_preimage = p\<rparr>))"

definition list_claimable :: "'w claim_service \<Rightarrow> ('w, claim_service_error, claimable_utxo list) op" where
  "list_claimable cs =
     seq (map_err ServiceChainRepository (get_utxos (cs_chain_repository cs))) (\<lambda>utxos.
     let addresses = map au_address utxos in
     seq (map_err ServiceGetSwaps (get_swaps_with_paid_outpoints (cs_swap_repository cs) addresses)) (\<lambda>swaps.
     ret (List.map_filter (claimable_of swaps) utxos)))"

text \<open>The transaction is sent before it is recorded.\<close>

definition claim_outputs ::
    "'w claim_service \<Rightarrow> claimable_utxo list \<Rightarrow> fee_estimate \<Rightarrow> u64 \<Rightarrow> address \<Rightarrow> bool \<Rightarrow>
     ('w, claim_error, transaction) op" where
  "claim_outputs cs claimables fee current_height destination auto_bump =
     seq (map_err ClaimSwap (create_claim_tx (cs_swap_service cs) (cs_lib cs) claimables fee current_height destination))
       (\<lambda>tx.
     seq (map_err ClaimBroadcast (broadcast_tx (cs_chain_client cs) tx)) (\<lambda>_ w.
     seq (map_err ClaimRepository (add_claim (cs_claim_repository cs)
            \<lparr>cl_creation_time = cs_now cs w, cl_tx = tx, cl_destination = destination,
             cl_fee_per_kw = sat_per_kw fee, cl_auto_bump = auto_bump\<rparr>)) (\<lambda>_.
     seq (map_err of_chain_repository_error (add_watch_address (cs_chain_repository cs) destination)) (\<lambda>_.
     ret tx)) w))"

section \<open>The monitor\<close>

text \<open>
  \<open>cm_keys\<close> and \<open>cm_members\<close> list a \<open>HashMap\<close>'s keys and a \<open>HashSet\<close>'s members in their order of
  iteration; \<open>cm_schedule\<close> puts the futures in the order in which they run. A future that is split
  over several polls runs here in one piece.
\<close>

datatype claim_job = Recheck claim "claimable_utxo list" | Fresh "claimable_utxo list"

record 'w claim_monitor =
  cm_chain_client :: "'w chain_client"
  cm_fee_estimator :: "'w fee_estimator"
  cm_poll_interval :: nat
  cm_claim_repository :: "'w claim_repository"
  cm_claim_service :: "'w claim_service"
  cm_wallet :: "'w wallet"
  cm_keys :: "(outpoint \<rightharpoonup> claimable_utxo) \<Rightarrow> outpoint list"
  cm_members :: "outpoint set \<Rightarrow> outpoint list"
  cm_schedule :: "claim_job list \<Rightarrow> claim_job list"

abbreviation min_replacement_diff :: u32 where "min_replacement_diff \<equiv> 250"

abbreviation cu_outpoint :: "claimable_utxo \<Rightarrow> outpoint" where
  "cu_outpoint c \<equiv> txo_outpoint (cu_utxo c)"

text \<open>Collecting into a \<open>HashMap\<close>: a later entry replaces an earlier one of the same key.\<close>

definition claimable_map :: "claimable_utxo list \<Rightarrow> outpoint \<rightharpoonup> claimable_utxo" where
  "claimable_map cs = map_of (rev (map (\<lambda>c. (cu_outpoint c, c)) cs))"

definition claim_inputs :: "claim \<Rightarrow> outpoint list" where
  "claim_inputs c = map previous_output (tx_input (cl_tx c))"

text \<open>The loop over the stored claims; \<open>None\<close> is the panic of the \<open>expect\<close>.\<close>

fun plan_rechecks ::
    "(outpoint \<rightharpoonup> claimable_utxo) \<Rightarrow> claim list \<Rightarrow> outpoint set \<Rightarrow> (claim_job list \<times> outpoint set) option" where
  "plan_rechecks m [] unhandled = Some ([], unhandled)"
| "plan_rechecks m (c # cs) unhandled =
     (if \<not> list_all (\<lambda>p. m p \<noteq> None) (claim_inputs c) then plan_rechecks m cs unhandled
      else (case those (map m (claim_inputs c)) of
              None \<Rightarrow> None
            | Some current \<Rightarrow>
                (case plan_rechecks m cs (unhandled - set (claim_inputs c)) of
                   None \<Rightarrow> None
                 | Some (jobs, rest) \<Rightarrow> Some (Recheck c current # jobs, rest))))"

text \<open>\<open>entry(k).or_insert(Vec::new()).push(v)\<close>.\<close>

fun push_entry :: "'k \<Rightarrow> 'v \<Rightarrow> ('k \<times> 'v list) list \<Rightarrow> ('k \<times> 'v list) list" where
  "push_entry k v [] = [(k, [v])]"
| "push_entry k v ((k', vs) # es) =
     (if k' = k then (k', vs @ [v]) # es else (k', vs) # push_entry k v es)"

fun plan_groups ::
    "(outpoint \<rightharpoonup> claimable_utxo) \<Rightarrow> outpoint list \<Rightarrow> (sha256 \<times> claimable_utxo list) list \<Rightarrow>
     (sha256 \<times> claimable_utxo list) list option" where
  "plan_groups m [] swaps = Some swaps"
| "plan_groups m (p # ps) swaps =
     (case m p of
        None \<Rightarrow> None
      | Some c \<Rightarrow>
          if paid_with_request c = None then plan_groups m ps swaps
          else plan_groups m ps (push_entry (swap_hash (swap_public (cu_swap c))) c swaps))"

definition plan_jobs ::
    "(outpoint set \<Rightarrow> outpoint list) \<Rightarrow> (outpoint \<rightharpoonup> claimable_utxo) \<Rightarrow> outpoint list \<Rightarrow> claim list \<Rightarrow>
     claim_job list option" where
  "plan_jobs members m outpoints claims =
     (case plan_rechecks m claims (set outpoints) of
        None \<Rightarrow> None
      | Some (rechecks, unhandled) \<Rightarrow>
          map_option (\<lambda>swaps. rechecks @ map (\<lambda>(h, cs). Fresh cs) swaps)
            (plan_groups m (members unhandled) []))"

definition i32_min :: "i32 \<Rightarrow> i32 \<Rightarrow> i32" where
  "i32_min a b = (if sint b < sint a then b else a)"

fun min_blocks_left :: "claimable_utxo list \<Rightarrow> u64 \<Rightarrow> i32 option" where
  "min_blocks_left [] h = None"
| "min_blocks_left (c # cs) h = Some (fold (\<lambda>c b. i32_min b (claimable_blocks_left c h)) cs (claimable_blocks_left c h))"

text \<open>The sum of the fee rates wraps around in a release build.\<close>

definition recheck_claim ::
    "'w claim_monitor \<Rightarrow> u64 \<Rightarrow> claim \<Rightarrow> claimable_utxo list \<Rightarrow> ('w, claim_error, unit) op" where
  "recheck_claim cm current_height c claimables =
     seq (lift_res (of_option (ClaimBoxed (BoxMsg ''blocks_left returned none''))
            (min_blocks_left claimables current_height))) (\<lambda>blocks_left.
     seq (map_err ClaimFee (cm_fee_estimator cm blocks_left)) (\<lambda>fee.
     if sat_per_kw fee < cl_fee_per_kw c + min_replacement_diff then
       attempt (broadcast_tx (cm_chain_client cm) (cl_tx c)) (\<lambda>r.
         case r of
           Inr _ \<Rightarrow> ret ()
         | Inl (InsufficientFeeRejectingReplacement e) \<Rightarrow> ret ()
         | Inl e \<Rightarrow> fail (ClaimBroadcast e))
     else
       seq (claim_outputs (cm_claim_service cm) claimables fee current_height (cl_destination c) (cl_auto_bump c))
         (\<lambda>_. ret ())))"

text \<open>\<open>join!\<close> runs both calls, whatever they return; the error of the estimate comes first.\<close>

definition claim_fresh ::
    "'w claim_monitor \<Rightarrow> u64 \<Rightarrow> claimable_utxo list \<Rightarrow> ('w, claim_error, unit) op" where
  "claim_fresh cm current_height claimables =
     seq (lift_res (of_option (ClaimBoxed (BoxMsg ''blocks_left returned none''))
            (min_blocks_left claimables current_height))) (\<lambda>blocks_left.
     attempt (cm_fee_estimator cm blocks_left) (\<lambda>fee_res.
     attempt (cm_wallet cm) (\<lambda>address_res.
     seq (map_err ClaimFee (lift_res fee_res)) (\<lambda>fee.
     seq (map_err ClaimWallet (lift_res address_res)) (\<lambda>destination.
     seq (claim_outputs (cm_claim_service cm) claimables fee current_height destination True)
       (\<lambda>_. ret ()))))))"

fun run_job :: "'w claim_monitor \<Rightarrow> u64 \<Rightarrow> claim_job \<Rightarrow> ('w, claim_error, unit) op" where
  "run_job cm h (Recheck c cs) = recheck_claim cm h c cs"
| "run_job cm h (Fresh cs) = claim_fresh cm h cs"

text \<open>The outcomes of the futures are logged only.\<close>

definition do_claim :: "'w claim_monitor \<Rightarrow> ('w, claim_error exn, unit) op" where
  "do_claim cm =
     seq (map_err (Err \<circ> of_chain_error) (get_blockheight (cm_chain_client cm))) (\<lambda>current_height.
     seq (map_err (Err \<circ> ClaimService) (list_claimable (cm_claim_service cm))) (\<lambda>claimables.
     let m = claimable_map claimables; outpoints = cm_keys cm m in
     seq (map_err (Err \<circ> ClaimRepository) (get_claims (cm_claim_repository cm) outpoints)) (\<lambda>claims.
     case plan_jobs (cm_members cm) m outpoints claims of
       None \<Rightarrow> fail Panic
     | Some jobs \<Rightarrow> (\<lambda>w. (Inr (), snd (run_all (run_job cm current_height) (cm_schedule cm jobs) w))))))"

fun cm_start ::
    "nat \<Rightarrow> ('w \<Rightarrow> bool) \<Rightarrow> (nat \<Rightarrow> 'w \<Rightarrow> bool \<times> 'w) \<Rightarrow> 'w claim_monitor \<Rightarrow> ('w, claim_error exn, unit) op" where
  "cm_start 0 token wait cm w = (Inl Diverged, w)"
| "cm_start (Suc n) token wait cm w =
     (if token w then (Inr (), w)
      else (case do_claim cm w of
          (Inl Panic, w1) \<Rightarrow> (Inl Panic, w1)
        | (_, w1) \<Rightarrow>
            (case wait (cm_poll_interval cm) w1 of
               (True, w2) \<Rightarrow> (Inr (), w2)
             | (False, w2) \<Rightarrow> cm_start n token wait cm w2)))"

section \<open>What a round decides\<close>

definition live :: "(outpoint \<rightharpoonup> claimable_utxo) \<Rightarrow> claim \<Rightarrow> bool" where
  "live m c \<longleftrightarrow> list_all (\<lambda>p. m p \<noteq> None) (claim_inputs c)"

definition in_progress :: "(outpoint \<rightharpoonup> claimable_utxo) \<Rightarrow> claim list \<Rightarrow> outpoint set" where
  "in_progress m claims = \<Union> (set (map (set \<circ> claim_inputs) (filter (live m) claims)))"

fun fresh_of :: "claim_job \<Rightarrow> claimable_utxo list" where
  "fresh_of (Recheck c cs) = []"
| "fresh_of (Fresh cs) = cs"

abbreviation cu_hash :: "claimable_utxo \<Rightarrow> sha256" where
  "cu_hash c \<equiv> swap_hash (swap_public (cu_swap c))"

text \<open>What the lists of a map's keys and of a set's members have in common with them.\<close>

definition iterates :: "(outpoint set \<Rightarrow> outpoint list) \<Rightarrow> bool" where
  "iterates members \<longleftrightarrow> (\<forall>S. finite S \<longrightarrow> set (members S) = S \<and> distinct (members S))"

lemma those_map_Some: "list_all (\<lambda>p. m p \<noteq> None) ps \<Longrightarrow> those (map m ps) = Some (map (\<lambda>p. the (m p)) ps)"
  by (induction ps) auto

lemma plan_rechecks_eq:
  "plan_rechecks m cs S =
     Some (map (\<lambda>c. Recheck c (map (\<lambda>p. the (m p)) (claim_inputs c))) (filter (live m) cs), S - in_progress m cs)"
  by (induction cs arbitrary: S) (auto simp: live_def in_progress_def those_map_Some)

definition grouped :: "(sha256 \<times> claimable_utxo list) list \<Rightarrow> bool" where
  "grouped es \<longleftrightarrow> distinct (map fst es) \<and> (\<forall>e\<in>set es. snd e \<noteq> [] \<and> (\<forall>c\<in>set (snd e). cu_hash c = fst e))"

lemma push_entry_keys: "fst ` set (push_entry k v es) = insert k (fst ` set es)"
  by (induction k v es rule: push_entry.induct) auto

lemma push_entry_values:
  "mset (concat (map snd (push_entry k v es))) = add_mset v (mset (concat (map snd es)))"
  by (induction k v es rule: push_entry.induct) auto

lemma grouped_Cons:
  "grouped ((k, vs) # es) \<longleftrightarrow> k \<notin> fst ` set es \<and> grouped es \<and> vs \<noteq> [] \<and> (\<forall>c\<in>set vs. cu_hash c = k)"
  unfolding grouped_def by (simp only: list.map fst_conv distinct.simps set_map list.set ball_simps snd_conv) blast

lemma push_grouped: "grouped es \<Longrightarrow> cu_hash c = k \<Longrightarrow> grouped (push_entry k c es)"
proof (induction es)
  case (Cons e es)
  then show ?case
    by (cases e; cases "fst e = k") (auto simp only: fst_conv push_entry.simps grouped_Cons push_entry_keys
        if_True if_False simp_thms set_append list.set Un_iff insert_iff append_is_Nil_conv)
qed (simp add: grouped_def)

lemma plan_groups_Some:
  assumes "\<forall>p\<in>set ps. m p \<noteq> None" and "grouped es"
  shows "\<exists>es'. plan_groups m ps es = Some es' \<and> grouped es' \<and>
    mset (concat (map snd es')) = mset (concat (map snd es)) +
      mset (filter (\<lambda>c. paid_with_request c \<noteq> None) (map (\<lambda>p. the (m p)) ps))"
  using assms
proof (induction m ps es rule: plan_groups.induct)
  case (2 m p ps es)
  then obtain c where c: "m p = Some c" by auto
  show ?case
  proof (cases "paid_with_request c = None")
    case True
    with 2 c show ?thesis by simp
  next
    case False
    have g: "grouped (push_entry (cu_hash c) c es)" using "2.prems"(2) by (rule push_grouped) simp
    from "2.IH"(2) [OF c False _ g] "2.prems"(1) obtain es' where
      "plan_groups m ps (push_entry (cu_hash c) c es) = Some es'" "grouped es'"
      "mset (concat (map snd es')) = mset (concat (map snd (push_entry (cu_hash c) c es))) +
        mset (filter (\<lambda>c. paid_with_request c \<noteq> None) (map (\<lambda>p. the (m p)) ps))"
      by (metis list.set_intros(2))
    with c False show ?thesis unfolding push_entry_values by auto
  qed
qed simp

lemma claimable_map_outpoint: "claimable_map cs p = Some c \<Longrightarrow> cu_outpoint c = p"
  by (auto simp: claimable_map_def dest!: map_of_SomeD)

lemma plan_jobs_Some:
  assumes "set outpoints = dom m" and "iterates members" and "\<And>p c. m p = Some c \<Longrightarrow> cu_outpoint c = p"
  obtains es where "plan_jobs members m outpoints claims =
      Some (map (\<lambda>c. Recheck c (map (\<lambda>p. the (m p)) (claim_inputs c))) (filter (live m) claims) @ map (\<lambda>(h, cs). Fresh cs) es)"
    and "grouped es" and "distinct (concat (map snd es))"
    and "set (concat (map snd es)) = {c \<in> ran m. paid_with_request c \<noteq> None \<and> cu_outpoint c \<notin> in_progress m claims}"
proof -
  let ?U = "dom m - in_progress m claims"
  have "finite (dom m)" using assms(1) by (metis finite_set)
  then have mem: "set (members ?U) = ?U" "distinct (members ?U)" using assms(2) by (auto simp: iterates_def)
  obtain es where es: "plan_groups m (members ?U) [] = Some es" "grouped es"
    "mset (concat (map snd es)) = mset (filter (\<lambda>c. paid_with_request c \<noteq> None) (map (\<lambda>p. the (m p)) (members ?U)))"
  proof -
    have "\<forall>p\<in>set (members ?U). m p \<noteq> None" using mem(1) by auto
    moreover have "grouped []" by (simp add: grouped_def)
    ultimately show ?thesis using plan_groups_Some [of "members ?U" m "[]"] that by auto
  qed
  have "inj_on (\<lambda>p. the (m p)) (dom m)"
  proof (rule inj_onI)
    fix p q assume "p \<in> dom m" "q \<in> dom m" "the (m p) = the (m q)"
    with assms(3) [of p "the (m p)"] assms(3) [of q "the (m q)"] show "p = q" by auto
  qed
  then have "distinct (map (\<lambda>p. the (m p)) (members ?U))"
    using mem by (auto simp: distinct_map intro: inj_on_subset)
  then have dist: "distinct (concat (map snd es))" using es(3) by (metis distinct_filter mset_eq_imp_distinct_iff)
  have "set (concat (map snd es)) = {c \<in> (\<lambda>p. the (m p)) ` ?U. paid_with_request c \<noteq> None}"
    using mset_eq_setD [OF es(3)] mem(1) by auto
  also have "(\<lambda>p. the (m p)) ` ?U = {c \<in> ran m. cu_outpoint c \<notin> in_progress m claims}"
  proof (intro equalityI subsetI)
    fix c assume "c \<in> (\<lambda>p. the (m p)) ` ?U"
    then obtain p where "m p = Some c" "p \<notin> in_progress m claims" by auto
    with assms(3) [of p c] show "c \<in> {c \<in> ran m. cu_outpoint c \<notin> in_progress m claims}" by (auto intro: ranI)
  next
    fix c assume "c \<in> {c \<in> ran m. cu_outpoint c \<notin> in_progress m claims}"
    then obtain p where "m p = Some c" "cu_outpoint c \<notin> in_progress m claims" by (auto simp: ran_def)
    with assms(3) [of p c] show "c \<in> (\<lambda>p. the (m p)) ` ?U" by (intro image_eqI [of _ _ p]) auto
  qed
  finally have "set (concat (map snd es)) =
      {c \<in> ran m. paid_with_request c \<noteq> None \<and> cu_outpoint c \<notin> in_progress m claims}" by blast
  with that [OF _ es(2) dist] es(1) assms(1) show thesis by (simp add: plan_jobs_def plan_rechecks_eq)
qed

lemma map_Some_iff:
  "list_all (\<lambda>p. m p \<noteq> None) ps \<Longrightarrow> map m ps = map Some cs \<longleftrightarrow> cs = map (\<lambda>p. the (m p)) ps"
proof (induction ps arbitrary: cs)
  case (Cons p ps)
  then show ?case by (cases cs) auto
qed auto

lemma plan_jobs_claimable:
  assumes "set outpoints = dom (claimable_map claimables)" and "iterates members"
  obtains es where "plan_jobs members (claimable_map claimables) outpoints claims =
      Some (map (\<lambda>c. Recheck c (map (\<lambda>p. the (claimable_map claimables p)) (claim_inputs c)))
          (filter (live (claimable_map claimables)) claims) @ map (\<lambda>(h, cs). Fresh cs) es)"
    and "grouped es" and "distinct (concat (map snd es))"
    and "set (concat (map snd es)) = {c \<in> ran (claimable_map claimables).
      paid_with_request c \<noteq> None \<and> cu_outpoint c \<notin> in_progress (claimable_map claimables) claims}"
  by (rule plan_jobs_Some [OF assms claimable_map_outpoint])

text \<open>C18: a round of the claim monitor never hits one of its \<open>expect\<close>s, and splits the claimable outputs
  correctly: it rechecks exactly the stored claims all of whose inputs are claimable, each with its
  own outputs; every other output that was paid for over lightning is in one new claim, none is in
  two, and none is in a new claim while a claim that is rechecked spends it; an output that was not
  paid for is not claimed; a new claim is of one swap.\<close>

theorem claim_plan_partition:
  assumes "set outpoints = dom (claimable_map claimables)" and "iterates members"
  defines "m \<equiv> claimable_map claimables"
  shows "\<exists>jobs. plan_jobs members m outpoints claims = Some jobs \<and>
    (\<forall>c cs. Recheck c cs \<in> set jobs \<longleftrightarrow>
       c \<in> set claims \<and> live m c \<and> map m (claim_inputs c) = map Some cs) \<and>
    (\<forall>cs. Fresh cs \<in> set jobs \<longrightarrow> cs \<noteq> [] \<and> (\<exists>h. \<forall>c\<in>set cs. cu_hash c = h)) \<and>
    distinct (concat (map fresh_of jobs)) \<and>
    set (concat (map fresh_of jobs)) =
      {c \<in> ran m. paid_with_request c \<noteq> None \<and> cu_outpoint c \<notin> in_progress m claims}"
proof -
  obtain es where es: "plan_jobs members m outpoints claims =
      Some (map (\<lambda>c. Recheck c (map (\<lambda>p. the (m p)) (claim_inputs c))) (filter (live m) claims) @ map (\<lambda>(h, cs). Fresh cs) es)"
    "grouped es" "distinct (concat (map snd es))"
    "set (concat (map snd es)) = {c \<in> ran m. paid_with_request c \<noteq> None \<and> cu_outpoint c \<notin> in_progress m claims}"
    unfolding m_def by (rule plan_jobs_claimable [OF assms(1,2), where claims = claims])
  have fresh: "map fresh_of (map (\<lambda>(h, cs). Fresh cs) es) = map snd es" by (simp add: split_beta)
  have none: "concat (map fresh_of (map (\<lambda>c. Recheck c (f c)) xs)) = []" for f xs by (induction xs) auto
  have rechecks: "Recheck c cs \<in> set (map (\<lambda>c. Recheck c (map (\<lambda>p. the (m p)) (claim_inputs c))) (filter (live m) claims) @
      map (\<lambda>(h, cs). Fresh cs) es) \<longleftrightarrow> c \<in> set claims \<and> live m c \<and> map m (claim_inputs c) = map Some cs" for c cs
  proof -
    have "live m c \<Longrightarrow> map m (claim_inputs c) = map Some cs \<longleftrightarrow> cs = map (\<lambda>p. the (m p)) (claim_inputs c)"
      by (rule map_Some_iff) (simp add: live_def)
    then show ?thesis by (simp add: image_iff split_beta) blast
  qed
  have flat: "concat (map fresh_of (map (\<lambda>c. Recheck c (map (\<lambda>p. the (m p)) (claim_inputs c))) (filter (live m) claims) @
      map (\<lambda>(h, cs). Fresh cs) es)) = concat (map snd es)"
    unfolding map_append concat_append fresh none by simp
  have groups: "cs \<noteq> [] \<and> (\<exists>h. \<forall>c\<in>set cs. cu_hash c = h)" if "Fresh cs \<in> set (map (\<lambda>c. Recheck c (f c)) xs @ map (\<lambda>(h, cs). Fresh cs) es)"
    for cs f xs
  proof -
    from that obtain e where "e \<in> set es" "cs = snd e" by auto
    with es(2) show ?thesis unfolding grouped_def by (intro conjI exI [of _ "fst e"]) auto
  qed
  let ?jobs = "map (\<lambda>c. Recheck c (map (\<lambda>p. the (m p)) (claim_inputs c))) (filter (live m) claims) @ map (\<lambda>(h, cs). Fresh cs) es"
  have "\<forall>c cs. Recheck c cs \<in> set ?jobs \<longleftrightarrow> c \<in> set claims \<and> live m c \<and> map m (claim_inputs c) = map Some cs"
    using rechecks by blast
  moreover have "\<forall>cs. Fresh cs \<in> set ?jobs \<longrightarrow> cs \<noteq> [] \<and> (\<exists>h. \<forall>c\<in>set cs. cu_hash c = h)"
    by (intro allI impI) (erule groups)
  moreover have "distinct (concat (map fresh_of ?jobs))" unfolding flat by (rule es(3))
  moreover have "set (concat (map fresh_of ?jobs)) =
      {c \<in> ran m. paid_with_request c \<noteq> None \<and> cu_outpoint c \<notin> in_progress m claims}"
    unfolding flat by (rule es(4))
  ultimately show ?thesis using es(1) by (intro exI [of _ ?jobs] conjI)
qed

text \<open>C22: a recorded claim is not made again. Whatever claims are recorded and read after it, and however
  the chain tables change: in a later round in which all the inputs of the claim are claimable, and at least
  one of them is an output of a transaction none of whose outputs is spent in a block, the plan of the
  round rechecks the claim with the claimables of exactly its inputs, and makes no new claim of any of
  them.\<close>

theorem recorded_claim_is_rechecked:
  assumes "pg_add_claim cfg c s = (Inr u, s')" and "claim_storable cfg c" and "claims_later cfg calls chain s' t"
    and "i \<in> set (tx_input (cl_tx c))" and "op_txid (previous_output i) \<notin> spent_tx_ids (pg_data t)"
    and "pg_get_claims cfg outpoints t = (Inr claims, t')"
    and "set outpoints = dom (claimable_map claimables)" and "iterates members"
    and "set (claim_inputs c) \<subseteq> dom (claimable_map claimables)"
  shows "\<exists>jobs cs. plan_jobs members (claimable_map claimables) outpoints claims = Some jobs \<and>
    Recheck (whole_seconds c) cs \<in> set jobs \<and> map cu_outpoint cs = claim_inputs c \<and>
    (\<forall>fresh. Fresh fresh \<in> set jobs \<longrightarrow> cu_outpoint ` set fresh \<inter> set (claim_inputs c) = {})"
proof -
  let ?m = "claimable_map claimables" and ?c = "whole_seconds c"
  have c: "?c \<in> set claims" by (rule added_claim_read [OF assms(1-6)])
  have inputs: "claim_inputs ?c = claim_inputs c" by (simp add: claim_inputs_def whole_seconds_def)
  have live: "live ?m ?c" using assms(9) by (auto simp: live_def inputs list_all_iff)
  obtain es where es: "plan_jobs members ?m outpoints claims =
      Some (map (\<lambda>c. Recheck c (map (\<lambda>p. the (?m p)) (claim_inputs c))) (filter (live ?m) claims) @ map (\<lambda>(h, cs). Fresh cs) es)"
    "grouped es" "distinct (concat (map snd es))"
    and out: "set (concat (map snd es)) = {c \<in> ran ?m. paid_with_request c \<noteq> None \<and> cu_outpoint c \<notin> in_progress ?m claims}"
    by (rule plan_jobs_claimable [OF assms(7,8), where claims = claims])
  have "cu_outpoint d \<notin> set (claim_inputs c)" if "e \<in> set es" "d \<in> set (snd e)" for e d
  proof -
    have "d \<in> set (concat (map snd es))" using that by auto
    then have "cu_outpoint d \<notin> in_progress ?m claims" unfolding out by blast
    moreover have "set (claim_inputs c) \<subseteq> in_progress ?m claims"
      using c live inputs by (auto simp: in_progress_def)
    ultimately show ?thesis by blast
  qed
  moreover have "map cu_outpoint (map (\<lambda>p. the (?m p)) (claim_inputs c)) = claim_inputs c"
    using assms(9) claimable_map_outpoint [of claimables] by (auto simp: map_idI subset_iff dom_def)
  ultimately show ?thesis
    unfolding es using c live inputs by (intro exI conjI refl) (auto simp: image_iff)
qed

section \<open>What the jobs send\<close>

lemma claim_outputs_Inr:
  assumes "claim_outputs cs claimables fee h dest bump w = (Inr tx, w')"
  obtains w1 w2 w3 where "create_claim_tx (cs_swap_service cs) (cs_lib cs) claimables fee h dest w = (Inr tx, w1)"
    and "broadcast_tx (cs_chain_client cs) tx w1 = (Inr (), w2)"
    and "add_claim (cs_claim_repository cs)
       \<lparr>cl_creation_time = cs_now cs w2, cl_tx = tx, cl_destination = dest, cl_fee_per_kw = sat_per_kw fee,
        cl_auto_bump = bump\<rparr> w2 = (Inr (), w3)"
    and "add_watch_address (cs_chain_repository cs) dest w3 = (Inr (), w')"
  using assms by (auto simp: claim_outputs_def run_Inr)

lemma claim_outputs_sent:
  assumes "claim_outputs cs claimables fee h dest bump w = (Inr tx, w')"
  shows "\<exists>out w1 w2 w3.
    create_claim_tx (cs_swap_service cs) (cs_lib cs) claimables fee h dest w = (Inr tx, w1) \<and>
    map previous_output (tx_input tx) = sort (map cu_outpoint claimables) \<and>
    tx_output tx = [out] \<and> txo_script out = address_script (cs_lib cs) dest \<and>
    dust_limit_sat (cs_swap_service cs) \<le> txo_value out \<and>
    broadcast_tx (cs_chain_client cs) tx w1 = (Inr (), w2) \<and>
    add_claim (cs_claim_repository cs)
      \<lparr>cl_creation_time = cs_now cs w2, cl_tx = tx, cl_destination = dest, cl_fee_per_kw = sat_per_kw fee,
       cl_auto_bump = bump\<rparr> w2 = (Inr (), w3) \<and>
    add_watch_address (cs_chain_repository cs) dest w3 = (Inr (), w')"
proof -
  from assms obtain w1 w2 w3 where
    tx: "create_claim_tx (cs_swap_service cs) (cs_lib cs) claimables fee h dest w = (Inr tx, w1)"
    and sent: "broadcast_tx (cs_chain_client cs) tx w1 = (Inr (), w2)"
    "add_claim (cs_claim_repository cs)
       \<lparr>cl_creation_time = cs_now cs w2, cl_tx = tx, cl_destination = dest, cl_fee_per_kw = sat_per_kw fee,
        cl_auto_bump = bump\<rparr> w2 = (Inr (), w3)"
    "add_watch_address (cs_chain_repository cs) dest w3 = (Inr (), w')"
    by (rule claim_outputs_Inr)
  have "map previous_output (tx_input tx) = sort (map cu_outpoint claimables)"
    using claim_tx_shape [OF tx] properties_for_sort [of "map cu_outpoint (sort_key (txo_outpoint \<circ> cu_utxo) claimables)"
        "map cu_outpoint claimables"] sorted_sort_key [of "txo_outpoint \<circ> cu_utxo" claimables]
    by (auto simp: comp_def)
  with claim_tx_shape [OF tx] tx sent show ?thesis by blast
qed

text \<open>C23: when a new claim of a group succeeds, one transaction was broadcast that spends exactly the
  outputs of the group and pays one output, not below dust, to a fresh address of the wallet; it is
  recorded with that address and its fee rate, and the address is watched from then on.\<close>

theorem fresh_claim_sent:
  assumes "claim_fresh cm h claimables w = (Inr u, w')"
  defines "cs \<equiv> cm_claim_service cm"
  shows "\<exists>b fee dest tx out v0 v1 v2 w1 w2 w3.
    min_blocks_left claimables h = Some b \<and> cm_fee_estimator cm b w = (Inr fee, v0) \<and>
    cm_wallet cm v0 = (Inr dest, v1) \<and>
    create_claim_tx (cs_swap_service cs) (cs_lib cs) claimables fee h dest v1 = (Inr tx, v2) \<and>
    map previous_output (tx_input tx) = sort (map cu_outpoint claimables) \<and>
    tx_output tx = [out] \<and> txo_script out = address_script (cs_lib cs) dest \<and>
    dust_limit_sat (cs_swap_service cs) \<le> txo_value out \<and>
    broadcast_tx (cs_chain_client cs) tx v2 = (Inr (), w1) \<and>
    add_claim (cs_claim_repository cs)
      \<lparr>cl_creation_time = cs_now cs w1, cl_tx = tx, cl_destination = dest, cl_fee_per_kw = sat_per_kw fee,
       cl_auto_bump = True\<rparr> w1 = (Inr (), w2) \<and>
    add_watch_address (cs_chain_repository cs) dest w2 = (Inr (), w3) \<and> w' = w3"
proof -
  obtain b where min: "min_blocks_left claimables h = Some b"
    using assms(1) by (auto simp: claim_fresh_def run_Inr)
  obtain r0 v0 where r0: "cm_fee_estimator cm b w = (r0, v0)" by fastforce
  obtain r1 v1 where r1: "cm_wallet cm v0 = (r1, v1)" by fastforce
  obtain fee dest tx where b: "min_blocks_left claimables h = Some b"
    "cm_fee_estimator cm b w = (Inr fee, v0)" "cm_wallet cm v0 = (Inr dest, v1)"
    "claim_outputs cs claimables fee h dest True v1 = (Inr tx, w')"
    using assms(1) min r0 r1 by (auto simp: claim_fresh_def run_Inr attempt_def cs_def of_option_def)
  with claim_outputs_sent [OF b(4)] show ?thesis by blast
qed

lemma replacement_not_wrapped:
  fixes old new :: u32
  assumes "unat old + 250 \<le> unat new"
  shows "\<not> new < old + min_replacement_diff"
proof -
  have "unat new < 2 ^ 32" by (rule less_le_trans [OF unsigned_less]) simp
  with assms have "unat (old + min_replacement_diff) = unat old + 250" by (simp add: unat_word_ariths)
  with assms show ?thesis by (simp add: word_less_nat_alt)
qed

text \<open>The fee of a replacement at a rate higher by 250 is higher by a quarter of the weight.\<close>

lemma fee_step: "a + 250 \<le> b \<Longrightarrow> (wu * a + 999) div 1000 + wu div 4 \<le> (wu * b + 999) div (1000 :: nat)"
proof -
  assume "a + 250 \<le> b"
  then have "wu * (a + 250) \<le> wu * b" by (rule mult_left_mono) simp
  then have "wu * a + 999 + 1000 * (wu div 4) \<le> wu * b + 999"
    using div_times_less_eq_dividend [of wu 4] by (simp add: algebra_simps)
  then have "(wu * a + 999 + 1000 * (wu div 4)) div 1000 \<le> (wu * b + 999) div 1000" by (rule div_le_mono)
  then show ?thesis by simp
qed

text \<open>C24: when the fee estimate for a recorded claim is higher than its fee rate by 250 sat/kw or more,
  a recheck that succeeds has broadcast a replacement that spends the same outputs to the same
  address and pays at least one satoshi more for every virtual byte than the recorded transaction,
  which is what nodes require of a replacement.\<close>

theorem recheck_replaces:
  assumes "recheck_claim cm h c claimables w = (Inr u, w')"
    and "min_blocks_left claimables h = Some b" and "cm_fee_estimator cm b w = (Inr fee, w1)"
    and "unat (cl_fee_per_kw c) + 250 \<le> unat (sat_per_kw fee)"
  defines "cs \<equiv> cm_claim_service cm"
  defines "weight \<equiv> \<lambda>h. claim_weight (sv_crypto (cs_swap_service cs))
     (sort_key (txo_outpoint \<circ> cu_utxo) claimables) (ucast (h :: u64)) (address_script (cs_lib cs) (cl_destination c))"
  assumes "create_claim_tx (cs_swap_service cs) (cs_lib cs) claimables \<lparr>sat_per_kw = cl_fee_per_kw c\<rparr> h0
      (cl_destination c) v = (Inr (cl_tx c), v')"
    and "(\<Sum>c\<leftarrow>claimables. unat (claim_value c)) < 2 ^ 64" and "length claimables < 2 ^ 32"
    and "weight h0 = weight h" and "weight h * unat (sat_per_kw fee) < 2 ^ 64"
    and "0 < dust_limit_sat (cs_swap_service cs)"
  shows "\<exists>tx w2 w3 old new. broadcast_tx (cs_chain_client cs) tx w2 = (Inr (), w3) \<and>
    map previous_output (tx_input tx) = claim_inputs c \<and>
    tx_output (cl_tx c) = [old] \<and> tx_output tx = [new] \<and> txo_script new = txo_script old \<and>
    unat (txo_value new) + weight h div 4 \<le> unat (txo_value old)"
proof -
  let ?total = "\<Sum>c\<leftarrow>claimables. unat (claim_value c)"
  obtain tx where "claim_outputs cs claimables fee h (cl_destination c) (cl_auto_bump c) w1 = (Inr tx, w')"
    using assms(1-3) replacement_not_wrapped [OF assms(4)]
    by (auto simp: recheck_claim_def run_Inr cs_def of_option_def)
  then obtain w2 w3 where
    tx: "create_claim_tx (cs_swap_service cs) (cs_lib cs) claimables fee h (cl_destination c) w1 = (Inr tx, w2)"
    and sent: "broadcast_tx (cs_chain_client cs) tx w2 = (Inr (), w3)"
    by (rule claim_outputs_Inr)
  have rate: "weight h0 * unat (cl_fee_per_kw c) < 2 ^ 64"
  proof -
    have "weight h * unat (cl_fee_per_kw c) \<le> weight h * unat (sat_per_kw fee)" using assms(4) by simp
    then show ?thesis unfolding assms(10) using assms(11) by (rule le_less_trans)
  qed
  from claim_tx_shape [OF assms(7)] obtain old where old: "tx_output (cl_tx c) = [old]"
    "txo_script old = address_script (cs_lib cs) (cl_destination c)"
    "claim_inputs c = map (txo_outpoint \<circ> cu_utxo) (sort_key (txo_outpoint \<circ> cu_utxo) claimables)"
    by (auto simp: claim_inputs_def)
  from claim_tx_shape [OF tx] obtain new where new: "tx_output tx = [new]"
    "txo_script new = address_script (cs_lib cs) (cl_destination c)" "dust_limit_sat (cs_swap_service cs) \<le> txo_value new"
    "map previous_output (tx_input tx) = map (txo_outpoint \<circ> cu_utxo) (sort_key (txo_outpoint \<circ> cu_utxo) claimables)"
    by auto
  have "unat (txo_value old) = ?total - (weight h * unat (cl_fee_per_kw c) + 999) div 1000"
    using claim_tx_value [OF assms(7) assms(8,9)] rate old(1) assms(10) by (simp add: weight_def)
  moreover have "unat (txo_value new) = ?total - (weight h * unat (sat_per_kw fee) + 999) div 1000"
    using claim_tx_value [OF tx assms(8,9)] assms(11) new(1) by (simp add: weight_def)
  moreover have "0 < unat (txo_value new)" using new(3) assms(12) by (simp add: word_le_nat_alt word_less_nat_alt)
  ultimately have "unat (txo_value new) + weight h div 4 \<le> unat (txo_value old)"
    using fee_step [OF assms(4), of "weight h"] by linarith
  with sent old new show ?thesis by metis
qed

section \<open>Concrete rounds\<close>

definition ex_chain_client :: "unit chain_client" where
  "ex_chain_client =
     \<lparr>broadcast_tx = (\<lambda>tx. ret ()), get_blockheight = ret 109, get_tip_hash = ret 1,
      get_block = (\<lambda>h. fail BlockNotFound), get_block_header = (\<lambda>h. fail BlockNotFound),
      get_sender_addresses = (\<lambda>ps. ret []), get_transaction = (\<lambda>t. fail BlockNotFound)\<rparr>"

definition ex_watching :: "unit chain_repository" where
  "ex_watching =
     \<lparr>add_block = (\<lambda>b us ts. ret ts), add_watch_address = (\<lambda>a. ret ()), filter_watch_addresses = ret,
      get_block_headers = ret [], get_tip = ret None, get_txos_for_address = (\<lambda>a. ret []),
      get_txos_for_address_with_spends = (\<lambda>a. ret []), get_utxos = ret [], undo_block = (\<lambda>h. ret ())\<rparr>"

definition ex_claim_service :: "unit swap_repository \<Rightarrow> unit claim_service" where
  "ex_claim_service repo =
     \<lparr>cs_chain_client = ex_chain_client, cs_chain_repository = ex_watching,
      cs_claim_repository = \<lparr>add_claim = (\<lambda>c. ret ()), get_claims = (\<lambda>ps. ret [])\<rparr>,
      cs_swap_repository = repo, cs_swap_service = ex_service, cs_lib = ex_bitcoin_lib, cs_now = (\<lambda>_. 7)\<rparr>"

definition ex_claim_monitor :: "unit swap_repository \<Rightarrow> unit claim_monitor" where
  "ex_claim_monitor repo =
     \<lparr>cm_chain_client = ex_chain_client, cm_fee_estimator = (\<lambda>b. ret \<lparr>sat_per_kw = 503\<rparr>), cm_poll_interval = 60,
      cm_claim_repository = cs_claim_repository (ex_claim_service repo), cm_claim_service = ex_claim_service repo,
      cm_wallet = ret ''d'', cm_keys = (\<lambda>m. sorted_list_of_set (dom m)), cm_members = sorted_list_of_set,
      cm_schedule = id\<rparr>"

lemma ex_create_claim:
  "\<exists>tx. create_claim_tx ex_service ex_bitcoin_lib [ex_claimable, ex_claimable2] \<lparr>sat_per_kw = f\<rparr> 109 ''d'' () = (Inr tx, ())"
  if "f = 253 \<or> f = 503"
  using that unfolding create_claim_tx_def Let_def ex_sorted
  by (elim disjE; simp add: seq_def map_err_def of_option_def lock_time_from_height_def checked_add_def
        unsigned_claim_tx_def claim_total_def ex_claimable_def ex_claimable2_def ex_service_def
        ex_crypto_def ex_bitcoin_lib_def saturating_sub_def div_ceil_def claim_witness_def
        taproot_spend_info_def key_agg_cache_def bind_res_def ex_swap_def Let_def)

lemmas ex_monitor_defs = ex_claim_monitor_def ex_claim_service_def ex_chain_client_def ex_watching_def

lemma ex_claim_outputs:
  "\<exists>tx. claim_outputs (ex_claim_service repo) [ex_claimable, ex_claimable2] \<lparr>sat_per_kw = 503\<rparr> 109 ''d'' bump () = (Inr tx, ())"
  using ex_create_claim [of 503] by (auto simp: claim_outputs_def ex_monitor_defs seq_def map_err_def)

lemma ex_min_blocks: "\<exists>b. min_blocks_left [ex_claimable, ex_claimable2] 109 = Some b"
  by simp

lemma fresh_claim_sent_witness:
  "\<forall>repo. claim_fresh (ex_claim_monitor repo) 109 [ex_claimable, ex_claimable2] () = (Inr (), ()) \<and>
   (\<exists>tx fee dest. create_claim_tx ex_service ex_bitcoin_lib [ex_claimable, ex_claimable2] fee 109 dest () = (Inr tx, ()) \<and>
     map previous_output (tx_input tx) = [OutPoint 3 1, OutPoint 7 0])" (is "\<forall>repo. ?P repo")
proof
  fix repo
  have run: "claim_fresh (ex_claim_monitor repo) 109 [ex_claimable, ex_claimable2] () = (Inr (), ())"
    using ex_claim_outputs [of repo True] by (auto simp: claim_fresh_def seq_def map_err_def attempt_def of_option_def ex_claim_monitor_def)
  have sel: "cs_swap_service (cm_claim_service (ex_claim_monitor repo)) = ex_service"
    "cs_lib (cm_claim_service (ex_claim_monitor repo)) = ex_bitcoin_lib"
    by (simp_all add: ex_claim_monitor_def ex_claim_service_def)
  have "sort (map cu_outpoint [ex_claimable, ex_claimable2]) = [OutPoint 3 1, OutPoint 7 0]"
    by (simp add: ex_claimable_def ex_claimable2_def less_eq_outpoint_def)
  with fresh_claim_sent [OF run, unfolded sel] run show "?P repo" by (metis old.unit.exhaust)
qed

lemma ex_iterates: "iterates sorted_list_of_set"
  by (simp add: iterates_def)

lemma ex_claimable_map: "claimable_map [ex_claimable] = [OutPoint 7 0 \<mapsto> ex_claimable]"
  by (simp add: claimable_map_def ex_claimable_def fun_eq_iff)

lemma claim_plan_partition_witness:
  "\<exists>jobs. plan_jobs sorted_list_of_set (claimable_map [ex_claimable]) [OutPoint 7 0] [] = Some jobs \<and>
     set (concat (map fresh_of jobs)) = {c \<in> {ex_claimable}. paid_with_request c \<noteq> None}"
proof -
  have "set [OutPoint 7 0] = dom (claimable_map [ex_claimable])" by (simp add: ex_claimable_map)
  from claim_plan_partition [OF this ex_iterates, of "[]"] show ?thesis
    by (auto simp: ex_claimable_map in_progress_def)
qed

lemma recorded_claim_is_rechecked_witness:
  "\<exists>s jobs cs. pg_add_claim ex_claim_cfg ex_claim (ex_claim_db False) = (Inr (), s) \<and>
     Recheck ex_claim cs \<in> set jobs \<and> map cu_outpoint cs = [OutPoint 7 0]"
proof -
  let ?s = "snd (pg_add_claim ex_claim_cfg ex_claim (ex_claim_db False))"
  obtain cs t where cs: "pg_get_claims ex_claim_cfg [OutPoint 7 0] ?s = (Inr cs, t)" using ex_get_claims by blast
  have add: "pg_add_claim ex_claim_cfg ex_claim (ex_claim_db False) = (Inr (), ?s)" by (simp add: ex_add_claim)
  have later: "claims_later ex_claim_cfg [] (ex_two_outputs False) ?s ?s"
    unfolding ex_add_claim by (simp add: claims_later_def claim_effect_def insert_claim_inputs_def ex_claim_db_def)
  have dom: "set [OutPoint 7 0] = dom (claimable_map [ex_claimable])" by (simp add: ex_claimable_map)
  have spent: "spent_tx_ids (pg_data ?s) = {}" unfolding ex_add_claim by (simp add: ex_spent ex_spent_effect)
  from recorded_claim_is_rechecked [OF add ex_claim_storable later _ _ cs dom ex_iterates]
  have "\<exists>jobs cs. Recheck (whole_seconds ex_claim) cs \<in> set jobs \<and> map cu_outpoint cs = [OutPoint 7 0]"
    unfolding spent by (fastforce simp: ex_claim_def ex_claim_tx_def claim_inputs_def ex_claimable_map)
  moreover have "whole_seconds ex_claim = ex_claim" by (simp add: whole_seconds_def ex_claim_def)
  ultimately show ?thesis using add by metis
qed

lemma recheck_replaces_witness:
  "\<forall>repo. \<exists>c old new. tx_output (cl_tx c) = [old] \<and> cl_fee_per_kw c = 253 \<and>
     recheck_claim (ex_claim_monitor repo) 109 c [ex_claimable, ex_claimable2] () = (Inr (), ()) \<and>
     unat (txo_value (new :: tx_out)) + 211 \<le> unat (txo_value old)" (is "\<forall>repo. ?P repo")
proof
  fix repo
  obtain tx where tx: "create_claim_tx ex_service ex_bitcoin_lib [ex_claimable, ex_claimable2] \<lparr>sat_per_kw = 253\<rparr> 109 ''d'' () = (Inr tx, ())"
    using ex_create_claim [of 253] by auto
  define c where "c = \<lparr>cl_creation_time = 7, cl_tx = tx, cl_destination = ''d'', cl_fee_per_kw = 253, cl_auto_bump = True\<rparr>"
  have run: "recheck_claim (ex_claim_monitor repo) 109 c [ex_claimable, ex_claimable2] () = (Inr (), ())"
    using ex_claim_outputs [of repo True]
    by (auto simp: recheck_claim_def c_def ex_claim_monitor_def seq_def map_err_def of_option_def)
  obtain b where b: "min_blocks_left [ex_claimable, ex_claimable2] 109 = Some b" using ex_min_blocks by blast
  have "claim_weight (sv_crypto (ex_service :: unit swap_service)) [ex_claimable2, ex_claimable] 109 (address_script ex_bitcoin_lib ''d'') = 844"
    by (simp add: claim_weight_def ex_service_def ex_crypto_def)
  moreover have sel: "cs_swap_service (cm_claim_service (ex_claim_monitor repo)) = ex_service"
    "cs_lib (cm_claim_service (ex_claim_monitor repo)) = ex_bitcoin_lib"
    by (simp_all add: ex_claim_monitor_def ex_claim_service_def)
  moreover have "cm_fee_estimator (ex_claim_monitor repo) b () = (Inr \<lparr>sat_per_kw = 503\<rparr>, ())"
    "unat (cl_fee_per_kw c) + 250 \<le> unat (sat_per_kw \<lparr>sat_per_kw = 503\<rparr>)" "0 < dust_limit_sat (ex_service :: unit swap_service)"
    "(\<Sum>c\<leftarrow>[ex_claimable, ex_claimable2]. unat (claim_value c)) < 2 ^ 64" "length [ex_claimable, ex_claimable2] < 2 ^ 32"
    by (simp_all add: ex_claim_monitor_def c_def ex_service_def claim_value_def ex_claimable_def ex_claimable2_def)
  moreover have "create_claim_tx ex_service ex_bitcoin_lib [ex_claimable, ex_claimable2] \<lparr>sat_per_kw = cl_fee_per_kw c\<rparr> 109
      (cl_destination c) () = (Inr (cl_tx c), ())" "cl_destination c = ''d''" using tx by (simp_all add: c_def)
  ultimately have "\<exists>old new. tx_output (cl_tx c) = [old] \<and> unat (txo_value (new :: tx_out)) + 211 \<le> unat (txo_value old)"
    using recheck_replaces [OF run b, of "\<lparr>sat_per_kw = 503\<rparr>" "()" 109 "()" "()", unfolded ex_sorted sel]
    by (simp del: sum_list.Cons) blast
  with run show "?P repo" unfolding c_def by force
qed

end
