(* ===== verification/Deposit_Flow.thy ===== *)
theory Deposit_Flow
  imports Chain_Monitor Claim_Service Public_Server
begin

text \<open>
  The way of a deposit through the components: the public server watches the address of a new swap,
  the chain monitor finds the deposit in a block and records it, the claim service lists it once the
  preimage is known, and after the claim the chain monitor sees it spent. The components share the
  database; the state is the chain tables, the swap tables, and whatever else there is.

  The proofs go through what a block does to the tables (\<open>block_effect\<close>) and what the queries make
  of them, with the block's outputs and inputs as sets.
\<close>

section \<open>What the monitor takes from a block\<close>

text \<open>
  In a block as consensus allows it, transactions have different ids, and fewer outputs and inputs
  than an index of 32 bits can tell apart.
\<close>

definition sound_block :: "bitcoin_lib \<Rightarrow> block \<Rightarrow> bool" where
  "sound_block lib blk \<longleftrightarrow>
     inj_on (compute_txid lib) (set (txdata blk)) \<and>
     list_all (\<lambda>tx. length (tx_output tx) < 2 ^ 32 \<and> length (tx_input tx) < 2 ^ 32) (txdata blk)"

definition block_outputs :: "bitcoin_lib \<Rightarrow> network \<Rightarrow> block \<Rightarrow> (address \<times> outpoint \<times> tx_out) list" where
  "block_outputs lib net blk = concat (map (tx_outputs_of lib net) (txdata blk))"

definition block_spends :: "bitcoin_lib \<Rightarrow> block \<Rightarrow> spent_txo list" where
  "block_spends lib blk = concat (map (tx_spends_of lib) (txdata blk))"

definition header_of :: "bitcoin_lib \<Rightarrow> u64 \<Rightarrow> block \<Rightarrow> block_header" where
  "header_of lib h blk = \<lparr>bh_hash = compute_block_hash lib blk, bh_height = h, bh_prev = prev_blockhash blk\<rparr>"

definition found_outputs :: "bitcoin_lib \<Rightarrow> network \<Rightarrow> u64 \<Rightarrow> block \<Rightarrow> address list \<Rightarrow> address_utxo list" where
  "found_outputs lib net h blk watched =
     watch_utxos (compute_block_hash lib blk) h (Chain_Monitor.grouped (block_outputs lib net blk))
       (filter (\<lambda>a. a \<in> set (map fst (block_outputs lib net blk))) watched)"

lemma process_block_run:
  assumes "pg_faults s = []" and "canonical cfg (pg_data s)" and "bip34_block_height lib blk = Some h"
  shows "process_block (pg_monitor lib net cl cfg) blk (s, n) =
    (Inr (), (s\<lparr>pg_data := block_effect (header_of lib h blk)
        (found_outputs lib net h blk (db_watch (pg_data s))) (block_spends lib blk) (pg_data s)\<rparr>, n))"
  using assms
  by (simp add: process_block_def Let_def pg_monitor_def lift_repository_def pg_chain_repository_def on_fst_def
      filter_canonical pg_add_block_no_fault scan_block_correct of_option_def seq_def map_err_def
      header_of_def found_outputs_def block_outputs_def block_spends_def)

text \<open>The lists the loops fill, as sets.\<close>

lemma in_tx_outputs:
  "(a, p, out) \<in> set (tx_outputs_of lib net tx) \<longleftrightarrow>
     (\<exists>i<length (tx_output tx). out = tx_output tx ! i \<and> p = OutPoint (compute_txid lib tx) (word_of_nat i) \<and>
       address_from_script lib net (txo_script out) = Some a)"
  by (auto simp: tx_outputs_of_def set_map_filter set_enumerate)

lemma grouped_Some: "Chain_Monitor.grouped kvs a = Some l \<longleftrightarrow> a \<in> fst ` set kvs \<and> l = map snd (filter (\<lambda>kv. fst kv = a) kvs)"
  by (auto simp: Chain_Monitor.grouped_def)

lemma in_concat_map_filter:
  "u \<in> set (concat (List.map_filter (\<lambda>a. map_option (map (F a)) (g a)) as)) \<longleftrightarrow>
     (\<exists>a\<in>set as. \<exists>l. g a = Some l \<and> u \<in> F a ` set l)"
  by (induction as) (auto simp: List.map_filter_simps split: option.split)

lemma grouped_image:
  "(\<exists>l. Chain_Monitor.grouped kvs a = Some l \<and> u \<in> f ` set l) \<longleftrightarrow> (\<exists>v. (a, v) \<in> set kvs \<and> u = f v)"
  unfolding grouped_Some by (auto simp: image_iff) force+

lemma in_watch_utxos:
  "u \<in> set (watch_utxos b h (Chain_Monitor.grouped kvs) as) \<longleftrightarrow>
     (\<exists>a p out. a \<in> set as \<and> (a, p, out) \<in> set kvs \<and>
       u = \<lparr>au_address = a, au_utxo = \<lparr>txo_block_hash = b, txo_block_height = h, txo_outpoint = p, txo_tx_out = out\<rparr>\<rparr>)"
  unfolding watch_utxos_def in_concat_map_filter grouped_image by (simp add: Bex_def)

lemma in_found_outputs:
  "u \<in> set (found_outputs lib net h blk watched) \<longleftrightarrow>
     (\<exists>a p out. a \<in> set watched \<and> (a, p, out) \<in> set (block_outputs lib net blk) \<and>
       u = \<lparr>au_address = a, au_utxo = \<lparr>txo_block_hash = compute_block_hash lib blk, txo_block_height = h,
         txo_outpoint = p, txo_tx_out = out\<rparr>\<rparr>)"
  unfolding found_outputs_def in_watch_utxos by force

lemma in_block_spends:
  "x \<in> set (block_spends lib blk) \<longleftrightarrow>
     (\<exists>tx\<in>set (txdata blk). \<exists>k<length (tx_input tx).
        x = \<lparr>st_outpoint = previous_output (tx_input tx ! k), st_spending_tx = compute_txid lib tx,
             st_spending_input_index = word_of_nat k\<rparr>)"
  by (simp add: block_spends_def tx_spends_of_def set_enumerate image_image) blast

section \<open>A deposit in a block\<close>

text \<open>The output of a transaction of the block as the monitor reports it, and that it pays the address.\<close>

definition deposit_of :: "bitcoin_lib \<Rightarrow> u64 \<Rightarrow> block \<Rightarrow> transaction \<Rightarrow> nat \<Rightarrow> address \<Rightarrow> address_utxo" where
  "deposit_of lib h blk tx i a =
     \<lparr>au_address = a, au_utxo =
       \<lparr>txo_block_hash = compute_block_hash lib blk, txo_block_height = h,
        txo_outpoint = OutPoint (compute_txid lib tx) (word_of_nat i), txo_tx_out = tx_output tx ! i\<rparr>\<rparr>"

definition pays :: "bitcoin_lib \<Rightarrow> network \<Rightarrow> block \<Rightarrow> transaction \<Rightarrow> nat \<Rightarrow> address \<Rightarrow> bool" where
  "pays lib net blk tx i a \<longleftrightarrow>
     tx \<in> set (txdata blk) \<and> i < length (tx_output tx) \<and>
     address_from_script lib net (txo_script (tx_output tx ! i)) = Some a"

lemma sound_output_inj:
  assumes "sound_block lib blk" and "tx \<in> set (txdata blk)" "i < length (tx_output tx)"
    and "tx' \<in> set (txdata blk)" "j < length (tx_output tx')"
    and "compute_txid lib tx' = compute_txid lib tx" and "(word_of_nat j :: u32) = word_of_nat i"
  shows "tx' = tx \<and> j = i"
proof -
  have "tx' = tx" using assms by (auto simp: sound_block_def inj_on_def)
  moreover have "length (tx_output tx) < 2 ^ 32" using assms(1,2) by (simp add: sound_block_def list_all_iff)
  ultimately have "i < 2 ^ 32" "j < 2 ^ 32" using assms(3,5) by simp_all
  with assms(7) have "j = i" by (simp add: word_of_nat_inj_u32)
  with \<open>tx' = tx\<close> show ?thesis by simp
qed

lemma found_deposit:
  assumes "pays lib net blk tx i a" and "a \<in> set watched"
  shows "deposit_of lib h blk tx i a \<in> set (found_outputs lib net h blk watched)"
  using assms
  by (auto simp: in_found_outputs deposit_of_def block_outputs_def in_tx_outputs pays_def)

lemma found_unique:
  assumes "sound_block lib blk" and "pays lib net blk tx i a"
    and "u \<in> set (found_outputs lib net h blk watched)"
    and "output_key (output_row u) = output_key (output_row (deposit_of lib h blk tx i a))"
  shows "u = deposit_of lib h blk tx i a"
proof -
  obtain tx' j b where tx': "tx' \<in> set (txdata blk)" "j < length (tx_output tx')"
    "address_from_script lib net (txo_script (tx_output tx' ! j)) = Some b"
    and u: "u = deposit_of lib h blk tx' j b"
    using assms(3) by (auto simp: in_found_outputs block_outputs_def in_tx_outputs deposit_of_def)
  have "compute_txid lib tx' = compute_txid lib tx" "(word_of_nat j :: u32) = word_of_nat i"
    using assms(4) u by (auto simp: output_key_def output_row_def deposit_of_def ucast_u32_inj)
  with sound_output_inj [OF assms(1) _ _ tx'(1,2)] assms(2) have "tx' = tx" "j = i"
    by (auto simp: pays_def)
  with u tx' assms(2) show ?thesis by (simp add: pays_def)
qed

lemma deposit_in_block:
  assumes "pg_faults s = []" and "canonical cfg (pg_data s)" and "chain_db_inv (pg_data s)"
    and "a \<in> set (db_watch (pg_data s))" and "bip34_block_height lib blk = Some h" and "sound_block lib blk"
    and "pays lib net blk tx i a"
    and "agrees (pg_data s) (header_of lib h blk) (output_row (deposit_of lib h blk tx i a))"
    and "OutPoint (compute_txid lib tx) (word_of_nat i) \<notin> previous_output ` (\<Union>t\<in>set (txdata blk). set (tx_input t))"
  shows "\<exists>s' us. process_block (pg_monitor lib net cl cfg) blk (s, n) = (Inr (), (s', n)) \<and>
    pg_get_utxos cfg s' = (Inr us, s') \<and>
    \<lparr>au_address = a, au_utxo = \<lparr>txo_block_hash = compute_block_hash lib blk, txo_block_height = h,
       txo_outpoint = OutPoint (compute_txid lib tx) (word_of_nat i),
       txo_tx_out = \<lparr>txo_value = txo_value (tx_output tx ! i), txo_script = address_script (cr_lib cfg) a\<rparr>\<rparr>\<rparr> \<in> set us"
proof -
  let ?u = "deposit_of lib h blk tx i a" and ?b = "header_of lib h blk"
  let ?os = "found_outputs lib net h blk (db_watch (pg_data s))" and ?is = "block_spends lib blk"
  let ?s' = "s\<lparr>pg_data := block_effect ?b ?os ?is (pg_data s)\<rparr>"
  have found: "(output_row ?u, ?b) \<in> set (unspent_outputs (block_effect ?b ?os ?is (pg_data s)))"
  proof (rule unspent_after_block [OF found_deposit [OF assms(7,4)] _ _ assms(8)])
    show "output_row v = output_row ?u" if "v \<in> set ?os" "output_key (output_row v) = output_key (output_row ?u)" for v
      using found_unique [OF assms(6,7) that] by simp
    show "spent_key (input_row x) \<noteq> output_key (output_row ?u)" if x: "x \<in> set ?is" for x
    proof -
      obtain t k where "t \<in> set (txdata blk)" "k < length (tx_input t)" "st_outpoint x = previous_output (tx_input t ! k)"
        using x by (auto simp: in_block_spends)
      with assms(9) have "st_outpoint x \<noteq> OutPoint (compute_txid lib tx) (word_of_nat i)" by (force simp: image_iff)
      then show ?thesis
        by (cases "st_outpoint x") (auto simp: spent_key_def output_key_def input_row_def output_row_def deposit_of_def ucast_u32_inj)
    qed
  qed (use assms(4) in \<open>simp add: deposit_of_def\<close>)
  have "canonical cfg (pg_data ?s')" using assms(2) by (simp add: canonical_def block_effect_def)
  then obtain us where us: "pg_get_utxos cfg ?s' = (Inr us, ?s')"
    "set us = (\<lambda>(r, b). \<lparr>au_address = o_address r, au_utxo = map_txo cfg (o_address r) (r, b)\<rparr>) ` set (unspent_outputs (pg_data ?s'))"
    by (rule in_get_utxos [rotated]) (simp_all add: assms(1,3) chain_db_inv_block_effect)
  have "(\<lambda>(r, b). \<lparr>au_address = o_address r, au_utxo = map_txo cfg (o_address r) (r, b)\<rparr>) (output_row ?u, ?b) \<in> set us"
    unfolding us(2) by (rule imageI) (simp add: found)
  then show ?thesis
    using process_block_run [OF assms(1,2,5), of net cl n] us(1)
    by (auto simp: deposit_of_def output_row_def header_of_def map_txo_def)
qed

section \<open>From the creation of a swap to its deposit\<close>

lemma created_swap_watched:
  assumes "create_swap_handler srv req_key req_hash w = (Inr resp, w')"
    and "srv_chain_repository srv = lift_repository (pg_chain_repository cfg)"
    and "\<And>k v. fst (snd (srv_fee_estimator srv k v)) = fst v"
  shows "csr_address resp \<in> set (db_watch (pg_data (fst w')))"
proof -
  obtain a w1 params where a: "add_watch_address (srv_chain_repository srv) a w1 = (Inr (), params)"
      "fst w' = fst params" "csr_address resp = a"
    using assms(1) assms(3) [of 12]
    by (auto simp: create_swap_handler_def get_swap_parameters_def run_Inr Let_def) (metis fst_conv snd_conv)
  then show ?thesis
    using assms(2) by (auto simp: lift_repository_def pg_chain_repository_def on_fst_eq dest: add_watch_Inr)
qed

text \<open>C9: once the server has answered a request to create a swap, a block that pays the address of the
  answer makes the deposit one of the unspent outputs of that address, with its outpoint, its value
  and the block that confirms it, whatever the chain repository was asked in between and whatever
  else the block holds, as long as it does not spend the deposit itself.\<close>

theorem created_swap_deposit_found:
  assumes "create_swap_handler srv req_key req_hash w = (Inr resp, (s0, n0))"
    and "srv_chain_repository srv = lift_repository (pg_chain_repository cfg)"
    and "\<And>k v. fst (snd (srv_fee_estimator srv k v)) = fst v"
    and "chain_db_inv (pg_data s0)"
    and "s = fold (run_chain_call cfg) calls s0"
    and "pg_faults s = []" and "canonical cfg (pg_data s)" and "sound_block lib blk"
    and "bip34_block_height lib blk = Some h" and "pays lib net blk tx i (csr_address resp)"
    and "agrees (pg_data s) (header_of lib h blk) (output_row (deposit_of lib h blk tx i (csr_address resp)))"
    and "OutPoint (compute_txid lib tx) (word_of_nat i) \<notin> previous_output ` (\<Union>t\<in>set (txdata blk). set (tx_input t))"
  shows "\<exists>s' us. process_block (pg_monitor lib net cl cfg) blk (s, n) = (Inr (), (s', n)) \<and>
    pg_get_utxos cfg s' = (Inr us, s') \<and>
    \<lparr>au_address = csr_address resp, au_utxo =
      \<lparr>txo_block_hash = compute_block_hash lib blk, txo_block_height = h,
       txo_outpoint = OutPoint (compute_txid lib tx) (word_of_nat i),
       txo_tx_out = \<lparr>txo_value = txo_value (tx_output tx ! i),
         txo_script = address_script (cr_lib cfg) (csr_address resp)\<rparr>\<rparr>\<rparr> \<in> set us"
proof (rule deposit_in_block)
  show "csr_address resp \<in> set (db_watch (pg_data s))"
    using created_swap_watched [OF assms(1-3)] watch_grows_calls [of s0 cfg calls] by (auto simp: assms(5))
  show "chain_db_inv (pg_data s)" unfolding assms(5) by (rule chain_db_inv_calls) (rule assms(4))
qed (use assms in simp_all)

section \<open>What can be claimed\<close>

text \<open>A claim service on the tables of the database.\<close>

definition claims_on_pg ::
    "chain_repo_cfg \<Rightarrow> swap_repo_cfg \<Rightarrow> (chain_db pg \<times> swap_db pg \<times> 'n) claim_service \<Rightarrow> bool" where
  "claims_on_pg cfg scfg cs \<longleftrightarrow>
     cs_chain_repository cs = lift_repository (pg_chain_repository cfg) \<and>
     get_swaps_with_paid_outpoints (cs_swap_repository cs) =
       (\<lambda>as. on_snd (on_fst (pg_get_swaps_with_paid_outpoints scfg as)))"

text \<open>
  The claimable output that an unspent output of a swap's address makes: the swap has its preimage
  stored, and the payment request is the one of the first successful payment that recorded the
  outpoint, if there is one.
\<close>

definition claimable_deposit :: "swap_repo_cfg \<Rightarrow> swap_db \<Rightarrow> address_utxo \<Rightarrow> claimable_utxo \<Rightarrow> bool" where
  "claimable_deposit cfg d u c \<longleftrightarrow> (\<exists>r\<in>set (db_swaps d). \<exists>st p.
     sr_address r = au_address u \<and> map_swap_state cfg r = Inr st \<and> ss_preimage st = Some p \<and>
     c = \<lparr>cu_swap = ss_swap st, cu_utxo = au_utxo u,
       paid_with_request = map_option po_payment_request
         (find (\<lambda>po. po_outpoint po = txo_outpoint (au_utxo u)) (map paid_outpoint_of (paid_rows d (sr_payment_hash r)))),
       cu_preimage = p\<rparr>)"

lemma claimable_deposit_utxo: "claimable_deposit cfg d u c \<Longrightarrow> cu_utxo c = au_utxo u"
  by (auto simp: claimable_deposit_def)

lemma list_claimable_run:
  assumes "claims_on_pg cfg scfg cs" and "pg_get_utxos cfg s = (Inr us, s)"
    and "pg_faults t = []" and "swaps_canonical scfg (pg_data t)"
  shows "\<exists>cl. list_claimable cs (s, t, n) = (Inr cl, (s, t, n)) \<and>
    (\<forall>c. c \<in> set cl \<longleftrightarrow> (\<exists>u\<in>set us. claimable_deposit scfg (pg_data t) u c))"
proof -
  obtain m where m: "pg_get_swaps_with_paid_outpoints scfg (map au_address us) t = (Inr m, t)"
    "\<And>a e. m a = Some e \<longleftrightarrow> a \<in> set (map au_address us) \<and> (\<exists>r\<in>set (db_swaps (pg_data t)). sr_address r = a \<and> paid_state scfg (pg_data t) r = Inr e)"
    using pg_get_swaps_paid_run [OF assms(3,4), of "map au_address us"] by blast
  have "list_claimable cs (s, t, n) = (Inr (List.map_filter (claimable_of m) us), (s, t, n))"
    using assms(1,2) m(1)
    by (simp add: list_claimable_def claims_on_pg_def lift_repository_def pg_chain_repository_def on_fst_def on_snd_def seq_def map_err_def Let_def)
  moreover have "claimable_of m u = Some c \<longleftrightarrow> claimable_deposit scfg (pg_data t) u c" if "u \<in> set us" for u c
  proof -
    have paid: "m (au_address u) = Some e \<longleftrightarrow> (\<exists>r\<in>set (db_swaps (pg_data t)). sr_address r = au_address u \<and>
       (\<exists>st. map_swap_state scfg r = Inr st \<and> e =
          \<lparr>spo_swap_state = st, spo_paid_outpoints = map paid_outpoint_of (paid_rows (pg_data t) (sr_payment_hash r))\<rparr>))" for e
      using that by (auto simp: m(2) paid_state_def bind_res_Inr)
    have "claimable_of m u = Some c \<longleftrightarrow> (\<exists>e p. m (au_address u) = Some e \<and> ss_preimage (spo_swap_state e) = Some p \<and>
       c = \<lparr>cu_swap = ss_swap (spo_swap_state e), cu_utxo = au_utxo u,
         paid_with_request = map_option po_payment_request
           (find (\<lambda>po. po_outpoint po = txo_outpoint (au_utxo u)) (spo_paid_outpoints e)),
         cu_preimage = p\<rparr>)"
      by (auto simp: claimable_of_def split: option.splits)
    also have "\<dots> \<longleftrightarrow> claimable_deposit scfg (pg_data t) u c" unfolding paid claimable_deposit_def by force
    finally show ?thesis .
  qed
  ultimately show ?thesis by (auto simp: set_map_filter)
qed

text \<open>C10: what the claim service lists as claimable is exactly: the unspent outputs of the addresses of
  swaps whose preimage is stored, each with its swap, its preimage, and the payment request of the
  first successful payment that recorded the outpoint.\<close>

theorem claimables_are_unspent_deposits:
  assumes "claims_on_pg cfg scfg cs" and "pg_faults s = []" and "canonical cfg (pg_data s)" and "chain_db_inv (pg_data s)"
    and "pg_faults t = []" and "swaps_canonical scfg (pg_data t)"
  shows "\<exists>us cl. pg_get_utxos cfg s = (Inr us, s) \<and> list_claimable cs (s, t, n) = (Inr cl, (s, t, n)) \<and>
    (\<forall>c. c \<in> set cl \<longleftrightarrow> (\<exists>u\<in>set us. claimable_deposit scfg (pg_data t) u c))"
  using list_claimable_run [OF assms(1) get_utxos_canonical [OF assms(2-4)] assms(5,6)] get_utxos_canonical [OF assms(2-4)] by blast

section \<open>After the claim\<close>

lemma block_spend_unique:
  assumes "sound_block lib blk" and "x \<in> set (block_spends lib blk)" and "y \<in> set (block_spends lib blk)"
    and "input_key (input_row y) = input_key (input_row x)"
  shows "y = x"
proof -
  obtain tx k where x: "tx \<in> set (txdata blk)" "k < length (tx_input tx)"
    "x = \<lparr>st_outpoint = previous_output (tx_input tx ! k), st_spending_tx = compute_txid lib tx, st_spending_input_index = word_of_nat k\<rparr>"
    using assms(2) by (auto simp: in_block_spends)
  obtain tx' j where y: "tx' \<in> set (txdata blk)" "j < length (tx_input tx')"
    "y = \<lparr>st_outpoint = previous_output (tx_input tx' ! j), st_spending_tx = compute_txid lib tx', st_spending_input_index = word_of_nat j\<rparr>"
    using assms(3) by (auto simp: in_block_spends)
  have "tx' = tx" using assms(1,4) x(1) y(1) by (simp add: x(3) y(3) input_key_def input_row_def sound_block_def inj_on_def)
  moreover have "length (tx_input tx) < 2 ^ 32" using assms(1) x(1) by (simp add: sound_block_def list_all_iff)
  ultimately have "j = k" using assms(4) x(2) y(2)
    by (simp add: x(3) y(3) input_key_def input_row_def ucast_u32_inj word_of_nat_inj_u32)
  with \<open>tx' = tx\<close> show ?thesis by (simp add: x(3) y(3))
qed

text \<open>
  Inputs that are on record for the transaction, from a block that was undone say, are its own.
\<close>

definition recorded_as_spent_by :: "bitcoin_lib \<Rightarrow> transaction \<Rightarrow> chain_db \<Rightarrow> bool" where
  "recorded_as_spent_by lib tx d \<longleftrightarrow>
     list_all (\<lambda>q. i_spending_tx_id q = compute_txid lib tx \<longrightarrow> q \<in> input_row ` set (tx_spends_of lib tx)) (db_tx_inputs d)"

lemma spent_in_block:
  assumes "sound_block lib blk" and "tx \<in> set (txdata blk)" and "recorded_as_spent_by lib tx d"
    and "j < length (tx_output tx)" and "address_from_script lib net (txo_script (tx_output tx ! j)) = Some a"
    and "a \<in> set (db_watch d)" and "p \<in> previous_output ` set (tx_input tx)"
    and "(r, c) \<in> set (unspent_outputs (block_effect b (found_outputs lib net h blk (db_watch d)) (block_spends lib blk) d))"
  shows "output_key r \<noteq> (op_txid p, ucast (op_vout p))"
proof
  assume r: "output_key r = (op_txid p, ucast (op_vout p))"
  obtain k where k: "k < length (tx_input tx)" "p = previous_output (tx_input tx ! k)"
    using assms(7) by (auto simp: in_set_conv_nth)
  define x where "x = \<lparr>st_outpoint = p, st_spending_tx = compute_txid lib tx, st_spending_input_index = (word_of_nat k :: u32)\<rparr>"
  have x: "x \<in> set (block_spends lib blk)" using assms(2) k by (auto simp: in_block_spends x_def)
  have sub: "set (tx_spends_of lib tx) \<subseteq> set (block_spends lib blk)" using assms(2) by (auto simp: block_spends_def)
  have "r \<notin> fst ` set (unspent_outputs (block_effect b (found_outputs lib net h blk (db_watch d)) (block_spends lib blk) d))"
  proof (rule spent_after_block [OF x])
    show "deposit_of lib h blk tx j a \<in> set (found_outputs lib net h blk (db_watch d))"
      using assms(2,4-6) by (intro found_deposit) (simp_all add: pays_def)
    show "y = x" if "y \<in> set (block_spends lib blk)" "input_key (input_row y) = input_key (input_row x)" for y
      by (rule block_spend_unique [OF assms(1) x that])
    show "q = input_row x" if q: "q \<in> set (db_tx_inputs d)" "input_key q = input_key (input_row x)" for q
    proof -
      have "i_spending_tx_id q = compute_txid lib tx" using q(2) by (simp add: input_key_def input_row_def x_def)
      then obtain y where y: "q = input_row y" "y \<in> set (tx_spends_of lib tx)"
        using assms(3) q(1) by (auto simp: recorded_as_spent_by_def list_all_iff)
      with block_spend_unique [OF assms(1) x, of y] sub q(2) show ?thesis by auto
    qed
  qed (use assms(6) r in \<open>simp_all add: deposit_of_def x_def spent_key_def input_row_def\<close>)
  with assms(8) show False by force
qed

text \<open>C12: once the claim service has claimed some outputs and a block confirms the claim transaction,
  none of these outputs is listed as claimable any more: the wallet address the claim pays is
  watched from the moment of the claim, so the spend is seen, whatever the chain repository was asked
  in between.\<close>

theorem claimed_deposits_leave:
  assumes "claim_outputs cs claimables fee height dest bump w = (Inr tx, (s0, v0))"
    and "claims_on_pg cfg scfg cs" and "chain_db_inv (pg_data s0)"
    and "s = fold (run_chain_call cfg) calls s0" and "pg_faults s = []" and "canonical cfg (pg_data s)"
    and "sound_block lib blk" and "bip34_block_height lib blk = Some h" and "tx \<in> set (txdata blk)"
    and "address_from_script lib net (address_script (cs_lib cs) dest) = Some dest"
    and "recorded_as_spent_by lib tx (pg_data s)"
    and "pg_faults t = []" and "swaps_canonical scfg (pg_data t)"
  shows "\<exists>s' cl. process_block (pg_monitor lib net cl0 cfg) blk (s, t, n) = (Inr (), (s', t, n)) \<and>
    list_claimable cs (s', t, n) = (Inr cl, (s', t, n)) \<and>
    cu_outpoint ` set cl \<inter> cu_outpoint ` set claimables = {}"
proof -
  obtain out v3 where out: "tx_output tx = [out]" "txo_script out = address_script (cs_lib cs) dest"
      "map previous_output (tx_input tx) = sort (map cu_outpoint claimables)"
      "add_watch_address (cs_chain_repository cs) dest v3 = (Inr (), (s0, v0))"
    using claim_outputs_sent [OF assms(1)] by blast
  have "dest \<in> set (db_watch (pg_data s0))"
    using out(4) assms(2)
    by (auto simp: claims_on_pg_def lift_repository_def pg_chain_repository_def on_fst_eq dest: add_watch_Inr)
  then have dest: "dest \<in> set (db_watch (pg_data s))" using watch_grows_calls [of s0 cfg calls] assms(4) by auto
  have inputs: "previous_output ` set (tx_input tx) = cu_outpoint ` set claimables"
    using arg_cong [OF out(3), of set] by simp
  define d' where "d' = block_effect (header_of lib h blk) (found_outputs lib net h blk (db_watch (pg_data s)))
     (block_spends lib blk) (pg_data s)"
  define s' where "s' = s\<lparr>pg_data := d'\<rparr>"
  have run: "process_block (pg_monitor lib net cl0 cfg) blk (s, t, n) = (Inr (), (s', t, n))"
    unfolding s'_def d'_def by (rule process_block_run [OF assms(5,6,8)])
  have "chain_db_inv (pg_data s)" unfolding assms(4) by (rule chain_db_inv_calls) (rule assms(3))
  then have inv: "chain_db_inv (pg_data s')" by (simp add: s'_def d'_def chain_db_inv_block_effect)
  have ok: "pg_faults s' = []" "canonical cfg (pg_data s')"
    using assms(5,6) by (simp_all add: s'_def d'_def canonical_def block_effect_def)
  obtain us where us: "pg_get_utxos cfg s' = (Inr us, s')"
    "set us = (\<lambda>(r, b). \<lparr>au_address = o_address r, au_utxo = map_txo cfg (o_address r) (r, b)\<rparr>) ` set (unspent_outputs (pg_data s'))"
    by (rule in_get_utxos [OF ok inv])
  have gone: "txo_outpoint (au_utxo u) \<notin> cu_outpoint ` set claimables" if u: "u \<in> set us" for u
  proof
    assume p: "txo_outpoint (au_utxo u) \<in> cu_outpoint ` set claimables"
    obtain r b where r: "(r, b) \<in> set (unspent_outputs d')" "u = \<lparr>au_address = o_address r, au_utxo = map_txo cfg (o_address r) (r, b)\<rparr>"
      using u us(2) by (auto simp: s'_def)
    let ?p = "OutPoint (o_tx_id r) (ucast (o_index r))"
    have "?p \<in> previous_output ` set (tx_input tx)" using p r(2) by (simp add: inputs map_txo_def)
    then have "output_key r \<noteq> (op_txid ?p, ucast (op_vout ?p))"
      using out(1,2) assms(10) r(1)
      by (intro spent_in_block [OF assms(7,9,11), where j = 0 and a = dest and net = net]) (simp_all add: dest d'_def)
    moreover have "r \<in> set (db_tx_outputs d')" using r(1) by (auto simp: unspent_outputs_def confirmed_outputs_iff)
    then have "ucast (ucast (o_index r) :: u32) = o_index r" using inv by (simp add: chain_db_inv_def s'_def)
    ultimately show False by (simp add: output_key_def)
  qed
  from list_claimable_run [OF assms(2) us(1) assms(12,13), of n] obtain cl where
    cl: "list_claimable cs (s', t, n) = (Inr cl, (s', t, n))" "\<And>c. c \<in> set cl \<Longrightarrow> \<exists>u\<in>set us. cu_utxo c = au_utxo u"
    by (metis claimable_deposit_utxo)
  have "cu_outpoint ` set cl \<inter> cu_outpoint ` set claimables = {}"
    using cl(2) gone by fastforce
  with run cl(1) show ?thesis by blast
qed

section \<open>Concrete deposits\<close>

definition ex_flow_lib :: bitcoin_lib where
  "ex_flow_lib = ex_lib\<lparr>bip34_block_height := (\<lambda>b. Some 101)\<rparr>"

definition ex_flow_server :: "(chain_db pg \<times> 'n) swap_server" where
  "ex_flow_server = ex_server\<lparr>srv_chain_repository := lift_repository (pg_chain_repository ex_repo_cfg)\<rparr>"

lemma ex_chars [simp]: "char_of (100 :: nat) = CHR ''d''" "char_of (116 :: nat) = CHR ''t''"
proof -
  have "of_char (CHR ''d'') = (100 :: nat)" "of_char (CHR ''t'') = (116 :: nat)" by simp_all
  then show "char_of (100 :: nat) = CHR ''d''" "char_of (116 :: nat) = CHR ''t''" by (metis char_of_char)+
qed

text \<open>A block with one transaction, that pays the address of the new swap.\<close>

definition ex_deposit_tx :: transaction where
  "ex_deposit_tx = \<lparr>tx_version = 2, tx_lock_time = 0, tx_input = [], tx_output = [\<lparr>txo_value = 900, txo_script = [116]\<rparr>]\<rparr>"

definition ex_block_of :: "transaction \<Rightarrow> block" where
  "ex_block_of tx = \<lparr>prev_blockhash = 1, block_rest = [], txdata = [tx]\<rparr>"

lemma ex_create_swap:
  "\<exists>sw. create_swap ex_service [3, 1] 77 109 w = (Inr sw, w) \<and> sp_address (swap_public sw) = ''t''"
  by (simp add: create_swap_def ex_service_def Let_def seq_def map_err_def ex_crypto_def of_option_def
      taproot_spend_info_def key_agg_cache_def bind_res_def)

lemma ex_created:
  "\<exists>resp. create_swap_handler ex_flow_server [3, 1] (of_b32 77) (\<lparr>pg_data = ex_chain_db, pg_faults = []\<rparr>, n) =
     (Inr resp, (\<lparr>pg_data = ex_chain_db\<lparr>db_watch := [''a'', ''t'']\<rparr>, pg_faults = []\<rparr>, n)) \<and> csr_address resp = ''t''"
proof -
  let ?w = "(\<lparr>pg_data = ex_chain_db, pg_faults = []\<rparr>, n)"
  obtain sw where sw: "create_swap ex_service [3, 1] 77 109 ?w = (Inr sw, ?w)" "sp_address (swap_public sw) = ''t''"
    using ex_create_swap [of ?w] by (elim exE conjE)
  have "add_watch_address (lift_repository (pg_chain_repository ex_repo_cfg)) ''t'' ?w =
      (Inr (), (\<lparr>pg_data = ex_chain_db\<lparr>db_watch := [''a'', ''t'']\<rparr>, pg_faults = []\<rparr>, n))"
    by (simp add: lift_repository_def pg_chain_repository_def on_fst_def pg_add_watch_address_def sql_run
        map_err_def ex_chain_db_def)
  with sw show ?thesis
    by (simp add: create_swap_handler_def ex_flow_server_def ex_server_def of_option_def
        ex_client_def ex_repository_def get_swap_parameters_def)
qed

lemma created_swap_deposit_found_witness:
  "\<exists>s0 s' us. (\<exists>resp. create_swap_handler ex_flow_server [3, 1] (of_b32 77) (\<lparr>pg_data = ex_chain_db, pg_faults = []\<rparr>, ()) =
       (Inr resp, (s0, ())) \<and> csr_address resp = ''t'') \<and>
     process_block (pg_monitor ex_flow_lib ''regtest'' ex_node ex_repo_cfg) (ex_block_of ex_deposit_tx) (s0, ()) = (Inr (), (s', ())) \<and>
     pg_get_utxos ex_repo_cfg s' = (Inr us, s') \<and> ''t'' \<in> au_address ` set us"
proof -
  let ?s0 = "\<lparr>pg_data = ex_chain_db\<lparr>db_watch := [''a'', ''t'']\<rparr>, pg_faults = []\<rparr>"
  obtain resp where resp: "create_swap_handler ex_flow_server [3, 1] (of_b32 77) (\<lparr>pg_data = ex_chain_db, pg_faults = []\<rparr>, ()) =
     (Inr resp, (?s0, ()))" "csr_address resp = ''t''" using ex_created [of "()"] by (elim exE conjE)
  have "\<exists>s' us. process_block (pg_monitor ex_flow_lib ''regtest'' ex_node ex_repo_cfg) (ex_block_of ex_deposit_tx) (?s0, ()) =
        (Inr (), (s', ())) \<and>
     pg_get_utxos ex_repo_cfg s' = (Inr us, s') \<and>
     \<lparr>au_address = csr_address resp, au_utxo =
      \<lparr>txo_block_hash = compute_block_hash ex_flow_lib (ex_block_of ex_deposit_tx), txo_block_height = 101,
       txo_outpoint = OutPoint (compute_txid ex_flow_lib ex_deposit_tx) (word_of_nat 0),
       txo_tx_out = \<lparr>txo_value = txo_value (tx_output ex_deposit_tx ! 0),
         txo_script = address_script (cr_lib ex_repo_cfg) (csr_address resp)\<rparr>\<rparr>\<rparr> \<in> set us"
  proof (rule created_swap_deposit_found [OF resp(1)])
    show "?s0 = fold (run_chain_call ex_repo_cfg) [] ?s0" by simp
    show "agrees (pg_data ?s0) (header_of ex_flow_lib 101 (ex_block_of ex_deposit_tx))
        (output_row (deposit_of ex_flow_lib 101 (ex_block_of ex_deposit_tx) ex_deposit_tx 0 (csr_address resp)))"
      by (simp add: agrees_def ex_chain_db_def header_of_def ex_block_of_def ex_flow_lib_def ex_lib_def ex_output_def
          output_key_def output_row_def deposit_of_def ex_deposit_tx_def)
  qed (simp_all add: ex_flow_server_def ex_server_def resp(2) chain_db_inv_def ex_chain_defs output_key_def canonical_def
      sound_block_def pays_def ex_block_of_def ex_deposit_tx_def ex_flow_lib_def)
  with resp show ?thesis by (metis (no_types, lifting) address_utxo.select_convs(1) image_eqI)
qed

text \<open>The service over both sets of tables, and a swap whose preimage is stored.\<close>

definition ex_flow_claims :: "(chain_db pg \<times> swap_db pg \<times> 'n) claim_service" where
  "ex_flow_claims =
     \<lparr>cs_chain_client = ex_client, cs_chain_repository = lift_repository (pg_chain_repository ex_repo_cfg),
      cs_claim_repository = \<lparr>add_claim = (\<lambda>c. ret ()), get_claims = (\<lambda>ps. ret [])\<rparr>,
      cs_swap_repository = ex_repository\<lparr>get_swaps_with_paid_outpoints :=
        (\<lambda>as. on_snd (on_fst (pg_get_swaps_with_paid_outpoints ex_swap_cfg as)))\<rparr>,
      cs_swap_service = ex_service, cs_lib = ex_lib, cs_now = (\<lambda>_. 7)\<rparr>"

lemma ex_claims_on_pg: "claims_on_pg ex_repo_cfg ex_swap_cfg ex_flow_claims"
  by (simp add: claims_on_pg_def ex_flow_claims_def)

definition ex_paid_db :: swap_db where
  "ex_paid_db = empty_swap_db\<lparr>db_swaps := [swap_row_of ex_swap 5\<lparr>sr_preimage := Some (of_b32 9)\<rparr>]\<rparr>"

lemma ex_paid_row:
  "map_swap_state ex_swap_cfg (swap_row_of ex_swap 5\<lparr>sr_preimage := Some (of_b32 9)\<rparr>) =
     Inr \<lparr>ss_swap = ex_swap, ss_preimage = Some 9\<rparr>"
  using map_swap_state_preimage [OF map_swap_state_row [OF ex_storable, of 5], of 9]
  by (simp add: ex_swap_def secs_of_time_def)

lemma ex_swaps_canonical: "swaps_canonical ex_swap_cfg ex_paid_db"
  unfolding swaps_canonical_def ex_paid_db_def
  by (simp add: ex_paid_row empty_swap_db_def) (simp add: ex_swap_cfg_def)

lemma claimables_are_unspent_deposits_witness:
  "\<exists>cl. list_claimable ex_flow_claims (\<lparr>pg_data = ex_chain_db, pg_faults = []\<rparr>, \<lparr>pg_data = ex_paid_db, pg_faults = []\<rparr>, ()) =
     (Inr cl, (\<lparr>pg_data = ex_chain_db, pg_faults = []\<rparr>, \<lparr>pg_data = ex_paid_db, pg_faults = []\<rparr>, ())) \<and>
     (\<exists>c\<in>set cl. cu_outpoint c = OutPoint 7 0 \<and> cu_swap c = ex_swap \<and> cu_preimage c = 9 \<and> paid_with_request c = None)"
proof -
  have "canonical ex_repo_cfg ex_chain_db" by (simp add: canonical_def ex_chain_defs)
  with claimables_are_unspent_deposits [OF ex_claims_on_pg, of "\<lparr>pg_data = ex_chain_db, pg_faults = []\<rparr>"
      "\<lparr>pg_data = ex_paid_db, pg_faults = []\<rparr>" "()"] ex_chain_db_inv ex_swaps_canonical
  obtain us cl where us: "pg_get_utxos ex_repo_cfg \<lparr>pg_data = ex_chain_db, pg_faults = []\<rparr> = (Inr us, \<lparr>pg_data = ex_chain_db, pg_faults = []\<rparr>)"
    and cl: "list_claimable ex_flow_claims (\<lparr>pg_data = ex_chain_db, pg_faults = []\<rparr>, \<lparr>pg_data = ex_paid_db, pg_faults = []\<rparr>, ()) =
     (Inr cl, (\<lparr>pg_data = ex_chain_db, pg_faults = []\<rparr>, \<lparr>pg_data = ex_paid_db, pg_faults = []\<rparr>, ()))"
    and iff: "\<And>c. c \<in> set cl \<longleftrightarrow> (\<exists>u\<in>set us. claimable_deposit ex_swap_cfg ex_paid_db u c)"
    by auto
  have "us = [\<lparr>au_address = ''a'', au_utxo = \<lparr>txo_block_hash = 1, txo_block_height = 1,
      txo_outpoint = OutPoint 7 0, txo_tx_out = \<lparr>txo_value = 1000, txo_script = [97]\<rparr>\<rparr>\<rparr>]"
    using us ex_utxos by simp
  moreover have "db_swaps ex_paid_db = [swap_row_of ex_swap 5\<lparr>sr_preimage := Some (of_b32 9)\<rparr>]"
    "sr_address (swap_row_of ex_swap 5) = ''a''"
    by (simp_all add: ex_paid_db_def swap_row_of_def ex_swap_def)
  moreover have "paid_rows ex_paid_db h = []" for h by (simp add: paid_rows_def ex_paid_db_def empty_swap_db_def)
  ultimately have "\<lparr>cu_swap = ex_swap, cu_utxo = \<lparr>txo_block_hash = 1, txo_block_height = 1,
      txo_outpoint = OutPoint 7 0, txo_tx_out = \<lparr>txo_value = 1000, txo_script = [97]\<rparr>\<rparr>, paid_with_request = None, cu_preimage = 9\<rparr> \<in> set cl"
    unfolding iff by (simp add: ex_paid_row claimable_deposit_def)
  with cl show ?thesis by force
qed

lemma ex_flow_claim:
  "\<exists>tx. claim_outputs ex_flow_claims [ex_claimable, ex_claimable2] \<lparr>sat_per_kw = 253\<rparr> 109 ''d'' True
      (\<lparr>pg_data = ex_chain_db, pg_faults = []\<rparr>, n) =
     (Inr tx, (\<lparr>pg_data = ex_chain_db\<lparr>db_watch := [''a'', ''d'']\<rparr>, pg_faults = []\<rparr>, n)) \<and>
     length (tx_output tx) = 1 \<and> length (tx_input tx) = 2"
  unfolding claim_outputs_def create_claim_tx_def Let_def ex_sorted
  by (simp add: Let_def seq_def map_err_def of_option_def lock_time_from_height_def checked_add_def
        unsigned_claim_tx_def claim_total_def ex_claimable_def ex_claimable2_def ex_service_def
        ex_crypto_def ex_lib_def ex_flow_claims_def saturating_sub_def div_ceil_def claim_witness_def
        taproot_spend_info_def key_agg_cache_def bind_res_def ex_swap_def ex_client_def
        lift_repository_def pg_chain_repository_def on_fst_def pg_add_watch_address_def sql_run ex_chain_db_def)

lemma claimed_deposits_leave_witness:
  "\<exists>tx s0 s' cl. claim_outputs ex_flow_claims [ex_claimable, ex_claimable2] \<lparr>sat_per_kw = 253\<rparr> 109 ''d'' True
      (\<lparr>pg_data = ex_chain_db, pg_faults = []\<rparr>, \<lparr>pg_data = ex_paid_db, pg_faults = []\<rparr>, ()) =
       (Inr tx, (s0, \<lparr>pg_data = ex_paid_db, pg_faults = []\<rparr>, ())) \<and>
     process_block (pg_monitor ex_flow_lib ''regtest'' ex_client ex_repo_cfg) (ex_block_of tx) (s0, \<lparr>pg_data = ex_paid_db, pg_faults = []\<rparr>, ()) =
       (Inr (), (s', \<lparr>pg_data = ex_paid_db, pg_faults = []\<rparr>, ())) \<and>
     list_claimable ex_flow_claims (s', \<lparr>pg_data = ex_paid_db, pg_faults = []\<rparr>, ()) = (Inr cl, (s', \<lparr>pg_data = ex_paid_db, pg_faults = []\<rparr>, ())) \<and>
     OutPoint 7 0 \<notin> cu_outpoint ` set cl"
proof -
  let ?t = "\<lparr>pg_data = ex_paid_db, pg_faults = []\<rparr>"
  let ?s0 = "\<lparr>pg_data = ex_chain_db\<lparr>db_watch := [''a'', ''d'']\<rparr>, pg_faults = []\<rparr>"
  obtain tx where tx: "claim_outputs ex_flow_claims [ex_claimable, ex_claimable2] \<lparr>sat_per_kw = 253\<rparr> 109 ''d'' True
      (\<lparr>pg_data = ex_chain_db, pg_faults = []\<rparr>, ?t, ()) = (Inr tx, (?s0, ?t, ()))"
    "length (tx_output tx) = 1" "length (tx_input tx) = 2" using ex_flow_claim [of "(?t, ())"] by (elim exE conjE)
  have "\<exists>s' cl. process_block (pg_monitor ex_flow_lib ''regtest'' ex_client ex_repo_cfg) (ex_block_of tx) (?s0, ?t, ()) =
       (Inr (), (s', ?t, ())) \<and>
     list_claimable ex_flow_claims (s', ?t, ()) = (Inr cl, (s', ?t, ())) \<and>
     cu_outpoint ` set cl \<inter> cu_outpoint ` set [ex_claimable, ex_claimable2] = {}"
  proof (rule claimed_deposits_leave [OF tx(1) ex_claims_on_pg])
    show "?s0 = fold (run_chain_call ex_repo_cfg) [] ?s0" by simp
    show "swaps_canonical ex_swap_cfg (pg_data ?t)" using ex_swaps_canonical by simp
  qed (simp_all add: chain_db_inv_def ex_chain_defs output_key_def canonical_def sound_block_def
      ex_block_of_def ex_flow_lib_def ex_flow_claims_def recorded_as_spent_by_def tx(2,3))
  with tx(1) show ?thesis by (auto simp: ex_claimable_def)
qed

end
