(* ===== verification/Payout_Flow.thy ===== *)
theory Payout_Flow
  imports Deposit_Flow Preimage_Monitor
begin

text \<open>
  From a payment to the claim: what the public server pays for, the claim monitor claims. The server
  records the outputs it pays for with the attempt, the result of the payment stores the preimage and
  marks the attempt, and the query of the claim service joins the two.
\<close>

section \<open>Statements on a database that answers\<close>

lemma quiet_stmt: "keeps (\<lambda>s. pg_faults s = []) (stmt f)"
  by (auto simp: keeps_def stmt_def Let_def split: sum.splits prod.splits)

lemma quiet_transact:
  assumes "keeps (\<lambda>s. pg_faults s = []) m"
  shows "keeps (\<lambda>s. pg_faults s = []) (transact conv m)"
proof (rule keepsI)
  fix s r s' assume s: "pg_faults s = []" and run: "transact conv m s = (r, s')"
  have "keeps (\<lambda>s. pg_faults s = []) (seq (map_err conv (exec id)) (\<lambda>_. seq m (\<lambda>a. seq (map_err conv (exec id)) (\<lambda>_. ret a))))"
    unfolding exec_def by (intro keeps_intro quiet_stmt assms)
  from keeps_apply [OF this s] run show "pg_faults s' = []"
    by (auto simp: transact_def split: prod.splits sum.splits)
qed

lemma quiet_lock_pay: "keeps (\<lambda>s. pg_faults s = []) (pg_lock_add_payment_attempt a)"
  unfolding pg_lock_add_payment_attempt_def Let_def lock_swap_for_update_def query_def exec_def
  by (intro quiet_transact keeps_intro quiet_stmt)

section \<open>What a payment leaves in the tables\<close>

definition paid_effect :: "payment_attempt \<Rightarrow> i64 \<Rightarrow> preimage \<Rightarrow> swap_db \<Rightarrow> swap_db" where
  "paid_effect a secs p d = pay_unlock_effect (pa_payment_hash a) (pa_label a) (PaymentSuccess p) (pay_lock_effect a secs d)"

lemma paid_effect_swaps:
  "db_swaps (paid_effect a secs p d) =
     map (\<lambda>r. if sr_payment_hash r = of_b32 (pa_payment_hash a) then r\<lparr>sr_preimage := Some (of_b32 p)\<rparr> else r) (db_swaps d)"
  by (simp add: paid_effect_def swaps_of_unlock_success)
     (simp add: pay_lock_effect_def insert_attempt_def insert_attempt_outputs_def insert_lock_def)

lemma paid_effect_paid_rows:
  assumes "has_swap d (pa_payment_hash a)" and "q \<in> set (pa_outputs a)"
  shows "(pa_payment_request a, op_txid q, ucast (op_vout q)) \<in>
    set (paid_rows (paid_effect a secs p d) (of_b32 (pa_payment_hash a)))"
proof -
  let ?d = "paid_effect a secs p d"
  let ?row = "\<lparr>ar_id = db_next_attempt d, ar_swap_payment_hash = of_b32 (pa_payment_hash a),
            ar_label = pa_label a, ar_creation_time = secs, ar_amount_msat = pa_amount_msat a,
            ar_payment_request = pa_payment_request a, ar_destination = pa_destination a,
            ar_success = Some True, ar_error = None\<rparr>"
  have "?row \<in> set (db_attempts ?d)"
    by (simp add: paid_effect_def pay_unlock_effect_def store_effect_def update_attempts_def update_swaps_def delete_locks_def
        pay_lock_effect_def insert_attempt_def insert_attempt_outputs_def insert_lock_def)
  moreover have "\<lparr>ao_attempt_id = db_next_attempt d, ao_tx_id = op_txid q, ao_output_index = ucast (op_vout q)\<rparr> \<in> set (db_attempt_outputs ?d)"
    using assms(2)
    by (simp add: paid_effect_def pay_unlock_effect_def store_effect_def update_attempts_def update_swaps_def delete_locks_def
        pay_lock_effect_def insert_attempt_def insert_attempt_outputs_def insert_lock_def)
  moreover have "has_swap ?d (pa_payment_hash a)"
    using assms(1) by (simp add: paid_effect_def)
      (simp add: has_swap_def pay_lock_effect_def insert_attempt_def insert_attempt_outputs_def insert_lock_def)
  then obtain r where "r \<in> set (db_swaps ?d)" "sr_payment_hash r = of_b32 (pa_payment_hash a)"
    by (auto simp: has_swap_def)
  ultimately show ?thesis unfolding paid_rows_def by force
qed

lemma paid_effect_canonical:
  assumes "swaps_canonical cfg d"
  shows "swaps_canonical cfg (paid_effect a secs p d)"
proof -
  define g where "g = (\<lambda>r. if sr_payment_hash r = of_b32 (pa_payment_hash a) then r\<lparr>sr_preimage := Some (of_b32 p)\<rparr> else r :: swap_row)"
  have g: "db_swaps (paid_effect a secs p d) = map g (db_swaps d)" by (simp add: paid_effect_swaps g_def)
  have addr: "sr_address (g r) = sr_address r" for r by (simp add: g_def)
  have "\<not> isl (map_swap_state cfg (g r))" if "\<not> isl (map_swap_state cfg r)" for r
    using that map_swap_state_preimage [of cfg r _ p]
    by (cases "map_swap_state cfg r") (auto simp: g_def)
  with assms addr show ?thesis by (simp add: swaps_canonical_def g list_all_iff comp_def)
qed

section \<open>The server on the tables\<close>

text \<open>
  The server over the swap tables; its other services have a state of their own, and the chain tables
  are not touched by a payment.
\<close>

definition leaves_swaps :: "('c \<times> swap_db pg \<times> 'n, 'e, 'a) op \<Rightarrow> bool" where
  "leaves_swaps m \<longleftrightarrow> (\<forall>t. keeps (\<lambda>w. fst (snd w) = t) m)"

definition pays_on_pg :: "swap_repo_cfg \<Rightarrow> ('c \<times> swap_db pg \<times> 'n) swap_server \<Rightarrow> bool" where
  "pays_on_pg cfg srv \<longleftrightarrow>
     get_swap_by_hash (srv_swap_repository srv) = (\<lambda>h. on_snd (on_fst (pg_get_swap_by_hash cfg h))) \<and>
     lock_add_payment_attempt (srv_swap_repository srv) = (\<lambda>a. on_snd (on_fst (pg_lock_add_payment_attempt a))) \<and>
     unlock_add_payment_result (srv_swap_repository srv) =
       (\<lambda>h l r. on_snd (on_fst (pg_unlock_add_payment_result h l r)))"

definition rest_leaves_swaps :: "('c \<times> swap_db pg \<times> 'n) swap_server \<Rightarrow> bool" where
  "rest_leaves_swaps srv \<longleftrightarrow>
     (\<forall>b. leaves_swaps (srv_fee_estimator srv b)) \<and> (\<forall>ts. leaves_swaps (filter_txos srv ts)) \<and>
     (\<forall>a. leaves_swaps (get_txos_for_address (srv_chain_repository srv) a)) \<and>
     leaves_swaps (get_blockheight (srv_chain_client srv)) \<and>
     leaves_swaps (new_private_key (srv_swap_service srv)) \<and>
     (\<forall>r. leaves_swaps (pay (srv_lightning_client srv) r))"

lemma quiet_read:
  assumes "pg_faults t = []"
  shows "snd (pg_get_swap_by_hash cfg h t) = t"
  using assms by (simp add: pg_get_swap_by_hash_def swap_of_rows_def seq_def map_err_def sql_run split: option.split)

lemma keeps_sign_inputs:
  assumes "keeps P (new_private_key sv)"
  shows "keeps P (sign_inputs sv prevouts ics tx)"
  using assms
proof (induction sv prevouts ics tx rule: sign_inputs.induct)
  case (1 sv prevouts tx)
  then show ?case by (simp add: keeps_def)
next
  case (2 sv prevouts n c cs tx)
  then have "keeps P (claim_witness sv tx prevouts n c)"
    unfolding claim_witness_def Let_def by (intro keeps_intro)
  with 2 show ?case by (simp add: keeps_intro)
qed

lemma keeps_create_claim_tx:
  assumes "keeps P (new_private_key sv)"
  shows "keeps P (create_claim_tx sv lib claimables fee h dest)"
  unfolding create_claim_tx_def Let_def by (intro keeps_intro keeps_sign_inputs assms)

lemma prepare_leaves_swaps:
  assumes "pays_on_pg cfg srv" and "rest_leaves_swaps srv" and "pg_faults t = []"
  shows "keeps (\<lambda>w. fst (snd w) = t) (pay_swap_prepare srv req)"
proof -
  have g: "keeps (\<lambda>w. fst (snd w) = t) (get_swap_by_hash (srv_swap_repository srv) h)" for h
    using assms(1,3) quiet_read [of t cfg h] by (auto simp: pays_on_pg_def keeps_def on_snd_def on_fst_def split: prod.split)
  have r: "keeps (\<lambda>w. fst (snd w) = t) (srv_fee_estimator srv b)" "keeps (\<lambda>w. fst (snd w) = t) (filter_txos srv ts)"
    "keeps (\<lambda>w. fst (snd w) = t) (get_txos_for_address (srv_chain_repository srv) a)"
    "keeps (\<lambda>w. fst (snd w) = t) (get_blockheight (srv_chain_client srv))"
    "keeps (\<lambda>w. fst (snd w) = t) (new_private_key (srv_swap_service srv))" for b ts a
    using assms(2) by (simp_all add: rest_leaves_swaps_def leaves_swaps_def)
  show ?thesis
    unfolding pay_swap_prepare_def get_swap_parameters_def filter_or_keep_def
    by (auto simp: Let_def intro!: keeps_intro g r keeps_create_claim_tx split: prod.split sum.split)
      (simp add: keeps_def Let_def)
qed

text \<open>A payment that succeeds has the effect of its attempt and its result, whatever was read before.\<close>

lemma pay_swap_paid:
  assumes run: "pay_swap srv req (s, t, n) = (Inr (), (s', t', n'))"
    and "pays_on_pg cfg srv" and "rest_leaves_swaps srv" and "pg_faults t = []"
  obtains a preq w1 p secs where "pay_swap_prepare srv req (s, t, n) = (Inr (a, preq), w1)"
    and "has_swap (pg_data t) (pa_payment_hash a)" and "pg_data t' = paid_effect a secs p (pg_data t)" and "pg_faults t' = []"
proof -
  obtain a preq w1 w2 w3 result where
    p: "pay_swap_prepare srv req (s, t, n) = (Inr (a, preq), w1)" and l: "pay_swap_lock srv a w1 = (Inr (), w2)"
    and pay: "pay (srv_lightning_client srv) preq w2 = (Inr result, w3)"
    and f: "pay_swap_finish srv (pa_payment_hash a) (pa_label a) result w3 = (Inr (), (s', t', n'))"
    using run by (auto simp: pay_swap_def run_Inr)
  have t1: "fst (snd w1) = t" by (rule keepsD [OF prepare_leaves_swaps [OF assms(2-4)] _ p]) simp
  have "lock_add_payment_attempt (srv_swap_repository srv) a w1 = (Inr (), w2)"
    using l by (auto simp: pay_swap_lock_def attempt_def split: prod.splits sum.splits lock_swap_error.splits)
  then have lock: "pg_lock_add_payment_attempt a t = (Inr (), fst (snd w2))"
    using assms(2) t1 by (auto simp: pays_on_pg_def on_snd_eq on_fst_eq)
  from pg_lock_pay_Inr [OF lock] obtain secs where has: "has_swap (pg_data t) (pa_payment_hash a)"
    and d2: "pg_data (fst (snd w2)) = pay_lock_effect a secs (pg_data t)" by blast
  have q2: "pg_faults (fst (snd w2)) = []" by (rule keepsD [OF quiet_lock_pay assms(4) lock])
  have "keeps (\<lambda>w. fst (snd w) = fst (snd w2)) (pay (srv_lightning_client srv) preq)"
    using assms(3) by (simp add: rest_leaves_swaps_def leaves_swaps_def)
  from keepsD [OF this _ pay] have t3: "fst (snd w3) = fst (snd w2)" by simp
  obtain p where res: "result = PaymentSuccess p"
    using f by (cases result) (auto simp: pay_swap_finish_def attempt_def split: prod.splits)
  have "has_swap (pg_data (fst (snd w2))) (pa_payment_hash a)"
    using has by (simp add: d2 has_swap_def pay_lock_effect_def insert_attempt_def insert_attempt_outputs_def insert_lock_def)
  then have "pg_unlock_add_payment_result (pa_payment_hash a) (pa_label a) result (fst (snd w3)) =
      (Inr (), (fst (snd w2))\<lparr>pg_data := paid_effect a secs p (pg_data t)\<rparr>)"
    using pg_unlock_no_fault [OF q2] by (simp add: t3 d2 res paid_effect_def)
  then have "t' = (fst (snd w2))\<lparr>pg_data := paid_effect a secs p (pg_data t)\<rparr>"
    using f assms(2) by (auto simp: res pay_swap_finish_def attempt_def pays_on_pg_def on_snd_def on_fst_def)
  with that [OF p has] q2 show thesis by simp
qed

section \<open>What the claim monitor does with it\<close>

fun handles :: "outpoint \<Rightarrow> claim_job \<Rightarrow> bool" where
  "handles p (Recheck c cs) = list_ex (\<lambda>c. cu_outpoint c = p) cs"
| "handles p (Fresh cs) = list_ex (\<lambda>c. cu_outpoint c = p) cs"

lemma paid_is_planned:
  assumes "set outpoints = dom (claimable_map cl)" and "iterates members"
    and "claimable_map cl p = Some c" and "paid_with_request c \<noteq> None"
  shows "\<exists>jobs. plan_jobs members (claimable_map cl) outpoints claims = Some jobs \<and> list_ex (handles p) jobs"
proof -
  let ?m = "claimable_map cl"
  have c: "cu_outpoint c = p" by (rule claimable_map_outpoint [OF assms(3)])
  obtain es where es: "plan_jobs members ?m outpoints claims =
      Some (map (\<lambda>c. Recheck c (map (\<lambda>p. the (?m p)) (claim_inputs c))) (filter (live ?m) claims) @ map (\<lambda>(h, cs). Fresh cs) es)"
    "Claim_Service.grouped es" "distinct (concat (map snd es))"
    and out: "set (concat (map snd es)) = {c \<in> ran ?m. paid_with_request c \<noteq> None \<and> cu_outpoint c \<notin> in_progress ?m claims}"
    by (rule plan_jobs_claimable [OF assms(1,2), where claims = claims])
  show ?thesis
  proof (cases "p \<in> in_progress ?m claims")
    case True
    then obtain d where d: "d \<in> set claims" "live ?m d" "p \<in> set (claim_inputs d)" by (auto simp: in_progress_def)
    then have "handles p (Recheck d (map (\<lambda>p. the (?m p)) (claim_inputs d)))"
      using assms(3) c by (auto simp: list_ex_iff intro!: bexI [of _ p])
    with d(1,2) show ?thesis unfolding es list_ex_iff
      by (intro exI conjI refl bexI [of _ "Recheck d (map (\<lambda>p. the (?m p)) (claim_inputs d))"]) auto
  next
    case False
    then have "c \<in> set (concat (map snd es))"
      unfolding out using assms(3,4) c by (auto simp: ran_def)
    then obtain h cs where "(h, cs) \<in> set es" "c \<in> set cs" by auto
    with c show ?thesis unfolding es by (force simp: list_ex_iff)
  qed
qed

lemma claimable_map_covers:
  assumes "c \<in> set cl"
  shows "\<exists>c'. claimable_map cl (cu_outpoint c) = Some c' \<and> c' \<in> set cl"
proof -
  have "(cu_outpoint c, c) \<in> set (rev (map (\<lambda>c. (cu_outpoint c, c)) cl))" using assms by simp
  then obtain c' where "claimable_map cl (cu_outpoint c) = Some c'"
    unfolding claimable_map_def by (meson weak_map_of_SomeI)
  then show ?thesis by (auto simp: claimable_map_def dest!: map_of_SomeD)
qed

lemma claimable_depositE:
  assumes "claimable_deposit cfg d u c"
  obtains r where "r \<in> set (db_swaps d)" "sr_address r = au_address u" "cu_utxo c = au_utxo u"
    "paid_with_request c = map_option po_payment_request
       (find (\<lambda>po. po_outpoint po = txo_outpoint (au_utxo u)) (map paid_outpoint_of (paid_rows d (sr_payment_hash r))))"
  using assms that unfolding claimable_deposit_def by (elim bexE exE conjE) simp

lemma utxo_one_address:
  assumes "chain_db_inv d" and "(r, b) \<in> set (unspent_outputs d)" and "(r', b') \<in> set (unspent_outputs d)"
    and "OutPoint (o_tx_id r) (ucast (o_index r)) = OutPoint (o_tx_id r') (ucast (o_index r') :: u32)"
  shows "r' = r"
proof -
  have r: "r \<in> set (db_tx_outputs d)" "r' \<in> set (db_tx_outputs d)"
    using assms(2,3) by (auto simp: unspent_outputs_def confirmed_outputs_iff)
  then have i: "ucast (ucast (o_index r) :: u32) = o_index r" "ucast (ucast (o_index r') :: u32) = o_index r'"
    using assms(1) by (simp_all add: chain_db_inv_def)
  have "(ucast (o_index r') :: u32) = ucast (o_index r)" "o_tx_id r' = o_tx_id r" using assms(4) by simp_all
  with i have "output_key r' = output_key r" unfolding output_key_def by metis
  with r assms(1) show ?thesis by (simp add: chain_db_inv_def distinct_map inj_on_def)
qed

text \<open>C11: what the server pays for is claimed. After a call of \<open>pay_swap\<close> that succeeds on a database that
  answers, every output the payment was made for that is still unspent is in one of the jobs of the
  claim monitor's next round: claimed anew, or in a recorded claim that is rechecked.\<close>

theorem paid_outputs_are_claimed:
  assumes "pay_swap srv req (s, t, n) = (Inr (), (s', t', n'))"
    and "pays_on_pg scfg srv" and "rest_leaves_swaps srv" and "pg_faults t = []" and "swaps_canonical scfg (pg_data t)"
    and "claims_on_pg cfg scfg cs" and "pg_faults s' = []" and "canonical cfg (pg_data s')" and "chain_db_inv (pg_data s')"
    and "iterates members"
  shows "\<exists>a preq w1 us cl. pay_swap_prepare srv req (s, t, n) = (Inr (a, preq), w1) \<and>
    pg_get_utxos cfg s' = (Inr us, s') \<and> list_claimable cs (s', t', n') = (Inr cl, (s', t', n')) \<and>
    (\<forall>u\<in>set us. \<forall>r\<in>set (db_swaps (pg_data t)). \<forall>outpoints claims.
       sr_payment_hash r = of_b32 (pa_payment_hash a) \<and> au_address u = sr_address r \<and>
       txo_outpoint (au_utxo u) \<in> set (pa_outputs a) \<and> set outpoints = dom (claimable_map cl) \<longrightarrow>
       (\<exists>jobs. plan_jobs members (claimable_map cl) outpoints claims = Some jobs \<and>
          list_ex (handles (txo_outpoint (au_utxo u))) jobs))"
proof -
  obtain a preq w1 pre secs where a: "pay_swap_prepare srv req (s, t, n) = (Inr (a, preq), w1)"
    "has_swap (pg_data t) (pa_payment_hash a)" and d: "pg_data t' = paid_effect a secs pre (pg_data t)" and q: "pg_faults t' = []"
    by (rule pay_swap_paid [OF assms(1-4)])
  have ok: "swaps_canonical scfg (pg_data t')" unfolding d by (rule paid_effect_canonical [OF assms(5)])
  obtain us where us: "pg_get_utxos cfg s' = (Inr us, s')"
    "set us = (\<lambda>(r, b). \<lparr>au_address = o_address r, au_utxo = map_txo cfg (o_address r) (r, b)\<rparr>) ` set (unspent_outputs (pg_data s'))"
    by (rule in_get_utxos [OF assms(7-9)])
  obtain cl where cl: "list_claimable cs (s', t', n') = (Inr cl, (s', t', n'))"
    and iff: "\<And>c. c \<in> set cl \<longleftrightarrow> (\<exists>u\<in>set us. claimable_deposit scfg (pg_data t') u c)"
    using list_claimable_run [OF assms(6) us(1) q ok, of n'] by blast
  have planned: "\<exists>jobs. plan_jobs members (claimable_map cl) outpoints claims = Some jobs \<and> list_ex (handles (txo_outpoint (au_utxo u))) jobs"
    if u: "u \<in> set us" and r: "r \<in> set (db_swaps (pg_data t))" "sr_payment_hash r = of_b32 (pa_payment_hash a)" "au_address u = sr_address r"
      and p: "txo_outpoint (au_utxo u) \<in> set (pa_outputs a)" and outs: "set outpoints = dom (claimable_map cl)"
    for u r outpoints claims
  proof -
    let ?r = "r\<lparr>sr_preimage := Some (of_b32 pre)\<rparr>" and ?p = "txo_outpoint (au_utxo u)"
    have r': "?r \<in> set (db_swaps (pg_data t'))" using r by (auto simp: d paid_effect_swaps image_iff)
    have "\<not> isl (map_swap_state scfg r)" using assms(5) r(1) by (simp add: swaps_canonical_def list_all_iff)
    then obtain st where "map_swap_state scfg r = Inr st" by (cases "map_swap_state scfg r") auto
    note st = map_swap_state_preimage [OF this, of pre]
    obtain c where c: "claimable_map cl ?p = Some c" "c \<in> set cl"
    proof -
      have "\<exists>c0\<in>set cl. cu_outpoint c0 = ?p"
        unfolding Bex_def iff claimable_deposit_def using u r' st r(3) by force
      then show thesis using claimable_map_covers that by metis
    qed
    then obtain v where v: "v \<in> set us" "claimable_deposit scfg (pg_data t') v c" using iff by metis
    from v(2) obtain q where q: "q \<in> set (db_swaps (pg_data t'))" "sr_address q = au_address v" "cu_utxo c = au_utxo v"
      and paid: "paid_with_request c = map_option po_payment_request
        (find (\<lambda>po. po_outpoint po = txo_outpoint (au_utxo v)) (map paid_outpoint_of (paid_rows (pg_data t') (sr_payment_hash q))))"
      by (rule claimable_depositE)
    have same: "txo_outpoint (au_utxo v) = ?p" using claimable_map_outpoint [OF c(1)] q(3) by simp
    have "au_address v = au_address u"
      using utxo_one_address [OF assms(9)] u v(1) same unfolding us(2) by (fastforce simp: map_txo_def)
    with q(2) r(3) have "sr_address q = sr_address ?r" by simp
    with q(1) r' ok have qr: "q = ?r" by (auto simp: swaps_canonical_def distinct_map inj_on_def)
    have "(pa_payment_request a, op_txid ?p, ucast (op_vout ?p)) \<in> set (paid_rows (pg_data t') (sr_payment_hash q))"
      using paid_effect_paid_rows [OF a(2) p] r(2) by (simp add: d qr)
    then have "find (\<lambda>po. po_outpoint po = txo_outpoint (au_utxo v)) (map paid_outpoint_of (paid_rows (pg_data t') (sr_payment_hash q))) \<noteq> None"
      unfolding find_None_iff same by (auto simp: image_iff intro!: bexI)
    then have "paid_with_request c \<noteq> None" by (simp add: paid)
    from paid_is_planned [OF outs assms(10) c(1) this] show ?thesis .
  qed
  show ?thesis using a(1) us(1) cl planned by blast
qed

section \<open>A concrete payment\<close>

definition ex_payout_server :: "('c \<times> swap_db pg \<times> 'n) swap_server" where
  "ex_payout_server = ex_server\<lparr>srv_swap_repository := ex_repository
     \<lparr>get_swap_by_hash := (\<lambda>h. on_snd (on_fst (pg_get_swap_by_hash ex_swap_cfg h))),
      lock_add_payment_attempt := (\<lambda>a. on_snd (on_fst (pg_lock_add_payment_attempt a))),
      unlock_add_payment_result := (\<lambda>h l r. on_snd (on_fst (pg_unlock_add_payment_result h l r)))\<rparr>\<rparr>"

lemma ex_payout_wired: "pays_on_pg ex_swap_cfg ex_payout_server" "rest_leaves_swaps ex_payout_server"
  by (simp_all add: pays_on_pg_def rest_leaves_swaps_def leaves_swaps_def ex_payout_server_def ex_server_def
      ex_chain_repository_def ex_client_def ex_service_def keeps_ret)

lemma ex_get_stored: "pg_get_swap_by_hash ex_swap_cfg 77 ex_swap_db = (Inr \<lparr>ss_swap = ex_swap, ss_preimage = None\<rparr>, ex_swap_db)"
  using ex_stored quiet_read [OF ex_swap_db_data(1), of ex_swap_cfg 77] by (metis prod.collapse)

lemma ex_payout_prepare:
  "\<exists>a preq. pay_swap_prepare ex_payout_server ''lnbc'' (s, ex_swap_db, n) = (Inr (a, preq), (s, ex_swap_db, n)) \<and>
     pa_payment_hash a = 77 \<and> pa_creation_time a = 7 \<and> pa_outputs a = [OutPoint 7 0]"
  by (simp add: pay_swap_prepare_def ex_payout_server_def ex_server_def Let_def seq_def map_err_def of_option_def
      check_invoice_def bind_res_def get_swap_parameters_def check_amount_def on_snd_def on_fst_def ex_get_stored
      try_u32_of_u64_def ex_chain_repository_def ex_client_def payout_blocks_left_def ex_claimable_def
      usable_txo_def filter_or_keep_def attempt_def txo_sum_def confirmations_def saturating_add_def
      saturating_sub_def swap_state_blocks_left_def try_i64_of_u64_def try_i32_of_i64_def
      i64_saturating_sub_def ex_swap_def create_claim_tx_def claim_total_def lock_time_from_height_def
      ex_service_def ex_crypto_def unsigned_claim_tx_def checked_add_def div_ceil_def
      claim_witness_def taproot_spend_info_def key_agg_cache_def attempt_label_def fee_limit_def
      ex_bitcoin_lib_def)

lemma ex_payout:
  "\<exists>t'. pay_swap ex_payout_server ''lnbc'' (s, ex_swap_db, n) = (Inr (), (s, t', n))"
proof -
  obtain a preq where a: "pay_swap_prepare ex_payout_server ''lnbc'' (s, ex_swap_db, n) = (Inr (a, preq), (s, ex_swap_db, n))"
    "pa_payment_hash a = 77" "pa_creation_time a = 7"
    using ex_payout_prepare [of s n] by (elim exE conjE)
  obtain t1 where t1: "pg_lock_add_payment_attempt a ex_swap_db = (Inr (), t1)"
    using ex_swap_db_data a(2,3)
    by (simp add: pg_lock_add_payment_attempt_def transact_def Let_def lock_swap_for_update_def
        seq_def map_err_def sql_run secs_of_time_def of_option_def has_swap_def insert_lock_def insert_attempt_def)
  from pg_lock_pay_Inr [OF t1] have "has_swap (pg_data t1) 77"
    using a(2) by (auto simp: has_swap_def pay_lock_effect_def insert_attempt_def insert_attempt_outputs_def insert_lock_def)
  moreover have "pg_faults t1 = []" by (rule keepsD [OF quiet_lock_pay ex_swap_db_data(1) t1])
  ultimately have u: "\<exists>t2. pg_unlock_add_payment_result 77 l (PaymentSuccess 9) t1 = (Inr (), t2)" for l
    by (simp add: pg_unlock_no_fault)
  have f: "pay_swap_finish ex_payout_server 77 l (PaymentSuccess 9) (s, t1, n) = (Inr (), (s, snd (pg_unlock_add_payment_result 77 l (PaymentSuccess 9) t1), n))" for l
    using u [of l] by (auto simp: pay_swap_finish_def attempt_def ex_payout_server_def on_snd_def on_fst_def)
  have "pay_swap_lock ex_payout_server a (s, ex_swap_db, n) = (Inr (), (s, t1, n))"
    using t1 by (simp add: pay_swap_lock_def attempt_def ex_payout_server_def on_snd_def on_fst_def)
  moreover have "pay (srv_lightning_client ex_payout_server) preq (s, t1, n) = (Inr (PaymentSuccess 9), (s, t1, n))"
    by (simp add: ex_payout_server_def ex_server_def)
  ultimately show ?thesis using a f by (simp add: pay_swap_def)
qed

lemma ex_swap_rows: "db_swaps (pg_data ex_swap_db) = [swap_row_of ex_swap 5]"
  by (simp add: ex_swap_db_def pg_add_swap_def seq_def map_err_def sql_run insert_swap_def ex_swap_def
      secs_of_time_def of_option_def empty_swap_db_def)

lemma ex_swap_db_canonical: "swaps_canonical ex_swap_cfg (pg_data ex_swap_db)"
proof -
  show ?thesis
    using ex_swap_rows map_swap_state_row [OF ex_storable, of 5]
    by (simp add: swaps_canonical_def ex_swap_def secs_of_time_def) (simp add: ex_swap_cfg_def)
qed

lemma paid_outputs_are_claimed_witness:
  "\<exists>t' cl outpoints jobs. pay_swap ex_payout_server ''lnbc'' (\<lparr>pg_data = ex_chain_db, pg_faults = []\<rparr>, ex_swap_db, ()) =
       (Inr (), (\<lparr>pg_data = ex_chain_db, pg_faults = []\<rparr>, t', ())) \<and>
     list_claimable ex_flow_claims (\<lparr>pg_data = ex_chain_db, pg_faults = []\<rparr>, t', ()) =
       (Inr cl, (\<lparr>pg_data = ex_chain_db, pg_faults = []\<rparr>, t', ())) \<and>
     plan_jobs sorted_list_of_set (claimable_map cl) outpoints [] = Some jobs \<and> list_ex (handles (OutPoint 7 0)) jobs"
proof -
  let ?s = "\<lparr>pg_data = ex_chain_db, pg_faults = []\<rparr>"
  obtain t' where run: "pay_swap ex_payout_server ''lnbc'' (?s, ex_swap_db, ()) = (Inr (), (?s, t', ()))"
    using ex_payout [of ?s "()"] by (elim exE)
  have can: "canonical ex_repo_cfg (pg_data ?s)" by (simp add: canonical_def ex_chain_defs)
  have inv: "chain_db_inv (pg_data ?s)" using ex_chain_db_inv by simp
  obtain a preq w1 us cl where a: "pay_swap_prepare ex_payout_server ''lnbc'' (?s, ex_swap_db, ()) = (Inr (a, preq), w1)"
    and us: "pg_get_utxos ex_repo_cfg ?s = (Inr us, ?s)" and cl: "list_claimable ex_flow_claims (?s, t', ()) = (Inr cl, (?s, t', ()))"
    and planned: "\<And>u r outpoints claims. u \<in> set us \<Longrightarrow> r \<in> set (db_swaps (pg_data ex_swap_db)) \<Longrightarrow>
       sr_payment_hash r = of_b32 (pa_payment_hash a) \<and> au_address u = sr_address r \<and>
       txo_outpoint (au_utxo u) \<in> set (pa_outputs a) \<and> set outpoints = dom (claimable_map cl) \<Longrightarrow>
       \<exists>jobs. plan_jobs sorted_list_of_set (claimable_map cl) outpoints claims = Some jobs \<and>
          list_ex (handles (txo_outpoint (au_utxo u))) jobs"
    using paid_outputs_are_claimed [OF run ex_payout_wired ex_swap_db_data(1) ex_swap_db_canonical ex_claims_on_pg _ can inv ex_iterates]
    by (simp only: pg.select_convs simp_thms) metis
  have ah: "pa_payment_hash a = 77" "pa_outputs a = [OutPoint 7 0]"
    using a ex_payout_prepare [of ?s "()"] by auto
  have u: "us = [\<lparr>au_address = ''a'', au_utxo = \<lparr>txo_block_hash = 1, txo_block_height = 1,
      txo_outpoint = OutPoint 7 0, txo_tx_out = \<lparr>txo_value = 1000, txo_script = [97]\<rparr>\<rparr>\<rparr>]"
    using us ex_utxos by simp
  have "finite (dom (claimable_map cl))" by (simp add: claimable_map_def finite_dom_map_of)
  then have "\<exists>jobs. plan_jobs sorted_list_of_set (claimable_map cl) (sorted_list_of_set (dom (claimable_map cl))) [] = Some jobs \<and>
      list_ex (handles (OutPoint 7 0)) jobs"
    using planned [of "hd us" "swap_row_of ex_swap 5" "sorted_list_of_set (dom (claimable_map cl))" "[]"]
    by (simp add: u ex_swap_rows ah) (simp add: swap_row_of_def ex_swap_def)
  with run cl show ?thesis by blast
qed

end
