(* ===== verification/Task_Loops.thy ===== *)
theory Task_Loops
  imports Chain_Monitor Claim_Service Preimage_Monitor
begin

text \<open>
  The loops of the daemon's tasks (\<open>chain/monitor.rs\<close>, \<open>claim/monitor.rs\<close>, \<open>claim/preimage_monitor.rs\<close>,
  \<open>swap/payment_monitor.rs\<close>): each works, sleeps and looks at the cancellation token. They share one
  contract, \<open>polling_loop\<close>; every task ends once the shutdown has come, and none panics.
\<close>

section \<open>A loop that works and sleeps\<close>

locale polling_loop =
  fixes loop :: "nat \<Rightarrow> 's \<Rightarrow> 'w \<Rightarrow> ('e exn + unit) \<times> 'w"
    and quits :: "'s \<Rightarrow> 'w \<Rightarrow> bool"
    and round :: "'s \<Rightarrow> 'w \<Rightarrow> ('e exn + 's) \<times> 'w"
    and sleep :: "'s \<Rightarrow> 'w \<Rightarrow> bool \<times> 'w"
  assumes loop_Suc: "loop (Suc n) st w =
      (if quits st w then (Inr (), w)
       else case round st w of
         (Inl e, w1) \<Rightarrow> (Inl e, w1)
       | (Inr st', w1) \<Rightarrow> (case sleep st' w1 of (True, w2) \<Rightarrow> (Inr (), w2) | (False, w2) \<Rightarrow> loop n st' w2))"
begin

text \<open>
  \<open>ttl\<close> bounds the sleeps until the shutdown. Every sleep that is not interrupted lowers it, and work
  does not raise it; then as many rounds are enough, and the loop ends as its rounds do.
\<close>

lemma ends:
  assumes sleep: "\<And>st w w'. ok st \<Longrightarrow> sleep st w = (False, w') \<Longrightarrow> ttl w' < (ttl w :: nat)"
    and work: "\<And>st n. ok st \<Longrightarrow> keeps (\<lambda>w. ttl w \<le> n) (round st)"
    and next_round: "\<And>st w st'. ok st \<Longrightarrow> fst (round st w) = Inr st' \<Longrightarrow> ok st'"
    and errors: "\<And>st w e. ok st \<Longrightarrow> fst (round st w) = Inl e \<Longrightarrow> good e"
    and "ok st" and "ttl w < n"
  shows "fst (loop n st w) = Inr () \<or> (\<exists>e. fst (loop n st w) = Inl e \<and> good e)"
  using assms(5,6)
proof (induction n arbitrary: st w)
  case (Suc n)
  obtain r w1 where r: "round st w = (r, w1)" by fastforce
  have ttl: "ttl w1 \<le> ttl w" using keepsD [of "\<lambda>v. ttl v \<le> ttl w", OF work [OF Suc.prems(1)] _ r] by simp
  show ?case
  proof (cases r)
    case (Inl e)
    with r errors [OF Suc.prems(1), of w e] show ?thesis by (simp add: loop_Suc)
  next
    case (Inr st')
    have ok: "ok st'" using next_round [OF Suc.prems(1), of w st'] r Inr by simp
    obtain b w2 where s: "sleep st' w1 = (b, w2)" by fastforce
    show ?thesis
    proof (cases b)
      case False
      with s sleep [OF ok, of w1 w2] have "ttl w2 < ttl w1" by simp
      with ttl Suc.prems(2) have "ttl w2 < n" by simp
      from Suc.IH [OF ok this] r Inr s False show ?thesis by (simp add: loop_Suc)
    qed (use r Inr s in \<open>simp add: loop_Suc\<close>)
  qed
qed simp

end

text \<open>The rounds of the five loops; a failed round of the last three does not end its task.\<close>

definition full_round :: "nat \<Rightarrow> 'w chain_monitor \<Rightarrow> ('w \<Rightarrow> bool) \<Rightarrow> chain \<Rightarrow> 'w \<Rightarrow> (chain_error exn + chain) \<times> 'w" where
  "full_round fuel m token c w = (case do_sync fuel m token c w of (Inl e, w1) \<Rightarrow> (Inl e, w1) | (Inr _, w1) \<Rightarrow> (Inr c, w1))"

definition claim_round :: "'w claim_monitor \<Rightarrow> 'w \<Rightarrow> (claim_error exn + 'w claim_monitor) \<times> 'w" where
  "claim_round c w = (case do_claim c w of (Inl Panic, w1) \<Rightarrow> (Inl Panic, w1) | (_, w1) \<Rightarrow> (Inr c, w1))"

definition payment_round :: "'w payment_monitor \<Rightarrow> 'w \<Rightarrow> (payment_monitor_error exn + 'w payment_monitor) \<times> 'w" where
  "payment_round p w = (case do_check_payments p (pm_payment_attempts p) w of
     (Inr pending, w1) \<Rightarrow> (Inr (p\<lparr>pm_payment_attempts := pending\<rparr>), w1) | (Inl e, w1) \<Rightarrow> (Inr p, w1))"


interpretation tip_loop: polling_loop "\<lambda>n. start_tip_sync n fuel m token wait" "\<lambda>_. token"
    "do_sync fuel m token" "\<lambda>_. wait (chain_monitor.cm_poll_interval m)"
  for fuel m token wait
  by unfold_locales (auto simp: seq_def split: prod.split sum.split bool.split)

interpretation full_loop: polling_loop "\<lambda>n. start_full_sync n fuel m token wait" "\<lambda>_. token"
    "full_round fuel m token" "\<lambda>_. wait (cm_full_sync_interval m)"
  for fuel m token wait
  by unfold_locales (auto simp: full_round_def seq_def split: prod.split sum.split bool.split)

interpretation claim_loop: polling_loop "\<lambda>n. cm_start n token wait" "\<lambda>_. token"
    claim_round "\<lambda>c. wait (claim_monitor.cm_poll_interval c)"
  for token wait
  by unfold_locales (auto simp: claim_round_def split: prod.split sum.split bool.split exn.split)

interpretation preimage_loop: polling_loop "\<lambda>n. qm_start n token wait" "\<lambda>_. token"
    "\<lambda>q w. (Inr q, snd (do_query_preimages q w))" "\<lambda>q. wait (qm_poll_interval q)"
  for token wait
  by unfold_locales (auto split: prod.split bool.split)

interpretation payment_loop: polling_loop "\<lambda>n. pm_start n token wait"
    "\<lambda>p w. token w \<or> pm_payment_attempts p = []" payment_round "\<lambda>p. wait (pm_poll_interval p)"
  for token wait
  by unfold_locales (auto simp: payment_round_def Let_def split: prod.split sum.split bool.split)

section \<open>A synchronisation ends\<close>

text \<open>
  The node answers, or fails, for the branch \<open>view w\<close>, which changes only while the monitor sleeps.
\<close>

definition follows :: "('w \<Rightarrow> block_header list) \<Rightarrow> 'w chain_monitor \<Rightarrow> bool" where
  "follows view m \<longleftrightarrow>
     (\<forall>v. sync_keeps (\<lambda>w. view w = v) m) \<and>
     (\<forall>w t. fst (get_tip_hash (cm_client m) w) = Inr t \<longrightarrow> t = bh_hash (last (view w))) \<and>
     (\<forall>w h x. fst (get_block_header (cm_client m) h w) = Inr x \<longrightarrow> h \<in> hashes (view w) \<longrightarrow>
        x \<in> set (view w) \<and> bh_hash x = h)"

lemma followsD:
  assumes "follows view m"
  shows "get_tip_hash (cm_client m) w = (r, w') \<Longrightarrow> view w' = view w \<and> (\<forall>t. r = Inr t \<longrightarrow> t = bh_hash (last (view w)))"
    and "get_block_header (cm_client m) h w = (r2, w') \<Longrightarrow> view w' = view w \<and>
      (\<forall>x. r2 = Inr x \<longrightarrow> h \<in> hashes (view w) \<longrightarrow> x \<in> set (view w) \<and> bh_hash x = h)"
    and "sync_keeps (\<lambda>w. view w = v) m"
proof -
  show k: "sync_keeps (\<lambda>w. view w = v) m" for v using assms by (simp add: follows_def)
  show "get_tip_hash (cm_client m) w = (r, w') \<Longrightarrow> view w' = view w \<and> (\<forall>t. r = Inr t \<longrightarrow> t = bh_hash (last (view w)))"
    using k [of "view w"] assms unfolding sync_keeps_def keeps_def follows_def by (metis fst_conv snd_conv)
  show "get_block_header (cm_client m) h w = (r2, w') \<Longrightarrow> view w' = view w \<and>
      (\<forall>x. r2 = Inr x \<longrightarrow> h \<in> hashes (view w) \<longrightarrow> x \<in> set (view w) \<and> bh_hash x = h)"
    using k [of "view w"] assms unfolding sync_keeps_def keeps_def follows_def by (metis fst_conv snd_conv)
qed

lemma catch_up_ends:
  assumes m: "follows view m" and v: "view w = v" "good_headers v" "set (b # new) \<subseteq> set v"
    and good: "good_headers (b # new)" and sep: "hashes new \<inter> hashes old = {}" "bh_hash b \<in> hashes old"
    and "b # new = xs @ ys" and "ys \<noteq> []" and "length xs < n"
    and "catch_up n m token (chain_of old) (hd ys) (chain_of ys) w = (r, w')"
  shows "r = Inr None \<or> r = Inr (Some (chain_of (b # new))) \<or> (\<exists>e. r = Inl (Err e))"
  using assms(2,8-)
proof (induction xs arbitrary: ys w n rule: rev_induct)
  case Nil
  then obtain k where n: "n = Suc k" by (cases n) auto
  from Nil have "ys = b # new" by simp
  with Nil n sep show ?case by (auto split: if_splits)
next
  case (snoc x xs)
  then obtain k where n: "n = Suc k" "length xs < k" by (cases n) auto
  obtain y ys' where ys: "ys = y # ys'" using snoc.prems(3) by (cases ys) auto
  have gx: "good_headers (xs @ [x] @ ys)" using good snoc.prems(2) by simp
  then have gys: "good_headers ys" and prev: "bh_prev y = bh_hash x"
    using good_headers_append [of "xs @ [x]" ys] snoc.prems(3) ys by auto
  have "y \<in> set new" using snoc.prems(2) ys by (cases xs) auto
  then have y: "bh_hash y \<notin> hashes old" using sep by (auto simp: hashes_def)
  have x: "x \<in> set v" using snoc.prems(2) v(3) by auto
  obtain rg wg where g: "get_block_header (cm_client m) (bh_hash x) w = (rg, wg)" by fastforce
  have hg: "view wg = v" "\<And>z. rg = Inr z \<Longrightarrow> z = x"
    using followsD(2) [OF m g] x v(2) good_headers_unique by (auto simp: snoc.prems(1) hashes_def)
  show ?case
  proof (cases "token w \<or> isl rg")
    case True
    with snoc.prems(5) n ys y g prev show ?thesis by (auto simp: seq_def map_err_def isl_def split: if_splits)
  next
    case False
    with hg(2) have rg: "rg = Inr x" by (cases rg) auto
    have "chain_prepend x (chain_of ys) = (Inr (), chain_of (x # ys))"
      using gys prev by (simp add: chain_prepend_chain_of ys)
    with snoc.prems(5) n ys y g rg prev False
    have run: "catch_up k m token (chain_of old) (hd (x # ys)) (chain_of (x # ys)) wg = (r, w')"
      by (simp add: seq_def map_err_def)
    show ?thesis by (rule snoc.IH [OF hg(1) _ _ n(2) run]) (use snoc.prems(2) in simp_all)
  qed
qed

lemma undo_blocks_ends:
  assumes hs: "good_headers (pre @ b # post)"
    and "post = zs @ ds" and "length zs < n"
    and "undo_blocks n m token (chain_of (pre @ b # post)) (chain_of (b # new))
           (cursor_back (pre @ b # post) (pre @ b # zs)) w = (r, w')"
  shows "r = Inr True \<or> stopped r"
  using assms(2-)
proof (induction zs arbitrary: ds w n rule: rev_induct)
  case Nil
  then obtain k where n: "n = Suc k" by (cases n) auto
  have "bwd_next (chain_of (pre @ b # post)) (cursor_back (pre @ b # post) (pre @ [b])) =
      Inr (Some (b, cursor_back (pre @ b # post) pre))"
    using hs by (rule bwd_next_chain_of)
  with Nil n show ?case by (auto simp: stopped_def split: if_splits)
next
  case (snoc z zs)
  then obtain k where n: "n = Suc k" "length zs < k" by (cases n) auto
  have nxt: "bwd_next (chain_of (pre @ b # post)) (cursor_back (pre @ b # post) (pre @ b # zs @ [z])) =
      Inr (Some (z, cursor_back (pre @ b # post) (pre @ b # zs)))"
    using bwd_next_chain_of [of "pre @ b # zs" z ds] hs snoc.prems(1) by simp
  obtain ru wu where u: "undo_block (cm_repository m) (bh_hash z) w = (ru, wu)" by fastforce
  have "post = zs @ z # ds" using snoc.prems(1) by simp
  note IH = snoc.IH [OF this n(2)]
  show ?case
    using snoc.prems(3) n(1) nxt u IH
    by (cases ru) (auto simp: seq_def map_err_def stopped_def split: if_splits)
qed

lemma process_blocks_ends:
  assumes good: "good_headers hs" and "hs = xs @ ys" and "length ys < n"
    and "process_blocks n m token (chain_of hs) (cursor hs ys) w = (r, w')"
  shows "r = Inr True \<or> stopped r"
  using assms(2-)
proof (induction ys arbitrary: xs w n)
  case Nil
  then obtain k where n: "n = Suc k" by (cases n) auto
  from Nil show ?case by (auto simp: n cursor_def fwd_next_def)
next
  case (Cons y ys)
  then obtain k where n: "n = Suc k" "length ys < k" by (cases n) auto
  have nxt: "fwd_next (chain_of hs) (cursor hs (y # ys)) = Inr (Some (y, cursor hs ys))"
    using good fwd_next_chain_of [of xs y ys] by (simp add: Cons.prems(1))
  obtain rb wb where gb: "get_block (cm_client m) (bh_hash y) w = (rb, wb)" by fastforce
  obtain rp wp where pb: "process_block m (projr rb) wb = (rp, wp)" by fastforce
  have "hs = (xs @ [y]) @ ys" using Cons.prems(1) by simp
  note IH = Cons.IH [OF this n(2)]
  show ?case
    using Cons.prems(3) n(1) nxt gb pb IH
    by (cases rb; cases rp) (auto simp: seq_def map_err_def stopped_def split: if_splits)
qed

text \<open>
  Whatever fails, a synchronisation returns: with the node's branch joined at the fork, with the
  chain as it was, or with an error of the node or the repository. It does not panic, and fuel for
  the blocks on both sides of the fork is enough.
\<close>

lemma do_sync_ends:
  assumes hs: "good_headers (pre @ b # post)" and v: "view w = vpre @ b # new" "good_headers (vpre @ b # new)"
    and sep: "hashes new \<inter> hashes (pre @ b # post) = {}" and m: "follows view m"
    and fuel: "length post + length new + 2 \<le> fuel"
    and run: "do_sync fuel m token (chain_of (pre @ b # post)) w = (r, w')"
  shows "r = Inr (chain_of (pre @ b # new)) \<or> r = Inr (chain_of (pre @ b # post)) \<or> (\<exists>e. r = Inl (Err e))"
proof -
  let ?hs = "pre @ b # post" and ?new = "chain_of (b # new)"
  define old where "old = chain_of ?hs"
  have gn: "good_headers (b # new)" using v(2) by (rule good_headers_suffix) simp
  define t where "t = last (b # new)"
  have t: "t \<in> set (vpre @ b # new)" "b # new = butlast (b # new) @ [t]"
    using last_in_set [of "b # new"] by (auto simp: t_def simp del: last.simps butlast.simps)
  have sub: "set (b # new) \<subseteq> set (vpre @ b # new)" by auto
  have bold: "bh_hash b \<in> hashes ?hs" by simp
  have rt: "chain_retip fuel ?new old = (Inr (), chain_of (pre @ b # new))"
    unfolding old_def using hs gn sep fuel by (intro chain_retip_chain_of) (auto simp: hashes_def)
  obtain r1 w1 where s1: "get_tip_hash (cm_client m) w = (r1, w1)" by fastforce
  have h1: "view w1 = vpre @ b # new" "\<And>x. r1 = Inr x \<Longrightarrow> x = bh_hash t"
    using followsD(1) [OF m s1] v(1) by (auto simp: t_def)
  obtain r2 w2 where s2: "get_block_header (cm_client m) (bh_hash t) w1 = (r2, w2)" by fastforce
  have h2: "view w2 = vpre @ b # new" "\<And>x. r2 = Inr x \<Longrightarrow> x = t"
    using followsD(2) [OF m s2] h1(1) good_headers_unique [OF v(2)] t(1) by (auto simp: hashes_def)
  obtain r3 w3 where s3: "catch_up fuel m token old t (chain_new t) w2 = (r3, w3)" by fastforce
  have h3: "r3 = Inr None \<or> r3 = Inr (Some ?new) \<or> (\<exists>e. r3 = Inl (Err e))"
    using catch_up_ends [OF m h2(1) v(2) sub gn sep bold t(2), of fuel token r3 w3] s3 fuel
    by (auto simp: old_def chain_new_chain_of)
  define undo where "undo = (if chain_base ?new \<noteq> chain_tip old
      then seq (lift_res (bwd_new old)) (undo_blocks fuel m token old ?new) else ret True)"
  obtain r4 w4 where s4: "undo w3 = (r4, w4)" by fastforce
  have h4: "r4 = Inr True \<or> stopped r4"
    using s4 undo_blocks_ends [of pre b post post "[]" fuel m token new w3 r4 w4] hs fuel
    by (auto simp: undo_def seq_def old_def bwd_new_chain_of [OF hs] split: if_splits)
  obtain r5 w5 where s5: "process_blocks fuel m token ?new (cursor (b # new) (b # new)) w4 = (r5, w5)" by fastforce
  have h5: "r5 = Inr True \<or> stopped r5"
    using process_blocks_ends [OF gn, of "[]" "b # new" fuel m token w4 r5 w5] s5 fuel by simp
  show ?thesis
  proof (cases "r1 = Inr (bh_hash t) \<and> r2 = Inr t \<and> r3 = Inr (Some ?new)")
    case False
    with run [unfolded do_sync_def, folded old_def] s1 h1(2) s2 h2(2) s3 h3 show ?thesis
      by (cases r1; cases r2) (auto simp: seq_def map_err_def simp flip: old_def)
  next
    case True
    have run4: "seq undo (\<lambda>undone. if \<not> undone then ret old
         else seq (lift_res (fwd_new ?new)) (\<lambda>first.
              seq (process_blocks fuel m token ?new first) (\<lambda>processed.
              if \<not> processed then ret old
              else (case chain_retip fuel ?new old of (Inl e, _) \<Rightarrow> fail e | (Inr _, chain) \<Rightarrow> ret chain)))) w3 = (r, w')"
      using run [unfolded do_sync_def, folded old_def] s1 s2 s3 True gn hs
      by (simp add: seq_def map_err_def undo_def old_def)
    then show ?thesis
      using s4 h4 s5 h5
      by (auto simp: seq_def stopped_def fwd_new_chain_of [OF gn] rt simp flip: old_def)
  qed
qed

section \<open>Branches of one tree of blocks\<close>

text \<open>A hash names one block, and the branches start at the birthday block.\<close>

definition branch :: "(block_hash \<Rightarrow> block_header) \<Rightarrow> block_header \<Rightarrow> block_header list \<Rightarrow> bool" where
  "branch tree birthday hs \<longleftrightarrow>
     good_headers hs \<and> hd hs = birthday \<and> list_all (\<lambda>h. tree (bh_hash h) = h) hs"

lemma branch_hash:
  "branch tree a hs \<Longrightarrow> branch tree a ks \<Longrightarrow> x \<in> set hs \<Longrightarrow> y \<in> set ks \<Longrightarrow> bh_hash x = bh_hash y \<Longrightarrow> x = y"
  unfolding branch_def list_all_iff by metis

lemma linked_nth: "linked hs \<Longrightarrow> Suc i < length hs \<Longrightarrow> bh_prev (hs ! Suc i) = bh_hash (hs ! i)"
proof (induction hs arbitrary: i rule: linked.induct)
  case (1 g h hs)
  then show ?case by (cases i) auto
qed auto

lemma branch_nth:
  assumes "branch tree a hs" and "branch tree a ks"
  shows "i < length hs \<Longrightarrow> j < length ks \<Longrightarrow> hs ! i = ks ! j \<Longrightarrow> i = j \<and> take i hs = take j ks"
proof (induction i arbitrary: j)
  have d: "distinct hs" "distinct ks" "linked hs" "linked ks"
    using assms by (auto simp: branch_def good_headers_def distinct_map)
  have z: "hs \<noteq> []" "ks \<noteq> []" "hs ! 0 = a" "ks ! 0 = a"
    using assms by (auto simp: branch_def good_headers_def hd_conv_nth)
  {
    case 0
    then have "ks ! j = ks ! 0" using z by simp
    then show ?case using 0 z(2) d(2) by (simp add: nth_eq_iff_index_eq)
  next
    case (Suc i)
    have "j \<noteq> 0"
    proof
      assume "j = 0"
      then have "hs ! Suc i = hs ! 0" using Suc.prems z by simp
      then show False using Suc.prems z(1) d(1) by (simp add: nth_eq_iff_index_eq)
    qed
    then obtain k where j: "j = Suc k" by (cases j) auto
    have "bh_hash (hs ! i) = bh_hash (ks ! k)"
      using linked_nth [OF d(3), of i] linked_nth [OF d(4), of k] Suc.prems j by simp
    then have eq: "hs ! i = ks ! k"
      using branch_hash [OF assms] Suc.prems j by simp
    have "i = k" "take i hs = take k ks" using Suc.IH [of k] eq Suc.prems j by auto
    with eq Suc.prems j show ?case by (simp add: take_Suc_conv_app_nth)
  }
qed

text \<open>Two branches share a first part, and nothing after it.\<close>

lemma fork:
  assumes "branch tree a hs" and "branch tree a ks"
  obtains pre b post new where "hs = pre @ b # post" and "ks = pre @ b # new"
    and "hashes new \<inter> hashes hs = {}"
proof -
  let ?I = "{i. i < length ks \<and> ks ! i \<in> set hs}"
  have "ks \<noteq> []" "ks ! 0 = a" "a \<in> set hs"
  proof -
    show ks: "ks \<noteq> []" and "a \<in> set hs" using assms hd_in_set [of hs] by (auto simp: branch_def good_headers_def)
    show "ks ! 0 = a" using assms(2) hd_conv_nth [OF ks] by (simp add: branch_def)
  qed
  then have "?I \<noteq> {}" by auto
  have fin: "finite ?I" by simp
  have i: "Max ?I \<in> ?I" by (rule Max_in [OF fin \<open>?I \<noteq> {}\<close>])
  define i where "i = Max ?I"
  obtain j where j: "j < length hs" "ks ! i = hs ! j" "i < length ks" using i unfolding i_def by (auto simp: in_set_conv_nth)
  have ij: "i = j" "take i ks = take i hs" using branch_nth [OF assms(2,1) j(3,1,2)] by auto
  have ks: "ks = take i hs @ hs ! i # drop (Suc i) ks" using id_take_nth_drop [OF j(3)] j(2) ij by simp
  have hs: "hs = take i hs @ hs ! i # drop (Suc i) hs" using id_take_nth_drop [of i hs] j(1) ij(1) by simp
  have "k \<notin> ?I" if "i < k" for k using that Max_ge [OF fin] leD unfolding i_def by blast
  then have "ks ! k \<notin> set hs" if "i < k" "k < length ks" for k using that by blast
  then have "set (drop (Suc i) ks) \<inter> set hs = {}" by (force simp: in_set_conv_nth)
  then have "hashes (drop (Suc i) ks) \<inter> hashes hs = {}"
    using branch_hash [OF assms(2,1)] in_set_dropD by (fastforce simp: hashes_def)
  with that [OF hs ks] show thesis .
qed

lemma branch_fork:
  assumes hs: "branch tree a hs" and m: "follows view m" and v: "branch tree a (view w)"
    and fuel: "length hs + length (view w) \<le> fuel"
    and run: "do_sync fuel m token (chain_of hs) w = (r, w')"
  shows "r = Inr (chain_of (view w)) \<or> r = Inr (chain_of hs) \<or> (\<exists>e. r = Inl (Err e))"
proof -
  obtain pre b post new where f: "hs = pre @ b # post" "view w = pre @ b # new" "hashes new \<inter> hashes hs = {}"
    by (rule fork [OF hs v])
  from do_sync_ends [OF _ f(2) _ _ m _ run [unfolded f(1)]] hs v f fuel show ?thesis
    by (simp add: branch_def)
qed

section \<open>The tasks end\<close>

text \<open>
  The shutdown comes: \<open>ttl\<close> bounds the sleeps that are left, and nothing but the end of a sleep
  changes it for the worse.
\<close>

definition shutdown_comes :: "('w \<Rightarrow> nat) \<Rightarrow> (nat \<Rightarrow> 'w \<Rightarrow> bool \<times> 'w) \<Rightarrow> bool" where
  "shutdown_comes ttl wait \<longleftrightarrow> (\<forall>d w w'. wait d w = (False, w') \<longrightarrow> ttl w' < ttl w)"

definition unhurried :: "('w \<Rightarrow> nat) \<Rightarrow> ('w, 'e, 'a) op \<Rightarrow> bool" where
  "unhurried ttl m \<longleftrightarrow> (\<forall>n. keeps (\<lambda>w. ttl w \<le> n) m)"

definition iterates_keys :: "'w claim_monitor \<Rightarrow> bool" where
  "iterates_keys c \<longleftrightarrow> (\<forall>cl. set (cm_keys c (claimable_map cl)) = dom (claimable_map cl)) \<and> iterates (cm_members c)"

lemma do_claim_no_panic:
  assumes "iterates_keys c" shows "fst (do_claim c w) \<noteq> Inl Panic"
proof -
  have "\<exists>jobs. plan_jobs (cm_members c) (claimable_map cl) (cm_keys c (claimable_map cl)) claims = Some jobs" for cl claims
  proof (rule plan_jobs_claimable)
    show "set (cm_keys c (claimable_map cl)) = dom (claimable_map cl)" "iterates (cm_members c)"
      using assms by (simp_all add: iterates_keys_def)
  qed (rule exI)
  note jobs = this
  obtain r1 w1 where s1: "get_blockheight (cm_chain_client c) w = (r1, w1)" by fastforce
  obtain r2 w2 where s2: "list_claimable (cm_claim_service c) w1 = (r2, w2)" by fastforce
  obtain r3 w3 where s3: "get_claims (cm_claim_repository c) (cm_keys c (claimable_map (projr r2))) w2 = (r3, w3)" by fastforce
  obtain js where "plan_jobs (cm_members c) (claimable_map (projr r2)) (cm_keys c (claimable_map (projr r2))) (projr r3) = Some js"
    using jobs by blast
  with s1 s2 s3 show ?thesis
    by (cases r1; cases r2; cases r3) (simp_all add: do_claim_def seq_def map_err_def Let_def)
qed

lemma claim_round_eq: "iterates_keys c \<Longrightarrow> claim_round c w = (Inr c, snd (do_claim c w))"
  using do_claim_no_panic [of c w] by (auto simp: claim_round_def split: prod.split sum.split exn.split)

lemma claim_task_ends:
  assumes "shutdown_comes ttl wait" and "unhurried ttl (do_claim c)" and "iterates_keys c" and "ttl w < n"
  shows "fst (cm_start n token wait c w) = Inr ()"
  using claim_loop.ends [of "\<lambda>c'. c' = c" wait ttl "\<lambda>_. False" c w n token] assms
  by (auto simp: shutdown_comes_def unhurried_def keeps_def claim_round_eq)


lemma preimage_task_ends:
  assumes "shutdown_comes ttl wait" and "unhurried ttl (do_query_preimages q)" and "ttl w < n"
  shows "fst (qm_start n token wait q w) = Inr ()"
  using preimage_loop.ends [of "\<lambda>q'. q' = q" wait ttl "\<lambda>_. False" q w n token] assms
  by (auto simp: shutdown_comes_def unhurried_def keeps_def)

lemma payment_round_cases:
  "fst (payment_round p w) = Inr p' \<Longrightarrow> \<exists>as. p' = p\<lparr>pm_payment_attempts := as\<rparr>"
  "\<not> isl (fst (payment_round p w))"
  "snd (payment_round p w) = snd (do_check_payments p (pm_payment_attempts p) w)"
  by (auto simp: payment_round_def split: prod.splits sum.splits intro: exI [of _ "pm_payment_attempts p"])

lemma do_check_payments_update: "do_check_payments (p\<lparr>pm_payment_attempts := bs\<rparr>) as = do_check_payments p as"
proof (induction as)
  case (Cons a as)
  have "record_result (p\<lparr>pm_payment_attempts := bs\<rparr>) = record_result p" by (simp add: record_result_def fun_eq_iff)
  with Cons show ?case by simp
qed simp

lemma payment_task_ends:
  assumes "shutdown_comes ttl wait" and "\<forall>as. unhurried ttl (do_check_payments p as)" and "ttl w < n"
  shows "fst (pm_start n token wait p w) = Inr ()"
proof -
  let ?ok = "\<lambda>p'. \<exists>as. p' = p\<lparr>pm_payment_attempts := as\<rparr>"
  have "fst (pm_start n token wait p w) = Inr () \<or> (\<exists>e. fst (pm_start n token wait p w) = Inl e \<and> False)"
  proof (rule payment_loop.ends [where ok = ?ok and ttl = ttl])
    fix p' m assume "?ok p'"
    then obtain as where p': "p' = p\<lparr>pm_payment_attempts := as\<rparr>" by blast
    show "keeps (\<lambda>w. ttl w \<le> m) (payment_round p')"
      using assms(2) by (auto simp: keeps_def payment_round_cases(3) p' do_check_payments_update unhurried_def)
  next
    fix p' v q assume "?ok p'" "fst (payment_round p' v) = Inr q"
    then show "?ok q" using payment_round_cases(1) [of p' v q] by auto
  next
    fix p' v e assume "fst (payment_round p' v) = Inl e"
    then show False using payment_round_cases(2) [of p' v] by simp
  qed (use assms in \<open>auto simp: shutdown_comes_def intro: exI [of _ "pm_payment_attempts p"]\<close>)
  then show ?thesis by simp
qed

lemma sync_tasks_end:
  assumes wait: "shutdown_comes ttl wait" and m: "\<forall>n. sync_keeps (\<lambda>w. ttl w \<le> n) m" "follows view m"
    and tree: "\<forall>w. branch tree a (view w) \<and> length (view w) \<le> l" "branch tree a hs" "length hs \<le> l"
    and fuel: "2 * l \<le> fuel" "ttl w < n"
  shows "fst (start_tip_sync n fuel m token wait (chain_of hs) w) \<in> insert (Inr ()) (range (Inl \<circ> Err))"
    and "fst (start_full_sync n fuel m token wait (chain_of [a]) w) \<in> insert (Inr ()) (range (Inl \<circ> Err))"
proof -
  let ?ok = "\<lambda>c. \<exists>ks. c = chain_of ks \<and> branch tree a ks \<and> length ks \<le> l"
  have ends: "r = Inr c' \<Longrightarrow> ?ok c'" "r = Inl e \<Longrightarrow> e \<in> range Err"
    if "?ok c" "do_sync fuel m token c v = (r, v')" for c v r v' c' e
  proof -
    obtain ks where ks: "c = chain_of ks" "branch tree a ks" "length ks \<le> l" using \<open>?ok c\<close> by blast
    have "length ks + length (view v) \<le> fuel" using ks(3) tree(1) fuel(1) by (smt (verit) add_mono mult_2 order_trans)
    from branch_fork [OF ks(2) m(2) _ this, where token = token and r = r and w' = v'] tree(1) that(2) ks(1)
    have "r = Inr (chain_of (view v)) \<or> r = Inr c \<or> (\<exists>e. r = Inl (Err e))" by auto
    then show "r = Inr c' \<Longrightarrow> ?ok c'" "r = Inl e \<Longrightarrow> e \<in> range Err" using that(1) tree(1) by auto
  qed
  have work: "keeps (\<lambda>w. ttl w \<le> k) (do_sync fuel m token c)" for k c using m(1) by (simp add: keeps_do_sync)
  then have work': "keeps (\<lambda>w. ttl w \<le> k) (full_round fuel m token c)" for k c
    unfolding keeps_def full_round_def by (simp add: case_prod_beta split: sum.split)
  have one: "branch tree a [a]" "length [a] \<le> l"
    using tree(2,3) by (auto simp: branch_def good_headers_def list_all_iff Suc_le_eq intro: hd_in_set order.strict_trans2)
  have "fst (start_tip_sync n fuel m token wait (chain_of hs) w) = Inr () \<or>
      (\<exists>e. fst (start_tip_sync n fuel m token wait (chain_of hs) w) = Inl e \<and> e \<in> range Err)"
  proof (rule tip_loop.ends [where ok = ?ok and ttl = ttl])
    fix c v c' assume "?ok c" "fst (do_sync fuel m token c v) = Inr c'"
    then show "?ok c'" using ends(1) [of c v "Inr c'" "snd (do_sync fuel m token c v)" c'] by (simp add: prod_eq_iff)
  next
    fix c v e assume "?ok c" "fst (do_sync fuel m token c v) = Inl e"
    then show "e \<in> range Err" using ends(2) [of c v "Inl e" "snd (do_sync fuel m token c v)" e] by (simp add: prod_eq_iff)
  qed (use wait work tree fuel(2) in \<open>auto simp: shutdown_comes_def\<close>)
  then show "fst (start_tip_sync n fuel m token wait (chain_of hs) w) \<in> insert (Inr ()) (range (Inl \<circ> Err))" by auto
  have ok: "?ok (chain_of [a])" using one by (intro exI [of _ "[a]"]) simp
  have full: "fst (full_round fuel m token (chain_of [a]) v) = Inr c' \<Longrightarrow> c' = chain_of [a]"
    "fst (full_round fuel m token (chain_of [a]) v) = Inl e \<Longrightarrow> e \<in> range Err" for v c' e
  proof -
    obtain r v' where run: "do_sync fuel m token (chain_of [a]) v = (r, v')" by fastforce
    then show "fst (full_round fuel m token (chain_of [a]) v) = Inr c' \<Longrightarrow> c' = chain_of [a]"
      by (auto simp: full_round_def split: sum.splits)
    show "fst (full_round fuel m token (chain_of [a]) v) = Inl e \<Longrightarrow> e \<in> range Err"
      using ends(2) [OF ok run] run by (auto simp: full_round_def split: sum.splits)
  qed
  have "fst (start_full_sync n fuel m token wait (chain_of [a]) w) = Inr () \<or>
      (\<exists>e. fst (start_full_sync n fuel m token wait (chain_of [a]) w) = Inl e \<and> e \<in> range Err)"
    by (rule full_loop.ends [where ok = "\<lambda>c. c = chain_of [a]" and ttl = ttl])
       (use wait work' full fuel(2) in \<open>auto simp: shutdown_comes_def\<close>)
  then show "fst (start_full_sync n fuel m token wait (chain_of [a]) w) \<in> insert (Inr ()) (range (Inl \<circ> Err))" by auto
qed

text \<open>C8: every task of the daemon ends. Once the shutdown is at most \<open>ttl\<close> sleeps away, so many rounds and
  one more are enough for each monitor, whatever calls and statements fail: the payment, claim and
  preimage monitors return normally, and the two synchronisations return normally or with an error
  of the node or the repository. None of them panics or works on for ever, whichever branches of one
  tree of blocks the node moves to while they sleep.\<close>

theorem monitors_end:
  assumes "shutdown_comes ttl wait" and "ttl w < n"
    and "\<forall>as. unhurried ttl (do_check_payments p as)"
    and "unhurried ttl (do_claim c)" and "iterates_keys c"
    and "unhurried ttl (do_query_preimages q)"
    and "\<forall>k. sync_keeps (\<lambda>w. ttl w \<le> k) m" and "follows view m"
    and "\<forall>w. branch tree a (view w) \<and> length (view w) \<le> l" and "branch tree a hs" and "length hs \<le> l"
    and "2 * l \<le> fuel"
  shows "fst (pm_start n token wait p w) = Inr () \<and>
    fst (cm_start n token wait c w) = Inr () \<and>
    fst (qm_start n token wait q w) = Inr () \<and>
    fst (start_tip_sync n fuel m token wait (chain_of hs) w) \<in> insert (Inr ()) (range (Inl \<circ> Err)) \<and>
    fst (start_full_sync n fuel m token wait (chain_new a) w) \<in> insert (Inr ()) (range (Inl \<circ> Err))"
  using payment_task_ends [OF assms(1,3,2)] claim_task_ends [OF assms(1,4,5,2)] preimage_task_ends [OF assms(1,6,2)]
    sync_tasks_end [OF assms(1,7-12,2)]
  by (simp add: chain_new_chain_of)

lemma monitors_end_witness:
  "\<forall>repo.
     fst (start_tip_sync 1 9 \<lparr>cm_network = ''regtest'', cm_client = ex_node, cm_repository = ex_watching, cm_poll_interval = 1,
        cm_full_sync_interval = 60 * 60 * 24, cm_lib = ex_node_lib\<rparr> (\<lambda>_. False) (\<lambda>d w. (True, w)) (chain_of (ex_headers [0, 1, 2, 3])) ())
       \<in> insert (Inr ()) (range (Inl \<circ> Err)) \<and>
     fst (cm_start 1 (\<lambda>_. False) (\<lambda>d w. (True, w)) (ex_claim_monitor repo) ()) = Inr ()"
proof
  fix repo :: "unit swap_repository"
  define hs where hs: "hs = ex_headers [0, 1, 2, 3]"
  let ?m = "\<lparr>cm_network = ''regtest'', cm_client = ex_node, cm_repository = ex_watching, cm_poll_interval = 1,
        cm_full_sync_interval = 60 * 60 * 24, cm_lib = ex_node_lib\<rparr>"
  let ?p = "\<lparr>pm_lightning_client = ex_lightning, pm_payment_attempts = [ex_attempt], pm_poll_interval = 120, pm_swap_repository = repo\<rparr>"
  let ?q = "\<lparr>qm_chain_repository = ex_watching, qm_lightning_client = ex_paying_node, qm_poll_interval = 60, qm_swap_repository = repo,
        qm_order = (\<lambda>m. [])\<rparr>"
  let ?tree = "\<lambda>h. \<lparr>bh_hash = h, bh_height = ucast (if h < 10 then h else h - 10), bh_prev = (if h = 13 then 2 else h - 1)\<rparr>"
  have u: "unhurried (\<lambda>_. 0) x" for x :: "(unit, 'e, 'a) op" by (simp add: unhurried_def keeps_def)
  have w: "shutdown_comes (\<lambda>_. 0) (\<lambda>d w. (True, w))" by (simp add: shutdown_comes_def)
  have k: "iterates_keys (ex_claim_monitor repo)" by (simp add: iterates_keys_def iterates_def ex_claim_monitor_def claimable_map_def finite_dom_map_of)
  have f: "follows (\<lambda>_. ex_view) ?m"
    by (simp add: follows_def sync_keeps_def keeps_def ex_node_def ex_view_def ex_headers_def hashes_def of_option_def)
  have b: "branch ?tree (hd hs) ex_view" "branch ?tree (hd hs) hs"
    by (simp_all add: branch_def good_headers_def hs ex_view_def ex_headers_def)
  have l: "length ex_view \<le> 4" "length hs \<le> 4" by (simp_all add: hs ex_view_def ex_headers_def)
  have n: "(0::nat) < 1" and fuel: "2 * 4 \<le> (9::nat)" by simp_all
  have p: "\<forall>as. unhurried (\<lambda>_. 0) (do_check_payments ?p as)" by (intro allI u)
  have m: "\<forall>k. sync_keeps (\<lambda>w. 0 \<le> k) ?m" by (simp add: sync_keeps_def keeps_def)
  have t: "\<forall>w::unit. branch ?tree (hd hs) ex_view \<and> length ex_view \<le> 4" using b l by simp
  from monitors_end [OF w n p u k u m f t b(2) l(2) fuel, where q = ?q and token = "\<lambda>_. False"]
  show "fst (start_tip_sync 1 9 ?m (\<lambda>_. False) (\<lambda>d w. (True, w)) (chain_of (ex_headers [0, 1, 2, 3])) ()) \<in> insert (Inr ()) (range (Inl \<circ> Err)) \<and>
     fst (cm_start 1 (\<lambda>_. False) (\<lambda>d w. (True, w)) (ex_claim_monitor repo) ()) = Inr ()"
    unfolding hs by blast
qed

end
