(* ===== verification/Sync_Race.thy ===== *)
theory Sync_Race
  imports Task_Loops
begin

text \<open>
  The two synchronisations that \<open>ChainMonitor::start\<close> (\<open>chain/monitor.rs\<close>) spawns share the block table
  and take no lock. The full one walks the branch it saw when it began; the tip one may switch to
  another branch in the middle of that walk.
\<close>

section \<open>The two tasks\<close>

text \<open>
  \<open>start\<close> spawns both synchronisations, with the chain it loaded and with the base of it. A task that
  returns has its error logged, if it has one, and cancels the token; one that panics does not come to
  that line. The token is that of the whole process. \<open>start\<close> waits for both tasks and returns no error.
\<close>

datatype sync_task = TipSync | FullSync

record sync_tasks =
  sync_running :: "sync_task list"
  sync_panicked :: "sync_task list"
  sync_cancelled :: bool
  sync_returned :: bool

definition spawn_syncs :: "bool \<Rightarrow> sync_tasks" where
  "spawn_syncs c = \<lparr>sync_running = [TipSync, FullSync], sync_panicked = [], sync_cancelled = c, sync_returned = False\<rparr>"

inductive sync_step :: "sync_tasks \<Rightarrow> sync_tasks \<Rightarrow> bool" where
  SyncExits: "sync_running s = ts @ t # us \<Longrightarrow> sync_step s (s\<lparr>sync_running := ts @ us, sync_cancelled := True\<rparr>)"
| SyncPanics: "sync_running s = ts @ t # us \<Longrightarrow>
    sync_step s (s\<lparr>sync_running := ts @ us, sync_panicked := t # sync_panicked s\<rparr>)"
| SyncCancelled: "sync_step s (s\<lparr>sync_cancelled := True\<rparr>)"
| SyncReturns: "sync_running s = [] \<Longrightarrow> sync_step s (s\<lparr>sync_returned := True\<rparr>)"

inductive_cases sync_stepE: "sync_step s s'"

text \<open>A synchronisation that is no longer running has panicked or has cancelled the other one, and
  \<open>start\<close> returns only when both are over.\<close>

definition syncs_share_fate :: "sync_tasks \<Rightarrow> bool" where
  "syncs_share_fate s \<longleftrightarrow>
     ({TipSync, FullSync} \<subseteq> set (sync_running s) \<union> set (sync_panicked s) \<or> sync_cancelled s) \<and>
     (sync_returned s \<longrightarrow> sync_running s = [])"

lemma syncs_share_fate_step: "sync_step s s' \<Longrightarrow> syncs_share_fate s \<Longrightarrow> syncs_share_fate s'"
  by (elim sync_stepE) (auto simp: syncs_share_fate_def)

lemma syncs_share_fate_reachable: "sync_step\<^sup>*\<^sup>* (spawn_syncs c) s \<Longrightarrow> syncs_share_fate s"
  by (induction rule: rtranclp_induct) (auto simp: syncs_share_fate_step, simp add: syncs_share_fate_def spawn_syncs_def)

section \<open>An interleaving of the two tasks\<close>

text \<open>
  \<open>at_block h other cl\<close>: while the task waits for the node to send the block \<open>h\<close>, the other task runs
  \<open>other\<close>. A task gives way at every such call.
\<close>

definition at_block :: "block_hash \<Rightarrow> ('w \<Rightarrow> 'w) \<Rightarrow> 'w chain_client \<Rightarrow> 'w chain_client" where
  "at_block h other cl = cl\<lparr>get_block := (\<lambda>k w. get_block cl k (if k = h then other w else w))\<rparr>"

definition tip_round ::
    "nat \<Rightarrow> bitcoin_lib \<Rightarrow> network \<Rightarrow> 'n chain_client \<Rightarrow> chain_repo_cfg \<Rightarrow> chain \<Rightarrow> chain_db pg \<times> 'n \<Rightarrow> chain_db pg \<times> 'n" where
  "tip_round fuel lib net cl cfg chain w = snd (do_sync fuel (pg_monitor lib net cl cfg) (\<lambda>_. False) chain w)"

text \<open>The monitor of the full task: the node as it was before the switch, and the tip task in between.\<close>

definition raced_monitor ::
    "nat \<Rightarrow> bitcoin_lib \<Rightarrow> network \<Rightarrow> 'n chain_client \<Rightarrow> 'n chain_client \<Rightarrow> chain_repo_cfg \<Rightarrow> chain \<Rightarrow> block_hash \<Rightarrow>
     (chain_db pg \<times> 'n) chain_monitor" where
  "raced_monitor fuel lib net cl cl' cfg chain h =
     (pg_monitor lib net cl cfg)\<lparr>cm_client := at_block h (tip_round fuel lib net cl' cfg chain) (lift_client cl)\<rparr>"

abbreviation "healthy cfg \<equiv> \<lambda>w. pg_faults (fst w) = [] \<and> readable cfg (pg_data (fst w))"

lemma healthy_sync: "sync_keeps (healthy cfg) (pg_monitor lib net cl cfg)"
proof -
  have f: "snd (pg_filter_watch_addresses cfg as s) = s" if "pg_faults s = []" for as s
    using that by (simp add: pg_filter_watch_addresses_def sql_run seq_def map_err_def)
  have a: "pg_faults (snd (pg_add_block b os is s)) = [] \<and> db_watch (pg_data (snd (pg_add_block b os is s))) = db_watch (pg_data s)"
    if "pg_faults s = []" for b os "is" s
    using that by (simp add: pg_add_block_no_fault block_effect_def)
  have u: "pg_faults (snd (pg_undo_block h s)) = [] \<and> db_watch (pg_data (snd (pg_undo_block h s))) = db_watch (pg_data s)"
    if "pg_faults s = []" for h s
    using that by (simp add: pg_undo_block_def sql_run)
  show ?thesis
    using f a u by (auto simp: sync_keeps_def pg_monitor_def lift_client_def lift_repository_def pg_chain_repository_def
        keeps_def on_fst_def on_snd_def readable_def case_prod_beta)
qed


section \<open>The walk of the full task\<close>

text \<open>What is common to the statements below: the stored branch, which the full task walks from its
  first block, and the branch to which the tip task switches in front of the block \<open>t\<close>.\<close>

definition race ::
    "bitcoin_lib \<Rightarrow> chain_repo_cfg \<Rightarrow> 'n chain_client \<Rightarrow> 'n chain_client \<Rightarrow> block_header list \<Rightarrow> block_header list \<Rightarrow>
     block_header \<Rightarrow> block_header \<Rightarrow> block_header list \<Rightarrow> block_header list \<Rightarrow> block_header list \<Rightarrow> chain_db pg \<Rightarrow> bool" where
  "race lib cfg cl cl' upre pre b t post vpre new s \<longleftrightarrow>
     sync_start pre b (t # post) vpre new (pg_data s) \<and> new \<noteq> [] \<and>
     pg_faults s = [] \<and> readable cfg (pg_data s) \<and> good_headers (upre @ pre @ b # t # post) \<and>
     honest_client lib (upre @ pre @ b # t # post) cl \<and> answering_client lib (upre @ pre @ b # t # post) cl \<and>
     honest_client lib (vpre @ b # new) cl' \<and> answering_client lib (vpre @ b # new) cl'"

lemma tip_round_switches:
  assumes "race lib cfg cl cl' upre pre b t post vpre new s"
    and "length (t # post) + length new + 2 \<le> fuel" and w: "healthy cfg w" "chain_db_inv (pg_data (fst w))"
      "table w = set (pre @ b # t # post)"
    and w': "w' = tip_round fuel lib net cl' cfg (chain_of (pre @ b # t # post)) w"
  shows "healthy cfg w'" "chain_db_inv (pg_data (fst w'))" "table w' = set (pre @ b # new)"
proof -
  obtain x n where xn: "w = (x, n)" by fastforce
  obtain r where run: "do_sync fuel (pg_monitor lib net cl' cfg) (\<lambda>_. False) (chain_of (pre @ b # t # post)) (x, n) = (r, w')"
    by (metis w' xn tip_round_def prod.collapse)
  have "sync_start pre b (t # post) vpre new (pg_data x)"
    using assms(1) w xn by (simp add: race_def sync_start_def)
  from pg_sync_completes [OF this _ _ _ _ assms(2) run] show "table w' = set (pre @ b # new)"
    using assms(1) w xn by (simp add: race_def)
  show "healthy cfg w'" using keepsD [OF keeps_do_sync [OF healthy_sync] _ run] w(1) xn by simp
  show "chain_db_inv (pg_data (fst w'))" using keepsD [OF keeps_do_sync [OF pg_monitor_keeps_inv] _ run] w(2) xn by simp
qed

lemma raced_system:
  fixes upre pre b t post fuel lib net cl cl' cfg chain h
  defines "view \<equiv> upre @ pre @ b # t # post"
  defines "m \<equiv> raced_monitor fuel lib net cl cl' cfg chain h"
  assumes "race lib cfg cl cl' upre pre b t post vpre new s"
  shows "live_system (healthy cfg) (\<lambda>_. False) view m" and "honest_node (\<lambda>_. {}) (cm_lib m) view (cm_client m)"
    and "follows (\<lambda>_. view) m"
proof -
  have tip: "healthy cfg (tip_round fuel lib net cl' cfg chain w)" if "healthy cfg w" for w
    using keeps_apply [OF keeps_do_sync [OF healthy_sync] that] by (simp add: tip_round_def)
  have cl: "honest_node (\<lambda>_. {}) lib view cl" "answering_client lib view cl"
    using assms(3) by (simp_all add: race_def view_def honest_client_def)
  note live = pg_live [OF cl(2), of cfg net]
  have "live_system (healthy cfg) (\<lambda>_. False) view (pg_monitor lib net cl cfg)" using live .
  then have "answers (healthy cfg) (get_block (lift_client cl) k (tip_round fuel lib net cl' cfg chain w)) \<and>
      (\<forall>x. fst (get_block (lift_client cl) k (tip_round fuel lib net cl' cfg chain w)) = Inr x \<longrightarrow> bip34_block_height lib x \<noteq> None)"
    if "healthy cfg w" "k \<in> hashes view" for w k
    using tip [OF that(1)] that(2) unfolding live_system_def pg_monitor_def by (simp del: split_paired_All)
  with live show "live_system (healthy cfg) (\<lambda>_. False) view m"
    unfolding live_system_def m_def raced_monitor_def at_block_def pg_monitor_def by (simp del: split_paired_All)
  show hn: "honest_node (\<lambda>_. {}) (cm_lib m) view (cm_client m)"
    using cl(1) by (auto simp: honest_node_def m_def raced_monitor_def at_block_def pg_monitor_def lift_client_def on_snd_def
        case_prod_beta)
  show "follows (\<lambda>_. view) m"
    using hn unfolding follows_def honest_node_def sync_keeps_def keeps_def by blast
qed


lemma race_headers:
  assumes "race lib cfg cl cl' upre pre b t post vpre new s"
  shows "good_headers (pre @ b # t # post)" "good_headers (pre @ b # new)" "hashes new \<inter> hashes (pre @ b # t # post) = {}"
proof -
  show g: "good_headers (pre @ b # t # post)" and d: "hashes new \<inter> hashes (pre @ b # t # post) = {}"
    using assms by (simp_all add: race_def sync_start_def)
  have "good_headers (vpre @ b # new)" using assms by (simp add: race_def sync_start_def)
  then have "good_headers (b # new)" by (rule good_headers_suffix) simp
  from good_headers_switch [OF g this refl] d show "good_headers (pre @ b # new)" by (auto simp: hashes_def)
qed

text \<open>What one more block of the walk does to the table.\<close>

lemma raced_step:
  fixes pre b t post new
  defines "hs \<equiv> pre @ b # t # post"
  defines "tab \<equiv> \<lambda>ys. if t \<in> set ys then set hs else set (pre @ b # new) \<union> (set (t # post) - set ys)"
  assumes race: "race lib cfg cl cl' upre pre b t post vpre new s" and split: "hs = xs @ y # ys"
    and w: "W = tab (y # ys)" and w0: "W0 = (if y = t then set (pre @ b # new) else W)"
    and wp: "W' = (if bh_hash y \<in> bh_hash ` W0 then W0 else insert y W0)"
  shows "W' = tab ys"
proof -
  note good = race_headers [OF race]
  have d: "distinct (map bh_hash hs)" "distinct hs"
    using good(1) by (auto simp: good_headers_def hs_def distinct_map)
  have new: "bh_hash y \<notin> bh_hash ` (set (pre @ b # new) \<union> (set (t # post) - set (y # ys)))" if "y \<in> set (t # post)"
  proof -
    have "hashes (pre @ [b]) \<inter> hashes (t # post) = {}" "hashes (t # post) \<subseteq> hashes (pre @ b # t # post)"
      using d(1) by (auto simp: hashes_def hs_def)
    moreover have "bh_hash y \<in> hashes (t # post)" using that unfolding hashes_def by (rule imageI)
    ultimately have "bh_hash y \<notin> hashes new" "bh_hash y \<notin> hashes (pre @ [b])" using good(3) by blast+
    moreover have "bh_hash y \<notin> bh_hash ` (set (t # post) - set (y # ys))"
    proof
      assume "bh_hash y \<in> bh_hash ` (set (t # post) - set (y # ys))"
      then obtain z where "z \<in> set (t # post) - set (y # ys)" and h: "bh_hash y = bh_hash z" by (rule imageE) blast
      then have z: "z \<in> set (t # post)" "z \<noteq> y" "bh_hash z = bh_hash y" by auto
      have "z \<in> set hs" "y \<in> set hs" using z(1) that by (auto simp: hs_def)
      with z(2,3) d(1) show False by (auto simp: distinct_map inj_on_def)
    qed
    ultimately show ?thesis by (auto simp: hashes_def)
  qed
  consider "t \<in> set ys" | "t \<notin> set ys" "y = t" | "t \<notin> set ys" "y \<noteq> t" by blast
  then show ?thesis
  proof cases
    case 1
    then have "y \<noteq> t" "y \<in> set hs" using d(2) split by auto
    with 1 w w0 wp show ?thesis by (auto simp: tab_def)
  next
    case 2
    have "(pre @ [b]) @ t # post = xs @ t # ys" using split 2(2) by (simp add: hs_def)
    moreover have "t \<notin> set (pre @ [b])" "t \<notin> set post" using d(2) by (auto simp: hs_def)
    ultimately have "post = ys" using append_Cons_eq_iff [of t "pre @ [b]" post xs ys] by simp
    with 2 w w0 wp new show ?thesis by (auto simp: tab_def)
  next
    case 3
    have "t \<in> set hs" by (simp add: hs_def)
    then have "t \<in> set xs" using split 3 by auto
    then obtain u zs where xs: "xs = u @ t # zs" by (auto dest: split_list)
    have "(pre @ [b]) @ t # post = u @ t # (zs @ y # ys)" using split xs by (simp add: hs_def)
    moreover have "t \<notin> set (pre @ [b])" "t \<notin> set post" using d(2) by (auto simp: hs_def)
    ultimately have post: "post = zs @ y # ys" using append_Cons_eq_iff [of t "pre @ [b]" post u "zs @ y # ys"] by simp
    have "y \<notin> set ys" using d(2) split by auto
    with 3 w w0 wp new post show ?thesis by (auto simp: tab_def)
  qed
qed

text \<open>Every block from \<open>t\<close> on is added again, beside the new branch.\<close>

lemma raced_walk:
  fixes upre pre b t post
  defines "hs \<equiv> pre @ b # t # post"
  assumes race: "race lib cfg cl cl' upre pre b t post vpre new s"
    and m: "m = raced_monitor fuel lib net cl cl' cfg (chain_of hs) (bh_hash t)"
    and fuel: "length (t # post) + length new + 2 \<le> fuel"
    and "hs = xs @ ys" and "length ys < n" and "healthy cfg w" and "chain_db_inv (pg_data (fst w))"
    and "table w = (if t \<in> set ys then set hs else set (pre @ b # new) \<union> (set (t # post) - set ys))"
    and "process_blocks n m (\<lambda>_. False) (chain_of hs) (cursor hs ys) w = (r, w')"
  shows "r = Inr True \<and> healthy cfg w' \<and> chain_db_inv (pg_data (fst w')) \<and> table w' = set (pre @ b # new) \<union> set (t # post)"
  using assms(5-)
proof (induction ys arbitrary: xs w n)
  case Nil
  then obtain k where n: "n = Suc k" by (cases n) auto
  from Nil show ?case by (auto simp: n cursor_def fwd_next_def)
next
  case (Cons y ys)
  note sys = raced_system [OF race, of fuel net "chain_of hs" "bh_hash t", folded m]
  note good = race_headers [OF race, folded hs_def]
  obtain k where n: "n = Suc k" "length ys < k" using Cons.prems(2) by (cases n) auto
  have nxt: "fwd_next (chain_of hs) (cursor hs (y # ys)) = Inr (Some (y, cursor hs ys))"
    using good(1) fwd_next_chain_of [of xs y ys] by (simp add: Cons.prems(1))
  have y: "y \<in> set hs" "y \<in> set (upre @ pre @ b # t # post)" using Cons.prems(1) by (auto simp: hs_def)
  define w0 where "w0 = (if y = t then tip_round fuel lib net cl' cfg (chain_of hs) w else w)"
  have w0: "healthy cfg w0" "chain_db_inv (pg_data (fst w0))"
    "table w0 = (if y = t then set (pre @ b # new) else table w)"
    using tip_round_switches [OF race fuel Cons.prems(3,4) _ refl, of net, folded hs_def] Cons.prems(3-5)
    by (simp_all add: w0_def)
  obtain rb wb where gb: "get_block (lift_client cl) (bh_hash y) w0 = (rb, wb)" by (rule prod.exhaust)
  have "bh_hash y = bh_hash t \<longleftrightarrow> y = t" using good_headers_unique [OF good(1) y(1), of t] by (auto simp: hs_def)
  then have gb': "get_block (cm_client m) (bh_hash y) w = (rb, wb)"
    using gb by (simp add: m raced_monitor_def at_block_def w0_def pg_monitor_def)
  have clb: "table wb = table w0" "fst wb = fst w0"
    using gb by (auto simp: lift_client_def on_snd_eq)
  obtain blk where blk: "rb = Inr blk" "healthy cfg wb" "bip34_block_height (cm_lib m) blk \<noteq> None"
    using live_systemD(4) [OF sys(1) Cons.prems(3) y(2) gb'] by (cases rb) auto
  have hb: "compute_block_hash (cm_lib m) blk = bh_hash y" "prev_blockhash blk = bh_prev y"
      "bip34_block_height (cm_lib m) blk \<in> {None, Some (bh_height y)}"
    using honest_block [OF sys(2) _ y(2) gb'] blk(1) race by (simp_all add: race_def)
  obtain rp wp where pb: "process_block m blk wb = (rp, wp)" by (rule prod.exhaust)
  have wp: "rp = Inr ()" "healthy cfg wp" using process_block_live [OF sys(1) blk(2,3) pb] by auto
  have "cm_repository m = lift_repository (pg_chain_repository cfg)" by (simp add: m raced_monitor_def pg_monitor_def)
  from pg_headers.process_block_store [OF pb this hb] wp(1) obtain v os "is" u where
    "table v = table wb" "add_block (lift_repository (pg_chain_repository cfg)) y os is v = (Inr u, wp)" by auto
  then have tab: "table wp = (if bh_hash y \<in> bh_hash ` table w0 then table w0 else insert y (table w0))"
    using pg_headers.add_block_ok clb(1) by metis
  have "process_block m blk = process_block (pg_monitor lib net cl cfg) blk"
    by (simp add: m raced_monitor_def process_block_def fun_eq_iff)
  then have "keeps (\<lambda>w. chain_db_inv (pg_data (fst w))) (process_block m blk)"
    using keeps_process_block [OF pg_monitor_keeps_inv] by metis
  from keepsD [OF this _ pb] have inv: "chain_db_inv (pg_data (fst wp))" using w0(2) clb(2) by simp
  have "table wp = (if t \<in> set ys then set hs else set (pre @ b # new) \<union> (set (t # post) - set ys))"
    using raced_step [OF race, folded hs_def, OF Cons.prems(1) Cons.prems(5) w0(3) tab] .
  moreover have "process_blocks k m (\<lambda>_. False) (chain_of hs) (cursor hs ys) wp = (r, w')"
    using Cons.prems(6) n nxt gb' blk pb wp by (simp add: seq_def map_err_def)
  ultimately show ?case
    using Cons.IH [of "xs @ [y]" k wp] Cons.prems(1) n(2) wp(2) inv by simp
qed


text \<open>A full synchronisation whose first block is the base of the stored branch is that walk.\<close>

lemma full_sync_walks:
  assumes good: "good_headers (a # rest)" and v: "good_headers (upre @ a # rest)"
    and m: "follows (\<lambda>_. upre @ a # rest) m" "honest_node (\<lambda>_. {}) (cm_lib m) (upre @ a # rest) (cm_client m)"
    and live: "live_system ok (\<lambda>_. False) (upre @ a # rest) m" "ok w"
    and keep: "keeps P (get_tip_hash (cm_client m))" "\<And>h. keeps P (get_block_header (cm_client m) h)" "P w"
    and fuel: "length rest + 2 \<le> fuel"
    and run: "do_sync fuel m (\<lambda>_. False) (chain_new a) w = (r, w')"
  obtains w3 where "ok w3" and "P w3"
    and "process_blocks fuel m (\<lambda>_. False) (chain_of (a # rest)) (cursor (a # rest) (a # rest)) w3 = (Inr True, w')"
    and "r = Inr (chain_of (a # rest))"
proof -
  let ?view = "upre @ a # rest" and ?new = "chain_of (a # rest)"
  define old where "old = chain_of [a]"
  define t where "t = last (a # rest)"
  have t: "t \<in> set ?view" "a # rest = butlast (a # rest) @ [t]"
    using last_in_set [of "a # rest"] by (auto simp: t_def simp del: last.simps butlast.simps)
  have sub: "set (a # rest) \<subseteq> set ?view" by auto
  obtain r1 w1 where s1: "get_tip_hash (cm_client m) w = (r1, w1)" by (rule prod.exhaust)
  have h1: "r1 = Inr (bh_hash t)" "ok w1" "P w1"
    using live_systemD(2) [OF live s1] followsD(1) [OF m(1) s1] keepsD [OF keep(1,3) s1]
    by (cases r1; auto simp: t_def)+
  obtain r2 w2 where s2: "get_block_header (cm_client m) (bh_hash t) w1 = (r2, w2)" by (rule prod.exhaust)
  have h2: "r2 = Inr t" "ok w2" "P w2"
    using live_systemD(3) [OF live(1) h1(2) t(1) s2] honest_header [OF m(2) v t(1) s2] keepsD [OF keep(2) h1(3) s2]
    by (cases r2; auto)+
  obtain r3 w3 where s3: "catch_up fuel m (\<lambda>_. False) old t (chain_new t) w2 = (r3, w3)" by (rule prod.exhaust)
  then have s3': "catch_up fuel m (\<lambda>_. False) (chain_of [a]) (hd [t]) (chain_of [t]) w2 = (r3, w3)"
    by (simp add: old_def chain_new_chain_of)
  have "contains_block (chain_of [a]) (bh_hash a)" by simp
  from catch_up_live [OF live(1) h2(2) m(2) v sub good this t(2) _ s3'] have h3: "ok w3" "r3 \<noteq> Inr None" "\<nexists>e. r3 = Inl (Err e)"
    by auto
  have "hashes rest \<inter> hashes [a] = {}" using good by (auto simp: good_headers_def hashes_def)
  from catch_up_ends [OF m(1) refl v sub good this _ t(2) _ _ s3'] h3 fuel have r3: "r3 = Inr (Some ?new)" by simp
  have "keeps P (catch_up fuel m (\<lambda>_. False) old t (chain_new t))" by (rule keeps_catch_up [OF keep(2)])
  from keepsD [OF this h2(3) s3] have p3: "P w3" .
  obtain r5 w5 where s5: "process_blocks fuel m (\<lambda>_. False) ?new (cursor (a # rest) (a # rest)) w3 = (r5, w5)" by (rule prod.exhaust)
  have r5: "r5 = Inr True"
    using process_blocks_live [OF live(1) h3(1) good sub _ s5, of "[]"]
      process_blocks_ends [OF good _ _ s5, of "[]"] fuel by auto
  have rt: "chain_retip fuel ?new old = (Inr (), ?new)"
    using chain_retip_chain_of [of "[]" a "[]" a rest fuel] good \<open>hashes rest \<inter> hashes [a] = {}\<close> fuel by (simp add: old_def)
  have "r = Inr ?new \<and> w' = w5"
    using run [unfolded do_sync_def chain_new_chain_of, folded old_def] s1 h1(1) s2 h2(1) s3 r3 s5 r5 rt good
    by (simp add: seq_def map_err_def chain_new_chain_of old_def fwd_new_chain_of [OF good])
  with that [OF h3(1) p3] s5 r5 show thesis by simp
qed

section \<open>The restart after it\<close>

text \<open>Two blocks on one parent cannot be read back as a chain.\<close>

lemma forked_headers_rejected:
  assumes inv: "chain_db_inv d" and base: "a \<in> set (db_blocks d)"
    and x: "x \<in> set (db_blocks d)" "sint (bh_height a) < sint (bh_height x)"
    and y: "y \<in> set (db_blocks d)" "sint (bh_height a) < sint (bh_height y)"
    and "x \<noteq> y" and "bh_prev x = bh_prev y"
  shows "fst (start_chains (pg_monitor lib net cl cfg) (\<lparr>pg_data = d, pg_faults = []\<rparr>, n)) = Inl (Err InvalidChain)"
proof -
  let ?k = "\<lambda>b. - sint (bh_height b)"
  define L where "L = sort_key ?k (db_blocks d)"
  have L: "set L = set (db_blocks d)" "sorted (map ?k L)" by (simp_all add: L_def)
  have "mset (map bh_hash L) = mset (map bh_hash (db_blocks d))" by (simp add: L_def)
  then have dist: "distinct (map bh_hash L)" using inv mset_eq_imp_distinct_iff unfolding chain_db_inv_def by blast
  have later: "\<exists>i. z = rev L ! Suc i \<and> Suc i < length (rev L)"
    if z: "z \<in> set (db_blocks d)" "sint (bh_height a) < sint (bh_height z)" for z
  proof -
    have "z \<in> set (rev L)" using z(1) L(1) by simp
    then obtain i where i: "z = rev L ! i" "i < length (rev L)" by (metis in_set_conv_nth)
    have "i \<noteq> 0"
    proof
      assume "i = 0"
      then have "z = last L" using i by (cases L rule: rev_cases) auto
      moreover have "a \<in> set L" using base L(1) by simp
      then have "?k a \<le> ?k (last L)" using L(2) by (cases L rule: rev_cases) (auto simp: sorted_append)
      ultimately show False using z(2) by simp
    qed
    then show ?thesis using i by (cases i) auto
  qed
  have "\<not> linked (rev L)"
  proof
    assume l: "linked (rev L)"
    obtain i j where ij: "x = rev L ! Suc i" "Suc i < length (rev L)" "y = rev L ! Suc j" "Suc j < length (rev L)"
      using later x y by metis
    have "bh_hash (rev L ! i) = bh_hash (rev L ! j)"
      using linked_nth [OF l ij(2)] linked_nth [OF l ij(4)] assms(8) ij(1,3) by simp
    then have "map bh_hash (rev L) ! i = map bh_hash (rev L) ! j" using ij(2,4) by simp
    moreover have "distinct (map bh_hash (rev L))" using dist by (simp flip: rev_map)
    ultimately have "i = j" using nth_eq_iff_index_eq [of "map bh_hash (rev L)" i j] ij(2,4) by simp
    then show False using ij assms(7) by simp
  qed
  moreover have "L \<noteq> []" using base L(1) by auto
  ultimately have "chain_try_from L = Inl (Err InvalidChain)" using try_from_headers [OF dist] by simp
  then show ?thesis
    by (simp add: start_chains_def pg_monitor_def lift_repository_def pg_chain_repository_def on_fst_def seq_def map_err_def
        pg_get_block_headers_def sql_run fail_def flip: L_def)
qed

text \<open>C20: a reorganisation during a full synchronisation can leave the daemon unable to start. While the
  full task waits for a block of the branch it walks, the tip task undoes that block and switches to
  the node's new branch; then the full task adds the block again, and the rest of the abandoned
  branch with it. Both report success, the table holds both branches, and the next start fails: the
  stored headers are no chain.\<close>

theorem full_sync_revives_branch:
  assumes "race lib cfg cl cl' upre pre b t post vpre new s"
    and "length (pre @ b # t # post) + length new + 2 \<le> fuel"
  shows "(case do_sync fuel (raced_monitor fuel lib net cl cl' cfg (chain_of (pre @ b # t # post)) (bh_hash t))
       (\<lambda>_. False) (chain_new (hd (pre @ [b]))) (s, n) of
     (r, w') \<Rightarrow> r = Inr (chain_of (pre @ b # t # post)) \<and>
       set (db_blocks (pg_data (fst w'))) = set (pre @ b # new) \<union> set (t # post) \<and>
       fst (start_chains (pg_monitor lib net cl' cfg) (\<lparr>pg_data = pg_data (fst w'), pg_faults = []\<rparr>, snd w')) =
         Inl (Err InvalidChain))"
proof -
  let ?hs = "pre @ b # t # post"
  define m where "m = raced_monitor fuel lib net cl cl' cfg (chain_of ?hs) (bh_hash t)"
  define a where "a = hd (pre @ [b])"
  define rest where "rest = tl ?hs"
  have hs: "?hs = a # rest" by (cases pre) (simp_all add: a_def rest_def)
  note good = race_headers [OF assms(1)]
  note sys = raced_system [OF assms(1), of fuel net "chain_of ?hs" "bh_hash t", folded m_def]
  have st: "sync_start pre b (t # post) vpre new (pg_data s)" "pg_faults s = []" "readable cfg (pg_data s)" "new \<noteq> []"
    "good_headers (upre @ ?hs)" using assms(1) by (simp_all add: race_def)
  define P :: "chain_db pg \<times> 'a \<Rightarrow> bool" where "P = (\<lambda>w. pg_data (fst w) = pg_data s)"
  have keep: "keeps P (get_tip_hash (cm_client m))" "\<And>h. keeps P (get_block_header (cm_client m) h)"
    by (auto simp: keeps_def P_def m_def raced_monitor_def at_block_def lift_client_def on_snd_def case_prod_beta)
  obtain r w' where run: "do_sync fuel m (\<lambda>_. False) (chain_new a) (s, n) = (r, w')" by (rule prod.exhaust)
  have fuel: "length rest + 2 \<le> fuel" "length (t # post) + length new + 2 \<le> fuel" "length ?hs < fuel"
    using assms(2) by (auto simp: rest_def)
  obtain w3 where w3: "healthy cfg w3" "P w3"
      "process_blocks fuel m (\<lambda>_. False) (chain_of ?hs) (cursor ?hs ?hs) w3 = (Inr True, w')"
    and r: "r = Inr (chain_of ?hs)"
    using full_sync_walks [OF good(1) [unfolded hs] st(5) [unfolded hs] sys(3,2,1) [unfolded hs] _ keep _ fuel(1) run] st(2,3)
    unfolding hs P_def by auto
  have "chain_db_inv (pg_data (fst w3))" "table w3 = set ?hs"
    using w3(2) st(1) by (simp_all add: P_def sync_start_def)
  from raced_walk [OF assms(1) m_def fuel(2) _ fuel(3) w3(1) this(1) _ w3(3), of "[]"] this(2)
  have w': "chain_db_inv (pg_data (fst w'))" "table w' = set (pre @ b # new) \<union> set (t # post)" by simp_all
  obtain x new' where new: "new = x # new'" using st(4) by (cases new) auto
  have "bh_prev x = bh_hash b" "bh_prev t = bh_hash b" "x \<noteq> t"
    using good new by (auto simp: good_headers_def linked_append hashes_def linked_Cons)
  moreover have "a \<in> table w'" "x \<in> table w'" "t \<in> table w'" by (auto simp: w'(2) new a_def hd_append)
  moreover have "sint (bh_height a) < sint (bh_height t)" "sint (bh_height a) < sint (bh_height x)"
  proof -
    have "rising ?hs" "rising (pre @ b # new)" using st(1) rising_switch [of pre b "t # post" vpre new] by (simp_all add: sync_start_def)
    then show "sint (bh_height a) < sint (bh_height t)" "sint (bh_height a) < sint (bh_height x)"
      by (auto simp: a_def new rising_def sorted_wrt_append hd_append)
  qed
  ultimately have "fst (start_chains (pg_monitor lib net cl' cfg) (\<lparr>pg_data = pg_data (fst w'), pg_faults = []\<rparr>, snd w')) =
      Inl (Err InvalidChain)"
    using forked_headers_rejected [OF w'(1), of a x t] by simp
  with run r w'(2) show ?thesis unfolding m_def a_def by simp
qed

text \<open>The node of \<open>ex_node\<close> before it left the block 3 for the blocks 13 and 14.\<close>

definition ex_old_node :: "unit chain_client" where
  "ex_old_node = ex_node\<lparr>get_tip_hash := ret 3,
     get_block := (\<lambda>h. lift_res (of_option BlockNotFound (map_option
        (\<lambda>x. \<lparr>prev_blockhash = bh_prev x, block_rest = [ucast (bh_hash x), ucast (bh_height x)], txdata = []\<rparr>)
        (find (\<lambda>x. bh_hash x = h) (ex_headers [0, 1, 2, 3]))))),
     get_block_header := (\<lambda>h. lift_res (of_option BlockNotFound (find (\<lambda>x. bh_hash x = h) (ex_headers [0, 1, 2, 3]))))\<rparr>"

lemma ex_race:
  "race ex_node_lib ex_repo_cfg ex_old_node ex_node [] (ex_headers [0, 1]) \<lparr>bh_hash = 2, bh_height = 2, bh_prev = 1\<rparr>
     \<lparr>bh_hash = 3, bh_height = 3, bh_prev = 2\<rparr> [] (ex_headers [0, 1]) (ex_headers [2, 13, 14]) ex_reorg_db"
proof -
  have t: "[\<lparr>bh_hash = 3, bh_height = 3, bh_prev = 2\<rparr>] = ex_headers [2, 3]" by (simp add: ex_headers_def)
  have o: "ex_headers [0, 1] @ \<lparr>bh_hash = 2, bh_height = 2, bh_prev = 1\<rparr> # ex_headers [2, 3] = ex_headers [0, 1, 2, 3]"
    by (simp add: ex_headers_def)
  have "honest_client ex_node_lib (ex_headers [0, 1, 2, 3]) ex_old_node"
    by (simp add: honest_client_def honest_node_def ex_old_node_def ex_node_lib_def ex_headers_def of_option_def hashes_def)
  moreover have "answering_client ex_node_lib (ex_headers [0, 1, 2, 3]) ex_old_node"
    by (simp add: answering_client_def ex_old_node_def ex_node_lib_def ex_headers_def of_option_def hashes_def)
  moreover have "good_headers (ex_headers [0, 1, 2, 3])" by (simp add: good_headers_def ex_headers_def)
  moreover have "pg_faults ex_reorg_db = []" "readable ex_repo_cfg (pg_data ex_reorg_db)"
    by (simp_all add: ex_reorg_db_def readable_def empty_chain_db_def)
  moreover have "ex_headers [2, 13, 14] \<noteq> []" by (simp add: ex_headers_def)
  ultimately show ?thesis
    using ex_sync_start ex_node_honest ex_node_answers unfolding race_def append_Nil t o ex_view_eq [symmetric] by blast
qed

lemma full_sync_revives_branch_witness:
  "\<exists>w'. do_sync 9 (raced_monitor 9 ex_node_lib ''regtest'' ex_old_node ex_node ex_repo_cfg (chain_of (ex_headers [0, 1, 2, 3])) 3)
       (\<lambda>_. False) (chain_new (hd (ex_headers [0, 1]))) (ex_reorg_db, ()) = (Inr (chain_of (ex_headers [0, 1, 2, 3])), w') \<and>
     fst (start_chains (pg_monitor ex_node_lib ''regtest'' ex_node ex_repo_cfg) (\<lparr>pg_data = pg_data (fst w'), pg_faults = []\<rparr>, snd w')) =
       Inl (Err InvalidChain)"
proof -
  have hs: "ex_headers [0, 1] @ \<lparr>bh_hash = 2, bh_height = 2, bh_prev = 1\<rparr> # [\<lparr>bh_hash = 3, bh_height = 3, bh_prev = 2\<rparr>] =
      ex_headers [0, 1, 2, 3]" and hd: "hd (ex_headers [0, 1] @ [\<lparr>bh_hash = 2, bh_height = 2, bh_prev = 1\<rparr>]) = hd (ex_headers [0, 1])"
    by (simp_all add: ex_headers_def)
  have "length (ex_headers [0, 1, 2, 3]) + length (ex_headers [2, 13, 14]) + 2 \<le> 9" by (simp add: ex_headers_def)
  from full_sync_revives_branch [OF ex_race, unfolded hs hd, OF this, of "''regtest''" "()"] show ?thesis
    by (auto split: prod.splits)
qed

end
