(* ===== verification/Chain_Filter.thy ===== *)
theory Chain_Filter
  imports Public_Server Chain_Repository
begin

text \<open>
  The chain filter (\<open>chain_filter/service.rs\<close>, \<open>chain_filter/repository.rs\<close>,
  \<open>postgresql/chain_filter_repository.rs\<close>): outputs that were sent from an address of the filter
  list are not paid out.

  The queries for the outputs run concurrently; \<open>cf_order\<close> puts the outputs in the order in which
  they complete. An error ends the loop.
\<close>

section \<open>The filter list\<close>

record 'w chain_filter_repository =
  add_filter_addresses :: "address list \<Rightarrow> ('w, boxed_error, unit) op"
  has_filtered_address :: "address list \<Rightarrow> ('w, boxed_error, bool) op"

definition pg_add_filter_addresses :: "address list \<Rightarrow> (address list pg, boxed_error, unit) op" where
  "pg_add_filter_addresses as = map_err BoxSqlx (exec (\<lambda>rows. fst (insert_new id rows as)))"

definition pg_has_filtered_address :: "address list \<Rightarrow> (address list pg, boxed_error, bool) op" where
  "pg_has_filtered_address as =
     seq (map_err BoxSqlx (query (filter (\<lambda>a. a \<in> set as)))) (\<lambda>rows. ret (rows \<noteq> []))"

definition pg_chain_filter_repository :: "address list pg chain_filter_repository" where
  "pg_chain_filter_repository =
     \<lparr>add_filter_addresses = pg_add_filter_addresses, has_filtered_address = pg_has_filtered_address\<rparr>"

section \<open>The service\<close>

record 'w chain_filter =
  cf_chain_client :: "'w chain_client"
  cf_repository :: "'w chain_filter_repository"
  cf_order :: "txo list \<Rightarrow> txo list"

definition box_chain_error :: "chain_error \<Rightarrow> boxed_error" where
  "box_chain_error e = (case e of ChainGeneral b \<Rightarrow> b | _ \<Rightarrow> BoxMsg ''chain error'')"

definition should_filter_txo :: "'w chain_filter \<Rightarrow> txo \<Rightarrow> ('w, boxed_error, bool) op" where
  "should_filter_txo cf t =
     seq (map_err box_chain_error (get_sender_addresses (cf_chain_client cf) [txo_outpoint t])) (\<lambda>senders.
     has_filtered_address (cf_repository cf) senders)"

fun filter_loop :: "'w chain_filter \<Rightarrow> txo list \<Rightarrow> ('w, boxed_error, txo list) op" where
  "filter_loop cf [] = ret []"
| "filter_loop cf (t # ts) =
     seq (should_filter_txo cf t) (\<lambda>filtered.
     seq (filter_loop cf ts) (\<lambda>rest. ret (if filtered then rest else t # rest)))"

definition chain_filter_txos :: "'w chain_filter \<Rightarrow> txo list \<Rightarrow> ('w, boxed_error, txo list) op" where
  "chain_filter_txos cf txos = filter_loop cf (cf_order cf txos)"

section \<open>What passes the filter\<close>

lemma filter_loop_Cons:
  "filter_loop cf (t # ts) w = (Inr rs, w') \<longleftrightarrow>
     (\<exists>b w1 rest. should_filter_txo cf t w = (Inr b, w1) \<and> filter_loop cf ts w1 = (Inr rest, w') \<and>
        rs = (if b then rest else t # rest))"
  by (auto simp: run_Inr)

declare filter_loop.simps(2) [simp del]

lemma filter_loop_subset: "filter_loop cf ts w = (Inr rs, w') \<Longrightarrow> mset rs \<subseteq># mset ts"
proof (induction ts arbitrary: w rs)
  case (Cons t ts)
  then obtain b w1 rest where "filter_loop cf ts w1 = (Inr rest, w')" "rs = (if b then rest else t # rest)"
    by (auto simp: filter_loop_Cons)
  moreover have "mset ts \<subseteq># add_mset t (mset ts)" by simp
  ultimately show ?case using Cons.IH [of w1 rest] by (auto intro: subset_mset.order_trans)
qed simp

text \<open>So a server with this filter pays out what the filter selects, as \<open>pay_swap\<close> relies on.\<close>

lemma chain_filter_selects:
  assumes "\<And>ts. mset (cf_order cf ts) = mset ts"
  shows "filter_selects (srv\<lparr>filter_txos := chain_filter_txos cf\<rparr>)"
  unfolding filter_selects_def chain_filter_txos_def
  using filter_loop_subset [of cf] assms by (auto simp: chain_filter_txos_def) metis

section \<open>On the database\<close>

definition lift_chain_client :: "'n chain_client \<Rightarrow> ('d \<times> 'n) chain_client" where
  "lift_chain_client cc =
     \<lparr>broadcast_tx = (\<lambda>tx. on_snd (broadcast_tx cc tx)), get_blockheight = on_snd (get_blockheight cc),
      get_tip_hash = on_snd (get_tip_hash cc), get_block = (\<lambda>h. on_snd (get_block cc h)),
      get_block_header = (\<lambda>h. on_snd (get_block_header cc h)),
      get_sender_addresses = (\<lambda>ps. on_snd (get_sender_addresses cc ps)),
      get_transaction = (\<lambda>t. on_snd (get_transaction cc t))\<rparr>"

definition pg_chain_filter :: "'n chain_client \<Rightarrow> (txo list \<Rightarrow> txo list) \<Rightarrow> (address list pg \<times> 'n) chain_filter" where
  "pg_chain_filter cc order =
     \<lparr>cf_chain_client = lift_chain_client cc,
      cf_repository = \<lparr>add_filter_addresses = (\<lambda>as. on_fst (pg_add_filter_addresses as)),
        has_filtered_address = (\<lambda>as. on_fst (pg_has_filtered_address as))\<rparr>,
      cf_order = order\<rparr>"

lemma should_filter_Inr:
  assumes "should_filter_txo (pg_chain_filter cc order) t (s, n) = (Inr b, w)"
    and "\<And>ps n. get_sender_addresses cc ps n = (senders ps, n)"
  shows "\<exists>as. senders [txo_outpoint t] = Inr as \<and> b = (set as \<inter> set (pg_data s) \<noteq> {}) \<and>
    pg_data (fst w) = pg_data s \<and> snd w = n"
proof -
  obtain as where as: "senders [txo_outpoint t] = Inr as"
    "pg_has_filtered_address as s = (Inr b, fst w)" "snd w = n"
    using assms
    by (auto simp: should_filter_txo_def pg_chain_filter_def lift_chain_client_def on_snd_def on_fst_eq run_Inr)
  then obtain rows where "query (filter (\<lambda>a. a \<in> set as)) s = (Inr rows, fst w)" "b = (rows \<noteq> [])"
    by (auto simp: pg_has_filtered_address_def run_Inr)
  then have "pg_data (fst w) = pg_data s" "b = (set as \<inter> set (pg_data s) \<noteq> {})"
    by (auto dest!: query_Inr simp: filter_empty_conv)
  with as show ?thesis by blast
qed

lemma filter_loop_exact:
  assumes "filter_loop (pg_chain_filter cc order) ts (s, n) = (Inr rs, w)"
    and "\<And>ps n. get_sender_addresses cc ps n = (senders ps, n)"
  shows "rs = filter (\<lambda>t. \<exists>as. senders [txo_outpoint t] = Inr as \<and> set as \<inter> set (pg_data s) = {}) ts"
  using assms(1)
proof (induction ts arbitrary: s rs)
  case (Cons t ts)
  then obtain b s1 n1 rest where t: "should_filter_txo (pg_chain_filter cc order) t (s, n) = (Inr b, (s1, n1))"
    and rest: "filter_loop (pg_chain_filter cc order) ts (s1, n1) = (Inr rest, w)" "rs = (if b then rest else t # rest)"
    by (auto simp: filter_loop_Cons)
  from should_filter_Inr [OF t assms(2)] Cons.IH [of s1 rest] rest show ?case by auto
qed simp

text \<open>An output passes the filter only if the senders of its transaction are known and none of them
  is on the list, whichever order the queries complete in; addresses that were added before are on
  the list. Nothing else is held back, and nothing is made up.\<close>

lemma filtered_sender_excluded:
  assumes "pg_add_filter_addresses as s0 = (Inr u, s)"
    and "chain_filter_txos (pg_chain_filter cc order) txos (s, n) = (Inr ts, w)"
    and "\<And>ps n. get_sender_addresses cc ps n = (senders ps, n)" and "\<And>ts. mset (order ts) = mset ts"
  shows "mset ts = {#t \<in># mset txos. \<exists>from. senders [txo_outpoint t] = Inr from \<and>
      set from \<inter> (set (pg_data s0) \<union> set as) = {}#}"
proof -
  have rows: "set (pg_data s) = set (pg_data s0) \<union> set as"
    using assms(1) insert_new_fst_keys [of id "pg_data s0" as]
    by (auto simp: pg_add_filter_addresses_def map_err_Inr_iff dest!: exec_Inr)
  have ts: "ts = filter (\<lambda>t. \<exists>from. senders [txo_outpoint t] = Inr from \<and> set from \<inter> set (pg_data s) = {}) (order txos)"
    using assms(2) by (intro filter_loop_exact [OF _ assms(3), of order _ s n _ w])
      (simp add: chain_filter_txos_def pg_chain_filter_def)
  show ?thesis unfolding ts mset_filter assms(4) rows by (rule refl)
qed

section \<open>A small list\<close>

definition ex_senders :: "outpoint list \<Rightarrow> chain_error + address list" where
  "ex_senders ps = Inr (if OutPoint 7 0 \<in> set ps then [''bad''] else [''good''])"

definition ex_sender_client :: "unit chain_client" where
  "ex_sender_client = ex_client\<lparr>get_sender_addresses := (\<lambda>ps n. (ex_senders ps, n))\<rparr>"

definition ex_filter_db :: "address list pg" where
  "ex_filter_db = \<lparr>pg_data = [''bad''], pg_faults = []\<rparr>"

lemma ex_add_filter: "pg_add_filter_addresses [''bad''] \<lparr>pg_data = [], pg_faults = []\<rparr> = (Inr (), ex_filter_db)"
  by (simp add: pg_add_filter_addresses_def map_err_def sql_run ex_filter_db_def)

abbreviation "ex_bad \<equiv> cu_utxo ex_claimable"
abbreviation "ex_good \<equiv> cu_utxo ex_claimable2"

lemma ex_filtered:
  "chain_filter_txos (pg_chain_filter ex_sender_client rev) [ex_bad, ex_good] (ex_filter_db, ()) =
     (Inr [ex_good], (ex_filter_db, ()))"
  by (simp add: chain_filter_txos_def filter_loop.simps(2) should_filter_txo_def pg_chain_filter_def lift_chain_client_def
      ex_sender_client_def ex_senders_def on_snd_def on_fst_def seq_def map_err_def pg_has_filtered_address_def sql_run
      ex_filter_db_def ex_claimable_def ex_claimable2_def)

end
