(* ===== verification/Internal_Server.thy ===== *)
theory Internal_Server
  imports Claim_Service Chain_Filter
begin

text \<open>
  The internal server (\<open>internal_server.rs\<close>): the operator's view of the swaps, the filter list, and
  claims by hand. Parsing an outpoint and the texts of hashes, outpoints and errors are parameters;
  cancelling the token is an operation on the state.
\<close>

section \<open>The server\<close>

record 'w internal_server =
  is_chain_client :: "'w chain_client"
  is_chain_filter_repository :: "'w chain_filter_repository"
  is_chain_repository :: "'w chain_repository"
  is_fee_estimator :: "'w fee_estimator"
  is_network :: network
  is_claim_service :: "'w claim_service"
  is_swap_repository :: "'w swap_repository"
  is_cancel :: "'w \<Rightarrow> 'w"
  is_wallet :: "'w wallet"
  is_lib :: bitcoin_lib
  parse_outpoint :: "string \<Rightarrow> outpoint option"
  show_b32 :: "b32 \<Rightarrow> string"
  show_outpoint :: "outpoint \<Rightarrow> string"
  show_claim_error :: "claim_error \<Rightarrow> string"
  show_service_error :: "claim_service_error \<Rightarrow> string"
  show_wallet_error :: "wallet_error \<Rightarrow> string"

abbreviation internal :: "string \<Rightarrow> status" where "internal m \<equiv> Status Internal m"

definition parse_own_address :: "'w internal_server \<Rightarrow> string \<Rightarrow> address option" where
  "parse_own_address srv s = parse_address (is_lib srv) (is_network srv) s"

section \<open>The filter list and the tip\<close>

text \<open>Addresses that do not parse are skipped.\<close>

definition add_address_filters :: "'w internal_server \<Rightarrow> string list \<Rightarrow> ('w, status, unit) op" where
  "add_address_filters srv req =
     map_err (\<lambda>e. internal ''failed to insert addresses'')
       (add_filter_addresses (is_chain_filter_repository srv) (List.map_filter (parse_own_address srv) req))"

record get_info_response =
  gi_block_height :: u64
  gi_network :: string

definition get_info :: "'w internal_server \<Rightarrow> ('w, status, get_info_response) op" where
  "get_info srv =
     seq (map_err status_of_chain_repository (get_tip (is_chain_repository srv))) (\<lambda>tip.
     ret \<lparr>gi_block_height = (case tip of None \<Rightarrow> 0 | Some b \<Rightarrow> bh_height b), gi_network = is_network srv\<rparr>)"

section \<open>One swap\<close>

record swap_output_spend =
  sos_block_hash :: string
  sos_confirmation_height :: u64
  sos_input_index :: u32
  sos_txid :: string

record swap_output =
  so_confirmation_height :: u64
  so_outpoint :: string
  so_block_hash :: string
  so_spend :: "swap_output_spend option"

record payment_attempt_info =
  pai_creation_time :: i64
  pai_label :: label
  pai_outpoints :: "string list"
  pai_amount_msat :: u64
  pai_payment_request :: string
  pai_error :: "string option"
  pai_success :: bool
  pai_pending :: bool

record get_swap_response =
  gs_address :: address
  gs_creation_time :: i64
  gs_outputs :: "swap_output list"
  gs_payment_hash :: string
  gs_lock_time :: u32
  gs_active_locks :: "swap_lock list"
  gs_payment_attempts :: "payment_attempt_info list"

definition find_status :: "get_swaps_error \<Rightarrow> status" where
  "find_status e = (case e of GetSwapsNotFound \<Rightarrow> Status NotFound ''swap not found'' | _ \<Rightarrow> internal ''get swap'')"

text \<open>Exactly one of the three parameters selects the swap.\<close>

definition find_swap ::
    "'w internal_server \<Rightarrow> string option \<Rightarrow> string option \<Rightarrow> bytes option \<Rightarrow> ('w, status, swap_state) op" where
  "find_swap srv addr payment_request payment_hash =
     (case (addr, payment_request, payment_hash) of
        (Some a, None, None) \<Rightarrow>
          seq (lift_res (of_option (invalid_argument ''invalid address'') (parse_own_address srv a))) (\<lambda>a.
          map_err find_status (get_swap_by_address (is_swap_repository srv) a))
      | (None, Some r, None) \<Rightarrow> map_err find_status (get_swap_by_payment_request (is_swap_repository srv) r)
      | (None, None, Some h) \<Rightarrow>
          seq (lift_res (of_option (invalid_argument ''invalid payment hash'') (to_b32 h))) (\<lambda>h.
          map_err find_status (get_swap_by_hash (is_swap_repository srv) h))
      | _ \<Rightarrow> fail (invalid_argument ''one of the parameters must be set''))"

definition swap_output_of :: "'w internal_server \<Rightarrow> txo_with_spend \<Rightarrow> swap_output" where
  "swap_output_of srv t =
     \<lparr>so_confirmation_height = txo_block_height (tws_txo t), so_outpoint = show_outpoint srv (txo_outpoint (tws_txo t)),
      so_block_hash = show_b32 srv (txo_block_hash (tws_txo t)),
      so_spend = map_option (\<lambda>sp. \<lparr>sos_block_hash = show_b32 srv (spend_block_hash sp),
        sos_confirmation_height = spend_block_height sp, sos_input_index = spend_input_index sp,
        sos_txid = show_b32 srv (spend_tx sp)\<rparr>) (tws_spend t)\<rparr>"

definition attempt_info :: "'w internal_server \<Rightarrow> payment_attempt_with_result \<Rightarrow> status + payment_attempt_info" where
  "attempt_info srv a =
     bind_res (of_option (internal ''invalid system time'') (secs_of_time (pa_creation_time (pwr_attempt a)))) (\<lambda>secs.
     Inr \<lparr>pai_creation_time = secs, pai_label = pa_label (pwr_attempt a),
          pai_outpoints = map (show_outpoint srv) (pa_outputs (pwr_attempt a)),
          pai_amount_msat = pa_amount_msat (pwr_attempt a), pai_payment_request = pa_payment_request (pwr_attempt a),
          pai_error = (case pwr_result a of Some (PaymentFailure e) \<Rightarrow> Some e | _ \<Rightarrow> None),
          pai_success = (case pwr_result a of Some (PaymentSuccess p) \<Rightarrow> True | _ \<Rightarrow> False),
          pai_pending = (pwr_result a = None)\<rparr>)"

definition get_swap ::
    "'w internal_server \<Rightarrow> string option \<Rightarrow> string option \<Rightarrow> bytes option \<Rightarrow> ('w, status, get_swap_response) op" where
  "get_swap srv addr payment_request payment_hash =
     seq (find_swap srv addr payment_request payment_hash) (\<lambda>swap.
     let pub = swap_public (ss_swap swap) in
     seq (map_err (\<lambda>_. internal ''outputs'') (get_txos_for_address_with_spends (is_chain_repository srv) (sp_address pub)))
       (\<lambda>txos.
     seq (map_err (\<lambda>_. internal ''locks'') (get_swap_locks (is_swap_repository srv) (swap_hash pub))) (\<lambda>locks.
     seq (map_err (\<lambda>_. internal ''attempts'') (get_swap_payment_attempts (is_swap_repository srv) (swap_hash pub)))
       (\<lambda>attempts.
     seq (lift_res (of_option (internal ''invalid system time'') (secs_of_time (creation_time (ss_swap swap))))) (\<lambda>secs.
     seq (lift_res (collect_res (map (attempt_info srv) attempts))) (\<lambda>infos.
     ret \<lparr>gs_address = sp_address pub, gs_creation_time = secs, gs_outputs = map (swap_output_of srv) txos,
          gs_payment_hash = show_b32 srv (swap_hash pub), gs_lock_time = ucast (lock_time pub),
          gs_active_locks = locks, gs_payment_attempts = infos\<rparr>))))))"

section \<open>Claims by hand\<close>

record claimable_info =
  ci_outpoint :: string
  ci_swap_hash :: string
  ci_lock_time :: u32
  ci_confirmation_height :: u64
  ci_block_hash :: string
  ci_blocks_left :: i32
  ci_paid_with_request :: "string option"

definition claimable_info_of :: "'w internal_server \<Rightarrow> u64 \<Rightarrow> claimable_utxo \<Rightarrow> claimable_info" where
  "claimable_info_of srv h c =
     \<lparr>ci_outpoint = show_outpoint srv (cu_outpoint c), ci_swap_hash = show_b32 srv (cu_hash c),
      ci_lock_time = ucast (lock_time (swap_public (cu_swap c))),
      ci_confirmation_height = txo_block_height (cu_utxo c), ci_block_hash = show_b32 srv (txo_block_hash (cu_utxo c)),
      ci_blocks_left = claimable_blocks_left c h, ci_paid_with_request = paid_with_request c\<rparr>"

definition status_of_service :: "'w internal_server \<Rightarrow> claim_service_error \<Rightarrow> status" where
  "status_of_service srv e = internal (show_service_error srv e)"

definition status_of_wallet :: "'w internal_server \<Rightarrow> wallet_error \<Rightarrow> status" where
  "status_of_wallet srv e = internal (show_wallet_error srv e)"

definition status_of_claim :: "'w internal_server \<Rightarrow> claim_error \<Rightarrow> status" where
  "status_of_claim srv e = internal (show_claim_error srv e)"

definition list_claimable_handler :: "'w internal_server \<Rightarrow> ('w, status, claimable_info list) op" where
  "list_claimable_handler srv =
     seq (map_err status_of_chain (get_blockheight (is_chain_client srv))) (\<lambda>current_height.
     seq (map_err (status_of_service srv) (list_claimable (is_claim_service srv))) (\<lambda>claimables.
     ret (map (claimable_info_of srv current_height) claimables)))"

record claim_request =
  crq_outpoints :: "string list"
  crq_destination_address :: "string option"
  crq_fee_per_kw :: "u32 option"
  crq_auto_bump :: bool

fun select_claimables ::
    "'w internal_server \<Rightarrow> claimable_utxo list \<Rightarrow> string list \<Rightarrow> status + claimable_utxo list" where
  "select_claimables srv all [] = Inr []"
| "select_claimables srv all (s # ss) =
     bind_res (of_option (invalid_argument ''invalid outpoint'') (parse_outpoint srv s)) (\<lambda>p.
     bind_res (of_option (invalid_argument ''outpoint not found'') (find (\<lambda>c. cu_outpoint c = p) all)) (\<lambda>c.
     bind_res (select_claimables srv all ss) (\<lambda>cs. Inr (c # cs))))"

definition claim_handler :: "'w internal_server \<Rightarrow> claim_request \<Rightarrow> ('w, status, string \<times> u32) op" where
  "claim_handler srv req =
     seq (map_err (status_of_service srv) (list_claimable (is_claim_service srv))) (\<lambda>all_claimables.
     seq (lift_res (select_claimables srv all_claimables (crq_outpoints req))) (\<lambda>claimables.
     seq (map_err status_of_chain (get_blockheight (is_chain_client srv))) (\<lambda>current_height.
     seq (lift_res (of_option (invalid_argument ''no outpoints selected'')
            (min_blocks_left claimables current_height))) (\<lambda>blocks_left.
     seq (case crq_fee_per_kw req of
            Some f \<Rightarrow> ret \<lparr>sat_per_kw = f\<rparr>
          | None \<Rightarrow> map_err status_of_fee (is_fee_estimator srv blocks_left)) (\<lambda>fee.
     seq (case crq_destination_address req of
            Some a \<Rightarrow> lift_res (of_option (invalid_argument ''address'') (parse_own_address srv a))
          | None \<Rightarrow> map_err (status_of_wallet srv) (is_wallet srv)) (\<lambda>destination.
     seq (map_err (status_of_claim srv)
            (claim_outputs (is_claim_service srv) claimables fee current_height destination (crq_auto_bump req))) (\<lambda>tx.
     ret (show_b32 srv (compute_txid (is_lib srv) tx), sat_per_kw fee))))))))"

definition stop_handler :: "'w internal_server \<Rightarrow> ('w, status, unit) op" where
  "stop_handler srv w = (Inr (), is_cancel srv w)"

section \<open>What a claim by hand sends\<close>

lemma select_claimables_Inr:
  "select_claimables srv all ss = Inr cs \<Longrightarrow>
     set cs \<subseteq> set all \<and> map (parse_outpoint srv) ss = map (Some \<circ> cu_outpoint) cs"
proof (induction ss arbitrary: cs)
  case (Cons s ss)
  then show ?case by (fastforce simp: bind_res_Inr find_Some_iff)
qed simp

text \<open>C35: a claim by hand that succeeds has broadcast one transaction, whose inputs are the requested
  outpoints in their order, each an output the service lists as claimable, paid for or not; its
  single output goes to the requested address, if one was given, and the fee rate that is recorded
  and answered is the requested one, if one was given.\<close>

theorem claim_by_hand_sent:
  assumes "claim_handler srv req w = (Inr (txid, rate), w')"
  defines "cs \<equiv> is_claim_service srv"
  shows "\<exists>all cls tx out dest h v1 v2 v3 v4 w1.
    list_claimable cs w = (Inr all, w1) \<and> cls \<noteq> [] \<and> set cls \<subseteq> set all \<and>
    map (parse_outpoint srv) (crq_outpoints req) = map (Some \<circ> cu_outpoint) cls \<and>
    map previous_output (tx_input tx) = sort (map cu_outpoint cls) \<and>
    tx_output tx = [out] \<and> txo_script out = address_script (cs_lib cs) dest \<and>
    dust_limit_sat (cs_swap_service cs) \<le> txo_value out \<and>
    (\<forall>a. crq_destination_address req = Some a \<longrightarrow> parse_own_address srv a = Some dest) \<and>
    (\<forall>f. crq_fee_per_kw req = Some f \<longrightarrow> rate = f) \<and>
    create_claim_tx (cs_swap_service cs) (cs_lib cs) cls \<lparr>sat_per_kw = rate\<rparr> h dest v1 = (Inr tx, v2) \<and>
    broadcast_tx (cs_chain_client cs) tx v2 = (Inr (), v3) \<and>
    add_claim (cs_claim_repository cs)
      \<lparr>cl_creation_time = cs_now cs v3, cl_tx = tx, cl_destination = dest, cl_fee_per_kw = rate,
       cl_auto_bump = crq_auto_bump req\<rparr> v3 = (Inr (), v4) \<and>
    txid = show_b32 srv (compute_txid (is_lib srv) tx)"
proof -
  obtain all w1 cls w2 h w3 b fee w4 dest v1 tx v5 where
    all: "list_claimable cs w = (Inr all, w1)" and cls: "select_claimables srv all (crq_outpoints req) = Inr cls"
    and b: "min_blocks_left cls h = Some b"
    and fee: "(case crq_fee_per_kw req of Some f \<Rightarrow> ret \<lparr>sat_per_kw = f\<rparr>
      | None \<Rightarrow> map_err status_of_fee (is_fee_estimator srv b)) w3 = (Inr fee, w4)"
    and dest: "(case crq_destination_address req of
        Some a \<Rightarrow> lift_res (of_option (invalid_argument ''address'') (parse_own_address srv a))
      | None \<Rightarrow> map_err (status_of_wallet srv) (is_wallet srv)) w4 = (Inr dest, v1)"
    and out: "claim_outputs cs cls fee h dest (crq_auto_bump req) v1 = (Inr tx, v5)"
    and ans: "txid = show_b32 srv (compute_txid (is_lib srv) tx)" "rate = sat_per_kw fee"
    using assms(1) unfolding claim_handler_def seq_Inr_iff map_err_Inr_iff lift_res_Inr of_option_Inr cs_def
    by (auto simp: ret_def)
  have "cls \<noteq> []" using b by auto
  moreover have "\<forall>a. crq_destination_address req = Some a \<longrightarrow> parse_own_address srv a = Some dest"
    "\<forall>f. crq_fee_per_kw req = Some f \<longrightarrow> sat_per_kw fee = f"
    using dest fee by (auto simp: lift_res_Inr of_option_def split: option.splits)
  moreover have eta: "\<lparr>sat_per_kw = sat_per_kw fee\<rparr> = fee" by simp
  ultimately show ?thesis
    unfolding ans(2) eta using claim_outputs_sent [OF out] all select_claimables_Inr [OF cls] ans(1) by blast
qed

section \<open>A small server\<close>

definition ex_listing_service :: "unit claim_service" where
  "ex_listing_service =
     (ex_claim_service (ex_repository\<lparr>get_swaps_with_paid_outpoints := (\<lambda>as. ret
        [''a'' \<mapsto> \<lparr>spo_swap_state = \<lparr>ss_swap = ex_swap, ss_preimage = Some 9\<rparr>, spo_paid_outpoints = []\<rparr>])\<rparr>))
     \<lparr>cs_chain_repository := ex_watching\<lparr>get_utxos := ret [\<lparr>au_address = ''a'', au_utxo = cu_utxo ex_claimable\<rparr>]\<rparr>\<rparr>"

definition ex_internal_server :: "unit internal_server" where
  "ex_internal_server =
     \<lparr>is_chain_client = ex_chain_client,
      is_chain_filter_repository = \<lparr>add_filter_addresses = (\<lambda>as. ret ()), has_filtered_address = (\<lambda>as. ret False)\<rparr>,
      is_chain_repository = ex_watching, is_fee_estimator = (\<lambda>b. ret \<lparr>sat_per_kw = 253\<rparr>), is_network = ''regtest'',
      is_claim_service = ex_listing_service, is_swap_repository = ex_repository, is_cancel = id, is_wallet = ret ''d'',
      is_lib = ex_bitcoin_lib, parse_outpoint = (\<lambda>s. if s = ''7:0'' then Some (OutPoint 7 0) else None),
      show_b32 = (\<lambda>b. ''id''), show_outpoint = (\<lambda>p. ''7:0''), show_claim_error = (\<lambda>e. ''e''),
      show_service_error = (\<lambda>e. ''e''), show_wallet_error = (\<lambda>e. ''e'')\<rparr>"

definition ex_claim_request :: claim_request where
  "ex_claim_request =
     \<lparr>crq_outpoints = [''7:0''], crq_destination_address = Some ''d'', crq_fee_per_kw = Some 503, crq_auto_bump = False\<rparr>"

lemma ex_handled: "claim_handler ex_internal_server ex_claim_request () = (Inr (''id'', 503), ())"
  by (simp add: claim_handler_def ex_internal_server_def ex_claim_request_def ex_listing_service_def ex_claim_service_def
      ex_chain_client_def ex_watching_def ex_repository_def list_claimable_def Let_def claimable_of_def List.map_filter_def
      seq_def map_err_def bind_res_def of_option_def parse_own_address_def claim_outputs_def create_claim_tx_def
      lock_time_from_height_def checked_add_def unsigned_claim_tx_def claim_total_def ex_claimable_def ex_service_def
      ex_crypto_def ex_bitcoin_lib_def saturating_sub_def div_ceil_def claim_witness_def taproot_spend_info_def
      key_agg_cache_def ex_swap_def)

lemma claim_by_hand_sent_witness:
  "\<exists>tx cls. map previous_output (tx_input tx) = sort (map cu_outpoint cls) \<and> map cu_outpoint cls = [OutPoint 7 0] \<and>
     broadcast_tx ex_chain_client tx () = (Inr (), ())"
proof -
  have c: "cs_chain_client (is_claim_service ex_internal_server) = ex_chain_client"
    by (simp add: ex_internal_server_def ex_listing_service_def ex_claim_service_def)
  obtain tx v2 v3 cls where "map previous_output (tx_input tx) = sort (map cu_outpoint cls)"
    and "map (parse_outpoint ex_internal_server) (crq_outpoints ex_claim_request) = map (Some \<circ> cu_outpoint) cls"
    and "broadcast_tx ex_chain_client tx v2 = (Inr (), v3)"
    using claim_by_hand_sent [OF ex_handled, unfolded c] by blast
  moreover from this have "map cu_outpoint cls = [OutPoint 7 0]"
    by (auto simp: ex_internal_server_def ex_claim_request_def)
  ultimately show ?thesis by (metis (full_types) old.unit.exhaust)
qed

end
