(* ===== verification/Bitcoind_Client.thy ===== *)
theory Bitcoind_Client
  imports Chain_Types
begin

text \<open>
  The client of the bitcoin node (\<open>bitcoind/client.rs\<close>, \<open>bitcoind/jsonrpc.rs\<close>,
  \<open>bitcoind/messages.rs\<close>) and the fee estimators (\<open>bitcoind/fee_estimator.rs\<close>,
  \<open>chain/fee_estimator.rs\<close>).

  The transport, JSON, hex and the consensus decoding of blocks and transactions are parameters: a
  value of \<open>'j\<close> is a JSON value. The counter of the request ids is a part of the state. A fee rate
  is a floating point number of the type \<open>'f\<close>, and what is computed with it a parameter.
\<close>

section \<open>Messages\<close>

record rpc_error =
  re_code :: i64
  re_message :: string

datatype 'j rpc_body =
    Notification string 'j
  | Response string 'j
  | ErrorBody string rpc_error

datatype rpc_param = ParamString string | ParamNumber u32

datatype call_error = RpcError rpc_error | Deserialize string | CallGeneral boxed_error

record block_header_response =
  bhr_hash :: string
  bhr_height :: u64
  bhr_previousblockhash :: string

record ('w, 'j, 'f) bitcoind_client =
  bd_post :: "u64 \<Rightarrow> string \<Rightarrow> rpc_param list \<Rightarrow> ('w, boxed_error, 'j rpc_body) op"
  bd_network :: network
  bd_lib :: bitcoin_lib
  json_string :: "'j \<Rightarrow> string option"
  json_number :: "'j \<Rightarrow> u64 option"
  json_header :: "'j \<Rightarrow> block_header_response option"
  json_feerate :: "'j \<Rightarrow> 'f option"
  hex_bytes :: "string \<Rightarrow> bytes option"
  hex_hash :: "string \<Rightarrow> b32 option"
  show_txid :: "b32 \<Rightarrow> string"
  serialize_tx :: "transaction \<Rightarrow> string"
  decode_tx :: "bytes \<Rightarrow> transaction option"
  decode_block :: "bytes \<Rightarrow> block option"
  is_replacement_error :: "string \<Rightarrow> bool"   \<comment> \<open>contains ``insufficient fee, rejecting replacement''\<close>
  ceil_sat_per_kw :: "'f \<Rightarrow> u32"

section \<open>Calls\<close>

definition get_req_id :: "('w \<times> u64, 'e, u64) op" where
  "get_req_id w = (Inr (snd w + 1), (fst w, snd w + 1))"

definition bd_call ::
    "('w, 'j, 'f) bitcoind_client \<Rightarrow> string \<Rightarrow> rpc_param list \<Rightarrow> ('j \<Rightarrow> 'r option) \<Rightarrow> ('w \<times> u64, call_error, 'r) op" where
  "bd_call bd method params from_value =
     seq get_req_id (\<lambda>i.
     seq (map_err CallGeneral (\<lambda>w. case bd_post bd i method params (fst w) of (r, v) \<Rightarrow> (r, (v, snd w)))) (\<lambda>body.
     case body of
       Notification m v \<Rightarrow> lift_res (of_option (Deserialize ''json'') (from_value v))
     | Response j v \<Rightarrow> lift_res (of_option (Deserialize ''json'') (from_value v))
     | ErrorBody j e \<Rightarrow> fail (RpcError e)))"

fun chain_error_of_call :: "call_error \<Rightarrow> chain_error" where
  "chain_error_of_call (RpcError e) = ChainGeneral (BoxMsg (re_message e))"
| "chain_error_of_call (Deserialize m) = ChainGeneral (BoxMsg m)"
| "chain_error_of_call (CallGeneral e) = ChainGeneral e"

fun broadcast_error_of_call :: "(string \<Rightarrow> bool) \<Rightarrow> call_error \<Rightarrow> broadcast_error" where
  "broadcast_error_of_call replaced (RpcError e) =
     (if replaced (re_message e) then InsufficientFeeRejectingReplacement (re_message e)
      else UnknownError (re_message e))"
| "broadcast_error_of_call replaced e = BroadcastChain (chain_error_of_call e)"

definition u32_clamp :: "u32 \<Rightarrow> u32 \<Rightarrow> u32 \<Rightarrow> u32" where
  "u32_clamp x lo hi = (if x < lo then lo else if hi < x then hi else x)"

definition i32_clamp :: "i32 \<Rightarrow> i32 \<Rightarrow> i32 \<Rightarrow> i32" where
  "i32_clamp x lo hi = (if sint x < sint lo then lo else if sint hi < sint x then hi else x)"

definition estimatesmartfee :: "('w, 'j, 'f) bitcoind_client \<Rightarrow> u32 \<Rightarrow> ('w \<times> u64, call_error, 'f) op" where
  "estimatesmartfee bd conf_target =
     bd_call bd ''estimatesmartfee'' [ParamNumber (u32_clamp conf_target 1 1008)] (json_feerate bd)"

definition getrawtransaction :: "('w, 'j, 'f) bitcoind_client \<Rightarrow> txid \<Rightarrow> ('w \<times> u64, call_error, string) op" where
  "getrawtransaction bd t = bd_call bd ''getrawtransaction'' [ParamString (show_txid bd t)] (json_string bd)"

definition getbestblockhash :: "('w, 'j, 'f) bitcoind_client \<Rightarrow> ('w \<times> u64, call_error, string) op" where
  "getbestblockhash bd = bd_call bd ''getbestblockhash'' [] (json_string bd)"

definition getblock :: "('w, 'j, 'f) bitcoind_client \<Rightarrow> block_hash \<Rightarrow> ('w \<times> u64, call_error, string) op" where
  "getblock bd h = bd_call bd ''getblock'' [ParamString (show_txid bd h), ParamNumber 0] (json_string bd)"

definition getblockcount :: "('w, 'j, 'f) bitcoind_client \<Rightarrow> ('w \<times> u64, call_error, u64) op" where
  "getblockcount bd = bd_call bd ''getblockcount'' [] (json_number bd)"

definition getblockheader :: "('w, 'j, 'f) bitcoind_client \<Rightarrow> block_hash \<Rightarrow> ('w \<times> u64, call_error, block_header_response) op" where
  "getblockheader bd h = bd_call bd ''getblockheader'' [ParamString (show_txid bd h)] (json_header bd)"

definition sendrawtransaction :: "('w, 'j, 'f) bitcoind_client \<Rightarrow> transaction \<Rightarrow> ('w \<times> u64, call_error, string) op" where
  "sendrawtransaction bd tx = bd_call bd ''sendrawtransaction'' [ParamString (serialize_tx bd tx)] (json_string bd)"

section \<open>The chain client\<close>

definition bd_broadcast_tx :: "('w, 'j, 'f) bitcoind_client \<Rightarrow> transaction \<Rightarrow> ('w \<times> u64, broadcast_error, unit) op" where
  "bd_broadcast_tx bd tx =
     seq (map_err (broadcast_error_of_call (is_replacement_error bd)) (sendrawtransaction bd tx)) (\<lambda>_.
     ret ())"

definition bd_get_blockheight :: "('w, 'j, 'f) bitcoind_client \<Rightarrow> ('w \<times> u64, chain_error, u64) op" where
  "bd_get_blockheight bd = map_err chain_error_of_call (getblockcount bd)"

definition bd_get_tip_hash :: "('w, 'j, 'f) bitcoind_client \<Rightarrow> ('w \<times> u64, chain_error, block_hash) op" where
  "bd_get_tip_hash bd =
     seq (map_err chain_error_of_call (getbestblockhash bd)) (\<lambda>hex.
     lift_res (of_option (ChainGeneral (BoxMsg ''hash'')) (hex_hash bd hex)))"

definition bd_get_block :: "('w, 'j, 'f) bitcoind_client \<Rightarrow> block_hash \<Rightarrow> ('w \<times> u64, chain_error, block) op" where
  "bd_get_block bd h =
     seq (map_err chain_error_of_call (getblock bd h)) (\<lambda>hex.
     seq (lift_res (of_option (ChainGeneral (BoxMsg ''hex'')) (hex_bytes bd hex))) (\<lambda>raw.
     lift_res (of_option (ChainGeneral (BoxMsg ''consensus'')) (decode_block bd raw))))"

definition bd_get_block_header ::
    "('w, 'j, 'f) bitcoind_client \<Rightarrow> block_hash \<Rightarrow> ('w \<times> u64, chain_error, block_header) op" where
  "bd_get_block_header bd h =
     seq (map_err chain_error_of_call (getblockheader bd h)) (\<lambda>resp.
     seq (lift_res (of_option (ChainGeneral (BoxMsg ''hash'')) (hex_hash bd (bhr_hash resp)))) (\<lambda>hash.
     seq (lift_res (of_option (ChainGeneral (BoxMsg ''hash'')) (hex_hash bd (bhr_previousblockhash resp)))) (\<lambda>prev.
     ret \<lparr>bh_hash = hash, bh_height = bhr_height resp, bh_prev = prev\<rparr>)))"

definition bd_get_transaction :: "('w, 'j, 'f) bitcoind_client \<Rightarrow> txid \<Rightarrow> ('w \<times> u64, chain_error, transaction) op" where
  "bd_get_transaction bd t =
     seq (map_err chain_error_of_call (getrawtransaction bd t)) (\<lambda>s.
     seq (lift_res (of_option (ChainGeneral (BoxMsg ''invalid tx hex'')) (hex_bytes bd s))) (\<lambda>raw.
     lift_res (of_option (ChainGeneral (BoxMsg ''consensus'')) (decode_tx bd raw))))"

text \<open>The output an input spends: the length of the outputs is compared with \<open><\<close>, so an index equal to
  it passes the check, and the access panics.\<close>

definition spent_output :: "transaction \<Rightarrow> u32 \<Rightarrow> chain_error exn + tx_out" where
  "spent_output tx vout =
     (if length (tx_output tx) < unat vout then Inl (Err (ChainGeneral (BoxMsg ''txin output does not exist'')))
      else if length (tx_output tx) \<le> unat vout then Inl Panic
      else Inr (tx_output tx ! unat vout))"

definition input_address :: "('w, 'j, 'f) bitcoind_client \<Rightarrow> tx_in \<Rightarrow> ('w \<times> u64, chain_error exn, address) op" where
  "input_address bd vin =
     seq (map_err Err (bd_get_transaction bd (op_txid (previous_output vin)))) (\<lambda>txin.
     seq (lift_res (spent_output txin (op_vout (previous_output vin)))) (\<lambda>txout.
     lift_res (of_option (Err (ChainGeneral (BoxMsg ''address'')))
       (address_from_script (bd_lib bd) (bd_network bd) (txo_script txout)))))"

fun input_addresses :: "('w, 'j, 'f) bitcoind_client \<Rightarrow> tx_in list \<Rightarrow> ('w \<times> u64, chain_error exn, address list) op" where
  "input_addresses bd [] = ret []"
| "input_addresses bd (vin # vins) =
     seq (input_address bd vin) (\<lambda>a. seq (input_addresses bd vins) (\<lambda>as. ret (a # as)))"

fun bd_get_sender_addresses ::
    "('w, 'j, 'f) bitcoind_client \<Rightarrow> outpoint list \<Rightarrow> ('w \<times> u64, chain_error exn, address list) op" where
  "bd_get_sender_addresses bd [] = ret []"
| "bd_get_sender_addresses bd (p # ps) =
     seq (map_err Err (bd_get_transaction bd (op_txid p))) (\<lambda>tx.
     seq (input_addresses bd (tx_input tx)) (\<lambda>as.
     seq (bd_get_sender_addresses bd ps) (\<lambda>rest. ret (as @ rest))))"

section \<open>Fee estimators\<close>

definition bd_estimate_fee :: "('w, 'j, 'f) bitcoind_client \<Rightarrow> ('w \<times> u64) fee_estimator" where
  "bd_estimate_fee bd conf_target =
     (let target = i32_clamp conf_target 1 1008 in
      seq (map_err (\<lambda>e. FeeGeneral (case e of RpcError r \<Rightarrow> BoxMsg (re_message r) | Deserialize m \<Rightarrow> BoxMsg m
             | CallGeneral b \<Rightarrow> b)) (estimatesmartfee bd target)) (\<lambda>feerate.
      ret \<lparr>sat_per_kw = ceil_sat_per_kw bd feerate\<rparr>))"

definition fallback_estimate_fee :: "'w fee_estimator \<Rightarrow> 'w fee_estimator \<Rightarrow> 'w fee_estimator" where
  "fallback_estimate_fee estimator1 estimator2 conf_target =
     attempt (estimator1 conf_target) (\<lambda>r1. case r1 of
         Inr res \<Rightarrow> ret res
       | Inl e \<Rightarrow> attempt (estimator2 conf_target) (\<lambda>r2. case r2 of
           Inr res \<Rightarrow> ret res
         | Inl e \<Rightarrow> fail FeeUnavailable))"

section \<open>Facts\<close>

lemma unat_small_sint:
  fixes t :: i32
  assumes "0 \<le> sint t"
  shows "unat t = nat (sint t)"
proof -
  have "sint t < 2 ^ 31" using sint_lt [of t] by simp
  with assms have "take_bit 32 (sint t) = sint t" by (simp add: take_bit_int_eq_self_iff)
  then have "uint t = sint t" using uint_sint [of t] by simp
  then show ?thesis by (simp add: unat_eq_nat_uint)
qed

lemma i32_clamp_range: "unat (i32_clamp t 1 1008) = nat (max 1 (min 1008 (sint t)))"
proof -
  have "sint (1 :: i32) = 1" "sint (1008 :: i32) = 1008"
    using sint_of_small [of "1 :: i32"] sint_of_small [of "1008 :: i32"] by simp_all
  then show ?thesis by (auto simp: i32_clamp_def unat_small_sint)
qed

text \<open>Whatever number of blocks is left, negative ones included, the node is asked for the fee of a
  target between 1 and 1008, the one nearest to it, and the clamp of the call changes nothing.\<close>

lemma fee_target_in_range:
  "unat (i32_clamp t 1 1008) = nat (max 1 (min 1008 (sint t))) \<and>
   estimatesmartfee bd (i32_clamp t 1 1008) =
     bd_call bd ''estimatesmartfee'' [ParamNumber (i32_clamp t 1 1008)] (json_feerate bd)"
proof
  show range: "unat (i32_clamp t 1 1008) = nat (max 1 (min 1008 (sint t)))" by (rule i32_clamp_range)
  then have "u32_clamp (i32_clamp t 1 1008) 1 1008 = i32_clamp t 1 1008"
    by (auto simp: u32_clamp_def word_less_nat_alt)
  then show "estimatesmartfee bd (i32_clamp t 1 1008) =
      bd_call bd ''estimatesmartfee'' [ParamNumber (i32_clamp t 1 1008)] (json_feerate bd)"
    by (simp add: estimatesmartfee_def)
qed

end
