(* ===== verification/Float64.thy ===== *)
theory Float64
  imports Complex_Main Swapd_Prelude
begin

text \<open>
  The part of \<open>f64\<close> the program computes with: IEEE binary64 rounded to nearest, ties to even.
  A finite number is its exact rational value; the sign of a zero is not kept, since no operation
  here tells the zeros apart. \<open>parse_f64\<close> is \<open>str::parse::<f64>\<close> of the standard library, whose
  documentation gives the grammar.
\<close>

section \<open>Values\<close>

datatype f64 = NaN | Infinity (negative: bool) | Fin rat

section \<open>Rounding\<close>

function ilog2 :: "int \<Rightarrow> int" where
  "ilog2 n = (if n < 2 then 0 else 1 + ilog2 (n div 2))"
  by pat_completeness auto

termination ilog2
  by (relation "measure nat") auto

declare ilog2.simps [simp del]

text \<open>The exponent of a positive number: the \<open>e\<close> with \<open>2^e \<le> x < 2^(e + 1)\<close>.\<close>

definition expo :: "rat \<Rightarrow> int" where
  "expo x = (case quotient_of x of (p, q) \<Rightarrow>
     let e = ilog2 p - ilog2 q in if 2 powi e \<le> x then e else e - 1)"

definition half_even :: "rat \<Rightarrow> int" where
  "half_even y = (let f = \<lfloor>y\<rfloor>; r = y - of_int f in
     if r < 1 / 2 then f else if r > 1 / 2 then f + 1 else if even f then f else f + 1)"

text \<open>The distance of two neighbours around \<open>x\<close> is \<open>2^(ulp_exp x)\<close>.\<close>

definition ulp_exp :: "rat \<Rightarrow> int" where
  "ulp_exp x = max (expo x) (- 1022) - 52"

definition round_pos :: "rat \<Rightarrow> rat" where
  "round_pos x = of_int (half_even (x / 2 powi ulp_exp x)) * 2 powi ulp_exp x"

definition round_rat :: "rat \<Rightarrow> rat" where
  "round_rat x = (if x = 0 then 0 else if x < 0 then - round_pos (- x) else round_pos x)"

definition round_f64 :: "rat \<Rightarrow> f64" where
  "round_f64 x = (let y = round_rat x in if y \<noteq> 0 \<and> 1024 \<le> expo \<bar>y\<bar> then Infinity (y < 0) else Fin y)"

section \<open>Operations\<close>

definition f64_of_int :: "int \<Rightarrow> f64" where
  "f64_of_int k = round_f64 (of_int k)"

fun f64_neg :: "f64 \<Rightarrow> f64" where
  "f64_neg NaN = NaN"
| "f64_neg (Infinity s) = Infinity (\<not> s)"
| "f64_neg (Fin x) = Fin (- x)"

fun f64_abs :: "f64 \<Rightarrow> f64" where
  "f64_abs NaN = NaN"
| "f64_abs (Infinity s) = Infinity False"
| "f64_abs (Fin x) = Fin \<bar>x\<bar>"

fun f64_add :: "f64 \<Rightarrow> f64 \<Rightarrow> f64" where
  "f64_add (Fin x) (Fin y) = round_f64 (x + y)"
| "f64_add (Infinity s) (Fin y) = Infinity s"
| "f64_add (Fin x) (Infinity t) = Infinity t"
| "f64_add (Infinity s) (Infinity t) = (if s = t then Infinity s else NaN)"
| "f64_add _ _ = NaN"

definition f64_sub :: "f64 \<Rightarrow> f64 \<Rightarrow> f64" where
  "f64_sub a b = f64_add a (f64_neg b)"

fun f64_mul :: "f64 \<Rightarrow> f64 \<Rightarrow> f64" where
  "f64_mul (Fin x) (Fin y) = round_f64 (x * y)"
| "f64_mul (Infinity s) (Fin y) = (if y = 0 then NaN else Infinity (s \<noteq> (y < 0)))"
| "f64_mul (Fin x) (Infinity t) = (if x = 0 then NaN else Infinity (t \<noteq> (x < 0)))"
| "f64_mul (Infinity s) (Infinity t) = Infinity (s \<noteq> t)"
| "f64_mul _ _ = NaN"

text \<open>A zero divisor is a positive zero.\<close>

fun f64_div :: "f64 \<Rightarrow> f64 \<Rightarrow> f64" where
  "f64_div (Fin x) (Fin y) = (if y \<noteq> 0 then round_f64 (x / y) else if x = 0 then NaN else Infinity (x < 0))"
| "f64_div (Infinity s) (Fin y) = Infinity (s \<noteq> (y < 0))"
| "f64_div (Fin x) (Infinity t) = Fin 0"
| "f64_div _ _ = NaN"

fun f64_lt :: "f64 \<Rightarrow> f64 \<Rightarrow> bool" where
  "f64_lt (Fin x) (Fin y) \<longleftrightarrow> x < y"
| "f64_lt (Infinity s) (Fin y) \<longleftrightarrow> s"
| "f64_lt (Fin x) (Infinity t) \<longleftrightarrow> \<not> t"
| "f64_lt (Infinity s) (Infinity t) \<longleftrightarrow> s \<and> \<not> t"
| "f64_lt _ _ \<longleftrightarrow> False"

text \<open>\<open>as u32\<close> truncates and saturates, and takes a NaN to 0.\<close>

fun u32_of_f64 :: "f64 \<Rightarrow> int" where
  "u32_of_f64 NaN = 0"
| "u32_of_f64 (Infinity s) = (if s then 0 else 2 ^ 32 - 1)"
| "u32_of_f64 (Fin x) = max 0 (min (2 ^ 32 - 1) \<lfloor>x\<rfloor>)"

section \<open>Parsing\<close>

definition lowercase :: "string \<Rightarrow> string" where
  "lowercase s = map (\<lambda>c. if 65 \<le> (of_char c :: int) \<and> (of_char c :: int) \<le> 90
     then char_of ((of_char c :: int) + 32) else c) s"

fun sign_of :: "string \<Rightarrow> bool \<times> string" where
  "sign_of [] = (False, [])"
| "sign_of (c # s) = (if c = CHR ''-'' then (True, s) else if c = CHR ''+'' then (False, s) else (False, c # s))"

definition parse_exponent :: "string \<Rightarrow> int option" where
  "parse_exponent s = (case s of
     [] \<Rightarrow> Some 0
   | c # t \<Rightarrow> (if c \<noteq> CHR ''e'' \<and> c \<noteq> CHR ''E'' then None
       else case sign_of t of (neg, ds) \<Rightarrow>
         if ds = [] \<or> \<not> list_all digit ds then None
         else Some (if neg then - digits_value ds else digits_value ds)))"

definition parse_decimal :: "string \<Rightarrow> rat option" where
  "parse_decimal s =
     (let whole = takeWhile digit s; rest = dropWhile digit s;
          (fraction, rest) = (case rest of
             c # t \<Rightarrow> if c = CHR ''.'' then (takeWhile digit t, dropWhile digit t) else ([], rest)
           | [] \<Rightarrow> ([], rest)) in
      if whole = [] \<and> fraction = [] then None
      else map_option (\<lambda>e. of_int (digits_value (whole @ fraction)) * 10 powi (e - int (length fraction)))
             (parse_exponent rest))"

definition parse_f64 :: "string \<Rightarrow> f64 option" where
  "parse_f64 s = (case sign_of s of (neg, t) \<Rightarrow>
     let sign = (\<lambda>x. if neg then f64_neg x else x) in
     if lowercase t = ''inf'' \<or> lowercase t = ''infinity'' then Some (sign (Infinity False))
     else if lowercase t = ''nan'' then Some NaN
     else map_option (\<lambda>x. sign (round_f64 x)) (parse_decimal t))"

section \<open>Facts on rounding\<close>

lemma ilog2_bounds: "0 < n \<Longrightarrow> 0 \<le> ilog2 n \<and> 2 powi ilog2 n \<le> (of_int n :: rat) \<and> of_int n < (2 :: rat) powi (ilog2 n + 1)"
proof (induction n rule: ilog2.induct)
  case (1 n)
  show ?case
  proof (cases "n < 2")
    case True
    with 1 have "n = 1" by simp
    then show ?thesis by (simp add: ilog2.simps)
  next
    case False
    define m where "m = n div 2"
    with 1 False have m: "0 \<le> ilog2 m" "2 powi ilog2 m \<le> (of_int m :: rat)" "of_int m < (2 :: rat) powi (ilog2 m + 1)"
      by auto
    have log: "ilog2 n = 1 + ilog2 m" using False by (subst ilog2.simps) (simp add: m_def)
    obtain k where k: "ilog2 m = int k" using m(1) nonneg_int_cases by blast
    have "(of_int (2 ^ k) :: rat) \<le> of_int m" "(of_int m :: rat) < of_int (2 ^ Suc k)"
      using m(2,3) by (simp_all add: k power_int_add)
    then have "2 ^ k \<le> m" "m < 2 ^ Suc k" by (simp_all only: of_int_le_iff of_int_less_iff)
    then have "2 ^ Suc k \<le> n" "n < 2 ^ Suc (Suc k)" by (simp_all add: m_def)
    then have "(of_int (2 ^ Suc k) :: rat) \<le> of_int n" "(of_int n :: rat) < of_int (2 ^ Suc (Suc k))"
      by (simp_all only: of_int_le_iff of_int_less_iff)
    then show ?thesis by (simp add: log k power_int_add)
  qed
qed

lemma expo_bounds:
  assumes "0 < x"
  shows "2 powi expo x \<le> x" and "x < 2 powi (expo x + 1)"
proof -
  obtain p q where pq: "quotient_of x = (p, q)" by (cases "quotient_of x")
  then have x: "x = of_int p / of_int q" and q: "0 < q"
    by (auto simp: quotient_of_div quotient_of_denom_pos)
  with assms have p: "0 < p" by (simp add: zero_less_divide_iff)
  obtain a b where ab: "ilog2 p = int a" "ilog2 q = int b"
    using ilog2_bounds [OF p] ilog2_bounds [OF q] nonneg_int_cases by metis
  then have P: "(2::rat) ^ a \<le> of_int p" "of_int p < (2::rat) ^ Suc a" "(2::rat) ^ b \<le> of_int q" "of_int q < (2::rat) ^ Suc b"
    using ilog2_bounds [OF p] ilog2_bounds [OF q] by (simp_all add: power_int_add)
  have qr: "(0::rat) < of_int q" using q by simp
  have up: "x < 2 powi (int a - int b + 1)"
  proof -
    have "x * 2 ^ b \<le> x * of_int q" using P(3) assms by simp
    also have "\<dots> < 2 ^ Suc a" using P(2) qr by (simp add: x)
    finally have "x < 2 ^ Suc a / 2 ^ b" by (simp add: field_simps)
    then show ?thesis by (simp add: power_int_diff power_int_add mult.commute)
  qed
  have low: "2 powi (int a - int b - 1) \<le> x"
  proof -
    have "2 ^ a \<le> x * of_int q" using P(1) qr by (simp add: x)
    also have "\<dots> \<le> x * 2 ^ Suc b" using P(4) assms by (intro mult_left_mono) simp_all
    finally have "2 ^ a / 2 ^ Suc b \<le> x" by (simp add: field_simps)
    then show ?thesis by (simp add: power_int_diff)
  qed
  from up low show "2 powi expo x \<le> x" "x < 2 powi (expo x + 1)"
    by (auto simp: expo_def pq Let_def ab)
qed

lemma two_powi_mono: "i \<le> j \<Longrightarrow> (2::rat) powi i \<le> 2 powi j"
  by (simp add: power_int_increasing)

lemma expo_mono:
  assumes "0 < x" and "x \<le> y"
  shows "expo x \<le> expo y"
proof (rule ccontr)
  assume "\<not> expo x \<le> expo y"
  then have "(2::rat) powi (expo y + 1) \<le> 2 powi expo x" by (intro two_powi_mono) simp
  with assms expo_bounds [of x] expo_bounds [of y] show False by simp
qed

lemma half_even_int [simp]: "half_even (of_int k) = k"
  by (simp add: half_even_def)

lemma half_even_floor: "\<lfloor>y\<rfloor> \<le> half_even y \<and> half_even y \<le> \<lfloor>y\<rfloor> + 1"
  by (simp add: half_even_def Let_def)

lemma half_even_mono:
  assumes "x \<le> y"
  shows "half_even x \<le> half_even y"
proof (cases "\<lfloor>x\<rfloor> = \<lfloor>y\<rfloor>")
  case True
  then show ?thesis using assms by (simp add: half_even_def Let_def)
next
  case False
  with assms have "\<lfloor>x\<rfloor> + 1 \<le> \<lfloor>y\<rfloor>" using floor_mono [of x y] by linarith
  then show ?thesis using half_even_floor [of x] half_even_floor [of y] by linarith
qed

lemma round_pos_bounds:
  assumes "0 < x"
  shows "round_pos x \<le> 2 powi (max (expo x) (- 1022) + 1)"
    and "- 1022 \<le> expo x \<Longrightarrow> 2 powi expo x \<le> round_pos x" and "0 \<le> round_pos x"
proof -
  let ?u = "2 powi ulp_exp x :: rat"
  have u: "0 < ?u" by simp
  have "x \<le> 2 powi (max (expo x) (- 1022) + 1)"
    using expo_bounds(2) [OF assms] two_powi_mono [of "expo x + 1" "max (expo x) (- 1022) + 1"] by simp
  also have "\<dots> = of_int (2 ^ 53) * ?u"
    by (simp add: ulp_exp_def power_int_diff power_int_add)
  finally have "x / ?u \<le> of_int (2 ^ 53)" by (simp add: pos_divide_le_eq)
  then have "half_even (x / ?u) \<le> 2 ^ 53" using half_even_mono half_even_int by metis
  then have "(of_int (half_even (x / ?u)) :: rat) \<le> of_int (2 ^ 53)" by (simp only: of_int_le_iff)
  then have "round_pos x \<le> of_int (2 ^ 53) * ?u"
    unfolding round_pos_def by (rule mult_right_mono) simp
  then show "round_pos x \<le> 2 powi (max (expo x) (- 1022) + 1)"
    by (simp add: ulp_exp_def power_int_diff power_int_add)
  have "of_int 0 \<le> x / ?u" using assms by simp
  then have "0 \<le> half_even (x / ?u)" using half_even_mono half_even_int by metis
  then show "0 \<le> round_pos x" by (simp add: round_pos_def)
  assume e: "- 1022 \<le> expo x"
  have "of_int (2 ^ 52) * ?u \<le> x"
    using expo_bounds(1) [OF assms] e by (simp add: ulp_exp_def power_int_diff)
  then have "of_int (2 ^ 52) \<le> x / ?u" by (simp add: pos_le_divide_eq)
  then have "2 ^ 52 \<le> half_even (x / ?u)" using half_even_mono half_even_int by metis
  then have "of_int (2 ^ 52) \<le> (of_int (half_even (x / ?u)) :: rat)" by (simp only: of_int_le_iff)
  then have "of_int (2 ^ 52) * ?u \<le> round_pos x"
    unfolding round_pos_def by (rule mult_right_mono) simp
  then show "2 powi expo x \<le> round_pos x"
    using e by (simp add: ulp_exp_def power_int_diff)
qed

lemma round_pos_mono:
  assumes "0 < x" and "x \<le> y"
  shows "round_pos x \<le> round_pos y"
proof (cases "ulp_exp x = ulp_exp y")
  case True
  have "x / 2 powi ulp_exp y \<le> y / 2 powi ulp_exp y"
    using assms by (intro divide_right_mono) simp_all
  then show ?thesis
    unfolding round_pos_def True by (intro mult_right_mono) (simp_all add: half_even_mono)
next
  case False
  then have e: "max (expo x) (- 1022) + 1 \<le> expo y" "- 1022 \<le> expo y"
    using expo_mono [OF assms] by (auto simp: ulp_exp_def)
  have "round_pos x \<le> 2 powi (max (expo x) (- 1022) + 1)" using assms by (simp add: round_pos_bounds)
  also have "\<dots> \<le> 2 powi expo y" using e(1) by (rule two_powi_mono)
  also have "\<dots> \<le> round_pos y" using assms e(2) by (simp add: round_pos_bounds)
  finally show ?thesis .
qed

lemma round_rat_mono:
  assumes "x \<le> y"
  shows "round_rat x \<le> round_rat y"
proof -
  consider "x < 0" "y < 0" | "x \<le> 0" "0 \<le> y" | "0 < x" using assms by linarith
  then show ?thesis
  proof cases
    case 1
    then show ?thesis using assms round_pos_mono [of "- y" "- x"] by (simp add: round_rat_def)
  next
    case 2
    then have "round_rat x \<le> 0" "0 \<le> round_rat y"
      using round_pos_bounds(3) [of "- x"] round_pos_bounds(3) [of y] by (auto simp: round_rat_def)
    then show ?thesis by simp
  next
    case 3
    then show ?thesis using assms round_pos_mono [of x y] by (simp add: round_rat_def)
  qed
qed

text \<open>A number of at most 53 binary digits is rounded to itself.\<close>

lemma round_pos_exact:
  assumes "x = of_int k * 2 powi j" and "0 < k" and "k < 2 ^ 53" and "- 1074 \<le> j"
  shows "round_pos x = x"
proof -
  have x: "0 < x" using assms by simp
  have "x < of_int (2 ^ 53) * 2 powi j"
  proof -
    have "(of_int k :: rat) < of_int (2 ^ 53)" using assms(3) by (simp only: of_int_less_iff)
    then show ?thesis unfolding assms(1) by (rule mult_strict_right_mono) simp
  qed
  also have "\<dots> = 2 powi (53 + j)" by (simp add: power_int_add)
  finally have "2 powi expo x < (2 :: rat) powi (53 + j)" using expo_bounds(1) [OF x] by simp
  then have "expo x < 53 + j" using two_powi_mono [of "53 + j" "expo x"] by linarith
  then have u: "ulp_exp x \<le> j" using assms(4) by (auto simp: ulp_exp_def)
  have "x / 2 powi ulp_exp x = of_int k * 2 powi (j - ulp_exp x)" by (simp add: assms(1) power_int_diff)
  also have "\<dots> = of_int (k * 2 ^ nat (j - ulp_exp x))" using u by (simp add: power_int_def)
  finally have "half_even (x / 2 powi ulp_exp x) = k * 2 ^ nat (j - ulp_exp x)" by (simp only: half_even_int)
  moreover have "(2 :: rat) powi j = 2 ^ nat (j - ulp_exp x) * 2 powi ulp_exp x"
  proof -
    define d where "d = nat (j - ulp_exp x)"
    then have "j = int d + ulp_exp x" using u by simp
    then show ?thesis unfolding d_def [symmetric] by (simp add: power_int_add)
  qed
  ultimately have "round_pos x = of_int k * 2 powi j"
    unfolding round_pos_def by (simp only: of_int_mult of_int_power of_int_numeral mult.assoc)
  then show ?thesis by (simp only: assms(1))
qed

lemma round_rat_minus: "round_rat (- x) = - round_rat x"
  by (simp add: round_rat_def)

lemma round_rat_exact:
  assumes "x = of_int k * 2 powi j" and "\<bar>k\<bar> < 2 ^ 53" and "- 1074 \<le> j"
  shows "round_rat x = x"
proof -
  consider "k = 0" | "0 < k" | "k < 0" by linarith
  then show ?thesis
  proof cases
    case 2
    moreover from this have "0 < x" using assms(1) by simp
    ultimately show ?thesis using round_pos_exact [OF assms(1) _ _ assms(3)] assms(2) by (simp add: round_rat_def)
  next
    case 3
    then have "round_pos (- x) = - x" using round_pos_exact [of "- x" "- k" j] assms by simp
    moreover have "x < 0" using 3 assms(1) by (simp add: mult_neg_pos)
    ultimately show ?thesis by (simp add: round_rat_def)
  qed (simp add: assms(1) round_rat_def)
qed

lemma round_rat_int: "\<bar>k\<bar> < 2 ^ 53 \<Longrightarrow> round_rat (of_int k) = of_int k"
  by (rule round_rat_exact [of _ k 0]) simp_all

lemma round_f64_below:
  assumes "\<bar>round_rat x\<bar> < 2 powi 1024"
  shows "round_f64 x = Fin (round_rat x)"
proof -
  have "\<not> 1024 \<le> expo \<bar>round_rat x\<bar>" if "round_rat x \<noteq> 0"
  proof
    assume "1024 \<le> expo \<bar>round_rat x\<bar>"
    then have "(2 :: rat) powi 1024 \<le> 2 powi expo \<bar>round_rat x\<bar>" by (rule two_powi_mono)
    also have "\<dots> \<le> \<bar>round_rat x\<bar>" using that by (intro expo_bounds) simp
    finally show False using assms by simp
  qed
  then show ?thesis by (auto simp: round_f64_def Let_def)
qed

lemma f64_of_int_exact:
  assumes "\<bar>k\<bar> < 2 ^ 53"
  shows "f64_of_int k = Fin (of_int k)"
proof -
  have "\<bar>of_int k :: rat\<bar> < of_int (2 ^ 53)" using assms by (simp only: of_int_abs [symmetric] of_int_less_iff)
  also have "\<dots> \<le> 2 powi 1024" by simp
  finally show ?thesis using round_rat_int [OF assms] by (simp add: f64_of_int_def round_f64_below)
qed

text \<open>A result between two numbers that are rounded to themselves stays between them.\<close>

lemma round_f64_between:
  assumes "a \<le> x" and "x \<le> b" and "round_rat a = a" and "round_rat b = b"
    and "- (2 powi 1023) \<le> a" and "b \<le> 2 powi 1023"
  shows "round_f64 x = Fin (round_rat x)" and "a \<le> round_rat x" and "round_rat x \<le> b"
proof -
  show ab: "a \<le> round_rat x" "round_rat x \<le> b"
    using round_rat_mono [OF assms(1)] round_rat_mono [OF assms(2)] assms(3,4) by simp_all
  have "(2 :: rat) powi 1023 < 2 powi 1024" by simp
  with ab assms(5,6) have "\<bar>round_rat x\<bar> < 2 powi 1024" by linarith
  then show "round_f64 x = Fin (round_rat x)" by (rule round_f64_below)
qed

lemma round_f64_not_NaN [simp]: "round_f64 x \<noteq> NaN"
  by (simp add: round_f64_def Let_def)

text \<open>The order, without NaN, is strict and total.\<close>

lemma f64_lt_irrefl: "\<not> f64_lt a a"
  by (cases a) auto

lemma f64_lt_trans: "f64_lt a b \<Longrightarrow> f64_lt b c \<Longrightarrow> f64_lt a c"
  by (cases a; cases b; cases c) auto

lemma f64_lt_total: "a \<noteq> NaN \<Longrightarrow> b \<noteq> NaN \<Longrightarrow> a \<noteq> b \<Longrightarrow> f64_lt a b \<or> f64_lt b a"
  by (cases a; cases b) auto

end
