(* ===== verification/Whatthefee.thy ===== *)
theory Whatthefee
  imports Chain_Types Float64
begin

text \<open>
  The estimator over whatthefee.io (\<open>whatthefee/estimator.rs\<close>): a task polls a table of fee rates,
  whose rows are numbers of blocks and whose columns are certainties, and an estimate is the cell
  whose row and column are nearest to what is asked for.

  The HTTP request with its JSON, the editing of the URL, and \<open>f64::expf\<close>, whose precision the
  standard library leaves open, are parameters. The state is the world with the last response.
\<close>

section \<open>The estimator\<close>

record whatthefee_response =
  wr_index :: "i32 list"
  wr_columns :: "string list"
  wr_data :: "i32 list list"

record last_response =
  wl_timestamp :: system_time
  wl_response :: whatthefee_response

datatype whatthefee_error = WhatTheFeeGeneral boxed_error

record ('w, 'u) whatthefee_estimator =
  wf_url :: 'u
  wf_lock_time :: u16
  wf_poll_interval :: nat
  append_pair :: "'u \<Rightarrow> string \<Rightarrow> string \<Rightarrow> 'u"
  http_get :: "'u \<Rightarrow> ('w, boxed_error, whatthefee_response) op"
  wf_now :: "'w \<Rightarrow> system_time"
  f64_exp :: "f64 \<Rightarrow> f64"

definition stale_seconds :: int where "stale_seconds = 60 * 12"

definition get_fees :: "('w, 'u) whatthefee_estimator \<Rightarrow> ('w, whatthefee_error, last_response) op" where
  "get_fees est w =
     (let now = wf_now est w in
      seq (lift_res (if now < 0 then Inl (WhatTheFeeGeneral (BoxMsg ''system time''))
                     else Inr (now div nanos_per_sec))) (\<lambda>timestamp.
      let cache_bust = (timestamp div 300) * 300;
          url = append_pair est (wf_url est) ''c'' (show_nat (nat cache_bust)) in
      seq (map_err WhatTheFeeGeneral (http_get est url)) (\<lambda>response.
      ret \<lparr>wl_timestamp = now, wl_response = response\<rparr>)) w)"

definition store_response :: "last_response \<Rightarrow> ('w \<times> last_response option, 'e, unit) op" where
  "store_response fees w = (Inr (), (fst w, Some fees))"

text \<open>A round of the task that \<open>run_forever\<close> starts; an error keeps the response.\<close>

definition wf_poll :: "('w, 'u) whatthefee_estimator \<Rightarrow> ('w \<times> last_response option, 'e, unit) op" where
  "wf_poll est = attempt (on_fst (get_fees est)) (\<lambda>r. case r of Inr fees \<Rightarrow> store_response fees | Inl e \<Rightarrow> ret ())"

text \<open>Its first \<open>n\<close> rounds; \<open>tick\<close> is what happens until the next.\<close>

primrec run_forever ::
    "nat \<Rightarrow> (nat \<Rightarrow> 'w \<Rightarrow> 'w) \<Rightarrow> ('w, 'u) whatthefee_estimator \<Rightarrow> ('w \<times> last_response option, 'e, unit) op" where
  "run_forever 0 tick est = ret ()"
| "run_forever (Suc n) tick est =
     (\<lambda>w. seq (wf_poll est) (\<lambda>_. run_forever n tick est) (tick (wf_poll_interval est) (fst w), snd w))"

definition wf_start :: "('w, 'u) whatthefee_estimator \<Rightarrow> ('w \<times> last_response option, whatthefee_error, unit) op" where
  "wf_start est = seq (on_fst (get_fees est)) store_response"

section \<open>An estimate\<close>

definition i32_abs :: "i32 \<Rightarrow> i32" where
  "i32_abs x = (if sint x < 0 then - x else x)"

text \<open>The loops over the rows and the columns, from their second entry on; \<open>i\<close> counts from 0.\<close>

fun row_loop :: "i32 \<Rightarrow> i32 list \<Rightarrow> nat \<Rightarrow> nat \<Rightarrow> i32 \<Rightarrow> nat" where
  "row_loop conf_target [] i row_index prev_row = row_index"
| "row_loop conf_target (current_row # rows) i row_index prev_row =
     (if sint (i32_abs (current_row - conf_target)) < sint (i32_abs (prev_row - conf_target))
      then row_loop conf_target rows (i + 1) (i + 1) current_row
      else row_loop conf_target rows (i + 1) row_index prev_row)"

fun column_loop :: "f64 \<Rightarrow> string list \<Rightarrow> nat \<Rightarrow> nat \<Rightarrow> f64 \<Rightarrow> nat option" where
  "column_loop certainty [] i column_index prev_column = Some column_index"
| "column_loop certainty (s # columns) i column_index prev_column =
     (case parse_f64 s of
        None \<Rightarrow> None
      | Some current_column \<Rightarrow>
          if f64_lt (f64_abs (f64_sub current_column certainty)) (f64_abs (f64_sub prev_column certainty))
          then column_loop certainty columns (i + 1) (i + 1) current_column
          else column_loop certainty columns (i + 1) column_index prev_column)"

definition certainty_of :: "u16 \<Rightarrow> i32 \<Rightarrow> f64" where
  "certainty_of lock_time conf_target =
     f64_add (Fin (1 / 2))
       (f64_div (f64_div (f64_sub (f64_of_int (uint lock_time)) (f64_of_int (sint conf_target)))
                   (f64_of_int (uint lock_time))) (Fin 2))"

definition sat_per_kw_of :: "(f64 \<Rightarrow> f64) \<Rightarrow> i32 \<Rightarrow> u32" where
  "sat_per_kw_of expf rate =
     (let sat_per_vbyte = expf (f64_div (f64_of_int (sint rate)) (Fin 100)) in
      word_of_int (u32_of_f64 (f64_mul sat_per_vbyte (Fin 250))))"

definition wf_lookup ::
    "u16 \<Rightarrow> (f64 \<Rightarrow> f64) \<Rightarrow> whatthefee_response \<Rightarrow> i32 \<Rightarrow> fee_estimate_error + fee_estimate" where
  "wf_lookup lock_time expf r conf_target =
     (case wr_index r of
        [] \<Rightarrow> Inl FeeUnavailable
      | row # rows \<Rightarrow>
          let row_index = row_loop conf_target rows 0 0 row in
          case wr_columns r of
            [] \<Rightarrow> Inl FeeUnavailable
          | column # columns \<Rightarrow>
              let certainty = certainty_of lock_time conf_target in
              bind_res (of_option FeeUnavailable (parse_f64 column)) (\<lambda>prev_column.
              bind_res (of_option FeeUnavailable (column_loop certainty columns 0 0 prev_column)) (\<lambda>column_index.
              if length (wr_data r) \<le> row_index then Inl FeeUnavailable
              else let row = wr_data r ! row_index in
                if length row \<le> column_index then Inl FeeUnavailable
                else Inr \<lparr>sat_per_kw = sat_per_kw_of expf (row ! column_index)\<rparr>)))"

definition wf_estimate_fee :: "('w, 'u) whatthefee_estimator \<Rightarrow> ('w \<times> last_response option) fee_estimator" where
  "wf_estimate_fee est conf_target w =
     (case snd w of
        None \<Rightarrow> fail FeeUnavailable
      | Some response \<Rightarrow>
          let now = wf_now est (fst w) in
          if now < wl_timestamp response then fail FeeUnavailable
          else if stale_seconds < (now - wl_timestamp response) div nanos_per_sec then fail FeeUnavailable
          else lift_res (wf_lookup (wf_lock_time est) (f64_exp est) (wl_response response) conf_target)) w"

section \<open>The first of the least\<close>

definition first_least :: "('a \<Rightarrow> 'a \<Rightarrow> bool) \<Rightarrow> 'a list \<Rightarrow> nat" where
  "first_least lt ds = length (takeWhile (\<lambda>d. list_ex (\<lambda>e. lt e d) ds) ds)"

fun scan :: "('a \<Rightarrow> 'a \<Rightarrow> bool) \<Rightarrow> 'a list \<Rightarrow> nat \<Rightarrow> nat \<Rightarrow> 'a \<Rightarrow> nat" where
  "scan lt [] i best d = best"
| "scan lt (e # es) i best d = (if lt e d then scan lt es (i + 1) (i + 1) e else scan lt es (i + 1) best d)"

text \<open>An order in which a loop may look for a least element: strict, and total on what it is given.\<close>

locale scan_order =
  fixes lt :: "'a \<Rightarrow> 'a \<Rightarrow> bool" and ordinary :: "'a \<Rightarrow> bool"
  assumes irrefl: "\<not> lt a a"
    and trans: "lt a b \<Longrightarrow> lt b c \<Longrightarrow> lt a c"
    and total: "ordinary a \<Longrightarrow> ordinary b \<Longrightarrow> a \<noteq> b \<Longrightarrow> lt a b \<or> lt b a"
begin

definition is_first :: "nat \<Rightarrow> 'a list \<Rightarrow> bool" where
  "is_first r ds \<longleftrightarrow> r < length ds \<and> (\<forall>e\<in>set ds. \<not> lt e (ds ! r)) \<and> (\<forall>j<r. lt (ds ! r) (ds ! j))"

lemma first_least_eq:
  assumes "is_first r ds"
  shows "first_least lt ds = r"
proof -
  have "takeWhile (\<lambda>d. list_ex (\<lambda>e. lt e d) ds) ds = take r ds"
    using assms nth_mem [of r ds]
    by (intro takeWhile_eq_take_P_nth) (auto simp: is_first_def list_ex_iff)
  then show ?thesis using assms by (simp add: first_least_def is_first_def)
qed

lemma scan_is_first:
  assumes "is_first best seen" and "list_all ordinary (seen @ ds)"
  shows "is_first (scan lt ds (length seen - 1) best (seen ! best)) (seen @ ds)"
  using assms
proof (induction ds arbitrary: seen best)
  case (Cons e es)
  have best: "best < length seen" using Cons.prems(1) by (simp add: is_first_def)
  then have len: "Suc (length seen - 1) = length seen" by simp
  show ?case
  proof (cases "lt e (seen ! best)")
    case True
    have "lt e (seen ! j)" if "j < length seen" for j
    proof -
      have "\<not> lt (seen ! j) (seen ! best)" "ordinary (seen ! j)" "ordinary (seen ! best)"
        using Cons.prems that best by (auto simp: is_first_def list_all_iff)
      then show ?thesis using total [of "seen ! j" "seen ! best"] trans [OF True] True by metis
    qed
    then have "is_first (length seen) (seen @ [e])"
      using irrefl trans by (auto simp: is_first_def nth_append in_set_conv_nth) blast
    from Cons.IH [OF this] Cons.prems(2) True len show ?thesis by simp
  next
    case False
    then have "is_first best (seen @ [e])"
      using Cons.prems(1) best by (auto simp: is_first_def nth_append)
    from Cons.IH [OF this] Cons.prems(2) False len best show ?thesis by (simp add: nth_append)
  qed
qed simp

lemma scan_first_least:
  assumes "list_all ordinary (d # ds)"
  shows "scan lt ds 0 0 d = first_least lt (d # ds)"
proof -
  have "is_first 0 [d]" using irrefl by (simp add: is_first_def)
  from scan_is_first [OF this] assms have "is_first (scan lt ds 0 0 d) (d # ds)" by simp
  then show ?thesis by (simp add: first_least_eq)
qed

end

interpretation blocks_order: scan_order "(<) :: int \<Rightarrow> int \<Rightarrow> bool" "\<lambda>_. True"
  by unfold_locales auto

interpretation certainty_order: scan_order f64_lt "\<lambda>d. d \<noteq> NaN"
  by unfold_locales (auto simp: f64_lt_irrefl dest: f64_lt_trans f64_lt_total)

section \<open>The loops as scans\<close>

lemma small_distance:
  assumes "\<bar>sint x\<bar> < 2 ^ 30" and "\<bar>sint y\<bar> < 2 ^ 30"
  shows "sint (i32_abs (x - y)) = \<bar>sint x - sint y\<bar>"
proof -
  have d: "sint (x - y) = sint x - sint y" using assms by (intro sint_diff) auto
  moreover have "sint (- (x - y)) = - sint (x - y)"
    using sint_diff [of 0 "x - y"] assms d by simp
  ultimately show ?thesis by (simp add: i32_abs_def)
qed

lemma row_loop_scan:
  assumes "\<bar>sint t\<bar> < 2 ^ 30" and "list_all (\<lambda>c. \<bar>sint c\<bar> < 2 ^ 30) (p # rows)"
  shows "row_loop t rows i r p = scan (<) (map (\<lambda>c. \<bar>sint c - sint t\<bar>) rows) i r \<bar>sint p - sint t\<bar>"
  using assms by (induction t rows i r p rule: row_loop.induct) (simp_all add: small_distance)

abbreviation distance_to :: "f64 \<Rightarrow> f64 \<Rightarrow> f64" where
  "distance_to certainty c \<equiv> f64_abs (f64_sub c certainty)"

lemma column_loop_scan:
  "column_loop q ss i r p =
     map_option (\<lambda>cs. scan f64_lt (map (distance_to q) cs) i r (distance_to q p)) (those (map parse_f64 ss))"
  by (induction q ss i r p rule: column_loop.induct) (auto simp: option.map_comp comp_def split: option.splits)

section \<open>The certainty asked for\<close>

lemma lock_time_bounds:
  assumes "lt \<noteq> (0 :: u16)"
  shows "0 < uint lt \<and> uint lt < 2 ^ 16"
proof -
  have "uint lt \<noteq> 0" using assms by (simp add: unsigned_eq_0_iff)
  moreover have "0 \<le> uint lt" by (rule unsigned_greater_eq)
  ultimately have "0 < uint lt" by linarith
  then show ?thesis using uint_lt2p [of lt] by simp
qed

lemma certainty_quotient:
  "f64_div (f64_sub (f64_of_int (uint lt)) (f64_of_int (sint ct))) (f64_of_int (uint lt)) =
     round_f64 (of_int (uint lt - sint ct) / of_int (uint lt))" if "lt \<noteq> (0 :: u16)" for ct :: i32
proof -
  have u: "0 < uint lt" "uint lt < 2 ^ 16" using lock_time_bounds [OF that] by simp_all
  have c: "- (2 ^ 31) \<le> sint ct" "sint ct < 2 ^ 31" using sint_ge [of ct] sint_lt [of ct] by simp_all
  have "round_f64 (of_int (uint lt - sint ct)) = Fin (of_int (uint lt - sint ct))"
    using f64_of_int_exact [of "uint lt - sint ct"] u c by (simp add: f64_of_int_def)
  moreover have "(of_int (uint lt) :: rat) \<noteq> 0" using u by (simp del: of_int_uint)
  ultimately show ?thesis using u c by (simp add: f64_of_int_exact f64_sub_def del: of_int_uint of_int_sint)
qed

lemma round_between_ints:
  assumes "of_int a \<le> x" and "x \<le> of_int b" and "\<bar>a\<bar> < 2 ^ 53" and "\<bar>b\<bar> < 2 ^ 53"
  shows "round_f64 x = Fin (round_rat x)" and "of_int a \<le> round_rat x" and "round_rat x \<le> of_int b"
proof -
  have big: "(2 :: rat) ^ 53 \<le> 2 powi 1023" by simp
  have "\<bar>of_int a :: rat\<bar> < of_int (2 ^ 53)" "\<bar>of_int b :: rat\<bar> < of_int (2 ^ 53)"
    using assms(3,4) by (simp_all only: of_int_abs [symmetric] of_int_less_iff)
  then have "- (2 powi 1023) \<le> (of_int a :: rat)" "(of_int b :: rat) \<le> 2 powi 1023"
    using big by simp_all
  from round_f64_between [OF assms(1,2) round_rat_int round_rat_int this] assms(3,4)
  show "round_f64 x = Fin (round_rat x)" "of_int a \<le> round_rat x" "round_rat x \<le> of_int b" by blast+
qed

text \<open>For every lock time but 0, the certainty is a number.\<close>

definition certainty_value :: "u16 \<Rightarrow> i32 \<Rightarrow> rat" where
  "certainty_value lt ct =
     round_rat (1 / 2 + round_rat (round_rat (of_int (uint lt - sint ct) / of_int (uint lt)) / 2))"

lemma certainty_finite:
  assumes "lt \<noteq> (0 :: u16)"
  shows "certainty_of lt ct = Fin (certainty_value lt ct)"
proof -
  have u: "0 < uint lt" "uint lt < 2 ^ 16" using lock_time_bounds [OF assms] by simp_all
  have c: "- (2 ^ 31) \<le> sint ct" "sint ct < 2 ^ 31" using sint_ge [of ct] sint_lt [of ct] by simp_all
  let ?x = "of_int (uint lt - sint ct) / of_int (uint lt) :: rat"
  have "- (2 ^ 33) \<le> uint lt - sint ct" "uint lt - sint ct \<le> 2 ^ 33" using u c by simp_all
  then have "(of_int (- (2 ^ 33)) :: rat) \<le> of_int (uint lt - sint ct)" "(of_int (uint lt - sint ct) :: rat) \<le> of_int (2 ^ 33)"
    by (simp_all only: of_int_le_iff)
  moreover have "(1 :: rat) \<le> of_int (uint lt)" using u by (simp del: of_int_uint)
  ultimately have "of_int (- (2 ^ 33)) \<le> ?x" "?x \<le> of_int (2 ^ 33)"
    by (simp_all add: field_simps del: of_int_uint of_int_sint of_int_diff)
  note x = round_between_ints [OF this]
  have "of_int (- (2 ^ 33)) \<le> round_rat ?x / 2" "round_rat ?x / 2 \<le> of_int (2 ^ 33)" using x(2,3) by simp_all
  note y = round_between_ints [OF this]
  have "of_int (- (2 ^ 34)) \<le> 1 / 2 + round_rat (round_rat ?x / 2)" "1 / 2 + round_rat (round_rat ?x / 2) \<le> of_int (2 ^ 34)"
    using y(2,3) by simp_all
  note z = round_between_ints [OF this]
  show ?thesis using x(1) y(1) z(1)
    by (simp add: certainty_of_def certainty_quotient [OF assms] certainty_value_def del: of_int_uint of_int_sint of_int_diff)
qed

text \<open>C37: for a target within the lock time the certainty asked for lies between one half and one, the
  rounding of every operation included, and it never rises with the target: the closer the
  deadline, the higher the certainty.\<close>

theorem certainty_between:
  assumes "lt \<noteq> 0"
  shows "\<exists>q q'. certainty_of lt ct = Fin q \<and> certainty_of lt ct' = Fin q' \<and>
    (if 0 \<le> sint ct \<and> sint ct \<le> uint lt then 1 / 2 \<le> q \<and> q \<le> 1 else True) \<and>
    (if sint ct \<le> sint ct' then q' \<le> q else True)"
proof -
  have u: "(0 :: rat) < of_int (uint lt)" using lock_time_bounds [OF assms] by (simp del: of_int_uint)
  let ?x = "\<lambda>ct. of_int (uint lt - sint ct) / of_int (uint lt) :: rat"
  have half: "round_rat (1 / 2) = 1 / 2" by (rule round_rat_exact [of _ 1 "- 1"]) (simp_all add: power_int_minus)
  have one: "round_rat 0 = 0" "round_rat 1 = 1" using round_rat_int [of 0] round_rat_int [of 1] by simp_all
  have "certainty_value lt ct' \<le> certainty_value lt ct" if "sint ct \<le> sint ct'"
  proof -
    have "(of_int (uint lt - sint ct') :: rat) \<le> of_int (uint lt - sint ct)"
      using that by (simp only: of_int_le_iff)
    then have "?x ct' \<le> ?x ct" by (rule divide_right_mono) (use u in simp)
    then have "round_rat (round_rat (?x ct') / 2) \<le> round_rat (round_rat (?x ct) / 2)"
      using round_rat_mono [of "?x ct'" "?x ct"] by (intro round_rat_mono) simp
    then show ?thesis unfolding certainty_value_def by (intro round_rat_mono) simp
  qed
  moreover have "1 / 2 \<le> certainty_value lt ct \<and> certainty_value lt ct \<le> 1"
    if "0 \<le> sint ct" "sint ct \<le> uint lt"
  proof -
    have "(of_int 0 :: rat) \<le> of_int (uint lt - sint ct)" "(of_int (uint lt - sint ct) :: rat) \<le> of_int (uint lt)"
      using that by (simp_all only: of_int_le_iff)
    then have "0 \<le> ?x ct" "?x ct \<le> 1" using u by (simp_all del: of_int_uint of_int_sint of_int_diff)
    then have "0 \<le> round_rat (?x ct)" "round_rat (?x ct) \<le> 1" using one round_rat_mono by metis+
    then have "0 \<le> round_rat (?x ct) / 2" "round_rat (?x ct) / 2 \<le> 1 / 2" by simp_all
    then have "0 \<le> round_rat (round_rat (?x ct) / 2)" "round_rat (round_rat (?x ct) / 2) \<le> 1 / 2"
      using one half round_rat_mono by metis+
    then have "1 / 2 \<le> 1 / 2 + round_rat (round_rat (?x ct) / 2)" "1 / 2 + round_rat (round_rat (?x ct) / 2) \<le> 1"
      by simp_all
    then show ?thesis unfolding certainty_value_def using one half round_rat_mono by metis
  qed
  ultimately show ?thesis using certainty_finite [OF assms] by simp
qed

section \<open>The estimate as the nearest cell\<close>

definition nearest_row :: "i32 \<Rightarrow> i32 list \<Rightarrow> nat" where
  "nearest_row target rows = first_least (<) (map (\<lambda>c. \<bar>sint c - sint target\<bar>) rows)"

definition nearest_column :: "f64 \<Rightarrow> f64 list \<Rightarrow> nat" where
  "nearest_column certainty cs = first_least f64_lt (map (distance_to certainty) cs)"

definition cell :: "'a list list \<Rightarrow> nat \<Rightarrow> nat \<Rightarrow> 'a option" where
  "cell rows i j = (if i < length rows \<and> j < length (rows ! i) then Some (rows ! i ! j) else None)"

definition wf_reference :: "u16 \<Rightarrow> (f64 \<Rightarrow> f64) \<Rightarrow> whatthefee_response \<Rightarrow> i32 \<Rightarrow> u32 option" where
  "wf_reference lock_time expf r target =
     (case those (map parse_f64 (wr_columns r)) of
        None \<Rightarrow> None
      | Some cs \<Rightarrow>
          if wr_index r = [] \<or> cs = [] then None
          else map_option (sat_per_kw_of expf)
                 (cell (wr_data r) (nearest_row target (wr_index r)) (nearest_column (certainty_of lock_time target) cs)))"

definition fresh :: "('w, 'u) whatthefee_estimator \<Rightarrow> 'w \<Rightarrow> last_response \<Rightarrow> bool" where
  "fresh est v r \<longleftrightarrow> wl_timestamp r \<le> wf_now est v \<and> wf_now est v - wl_timestamp r < 721 * nanos_per_sec"

lemma f64_abs_NaN [simp]: "f64_abs a = NaN \<longleftrightarrow> a = NaN"
  by (cases a) simp_all

lemma distance_not_NaN: "c \<noteq> NaN \<Longrightarrow> distance_to (Fin q) c \<noteq> NaN"
  by (cases c) (simp_all add: f64_sub_def)

lemma those_map_not_NaN:
  "list_all (\<lambda>s. parse_f64 s \<noteq> Some NaN) ss \<Longrightarrow> those (map parse_f64 ss) = Some cs \<Longrightarrow> NaN \<notin> set cs"
  by (induction ss arbitrary: cs) (auto split: option.splits)

lemma lookup_reference:
  assumes "lt \<noteq> 0" and "\<bar>sint t\<bar> < 2 ^ 30" and "list_all (\<lambda>c. \<bar>sint c\<bar> < 2 ^ 30) (wr_index r)"
    and "list_all (\<lambda>s. parse_f64 s \<noteq> Some NaN) (wr_columns r)"
  shows "wf_lookup lt expf r t = of_option FeeUnavailable (map_option (\<lambda>k. \<lparr>sat_per_kw = k\<rparr>) (wf_reference lt expf r t))"
proof (cases "wr_index r")
  case Nil
  then show ?thesis by (simp add: wf_lookup_def wf_reference_def of_option_def split: option.splits)
next
  case (Cons row rows)
  then have row: "row_loop t rows 0 0 row = nearest_row t (wr_index r)"
    using row_loop_scan [of t row rows 0 0] assms(2,3)
      blocks_order.scan_first_least [of "\<bar>sint row - sint t\<bar>" "map (\<lambda>c. \<bar>sint c - sint t\<bar>) rows"]
    by (simp add: nearest_row_def list_all_iff)
  show ?thesis
  proof (cases "wr_columns r")
    case Nil
    with Cons show ?thesis by (simp add: wf_lookup_def wf_reference_def of_option_def)
  next
    case (Cons s ss)
    show ?thesis
    proof (cases "those (map parse_f64 (wr_columns r))")
      case None
      with Cons \<open>wr_index r = row # rows\<close> show ?thesis
        by (auto simp: wf_lookup_def wf_reference_def column_loop_scan of_option_def bind_res_def Let_def split: option.splits)
    next
      case (Some cs)
      with Cons obtain d ds where cs: "cs = d # ds" "parse_f64 s = Some d" "those (map parse_f64 ss) = Some ds"
        by (auto split: option.splits)
      have "NaN \<notin> set cs" using those_map_not_NaN [OF assms(4) Some] .
      then have "list_all (\<lambda>x. x \<noteq> NaN) (map (distance_to (certainty_of lt t)) cs)"
        using distance_not_NaN by (auto simp: list_all_iff certainty_finite [OF assms(1)]) metis
      then have "scan f64_lt (map (distance_to (certainty_of lt t)) ds) 0 0 (distance_to (certainty_of lt t) d) =
          nearest_column (certainty_of lt t) cs"
        using certainty_order.scan_first_least [of "distance_to (certainty_of lt t) d"]
        by (simp add: cs(1) nearest_column_def)
      with Cons \<open>wr_index r = row # rows\<close> row Some cs show ?thesis
        by (simp add: wf_lookup_def wf_reference_def column_loop_scan of_option_def bind_res_def Let_def cell_def)
    qed
  qed
qed

text \<open>C36: the estimator answers from the nearest cell. With a lock time, with numbers of blocks that are
  not near the end of \<open>i32\<close>, and with columns that are numbers, the two loops with their early
  returns compute the reference: the cell of the first row at least distance to the target and the
  first column at least distance to the certainty. A response older than twelve minutes, or from
  the future, is never used.\<close>

theorem estimate_is_nearest_cell:
  assumes "wf_lock_time est \<noteq> 0" and "\<bar>sint t\<bar> < 2 ^ 30"
    and "list_all (\<lambda>c. \<bar>sint c\<bar> < 2 ^ 30) (wr_index (wl_response r))"
    and "list_all (\<lambda>s. parse_f64 s \<noteq> Some NaN) (wr_columns (wl_response r))"
  shows "wf_estimate_fee est t (v, Some r) =
    (of_option FeeUnavailable (if fresh est v r
       then map_option (\<lambda>k. \<lparr>sat_per_kw = k\<rparr>) (wf_reference (wf_lock_time est) (f64_exp est) (wl_response r) t) else None),
     (v, Some r))"
proof -
  have "\<not> stale_seconds < (wf_now est v - wl_timestamp r) div nanos_per_sec \<longleftrightarrow>
      wf_now est v - wl_timestamp r < 721 * nanos_per_sec"
    by (simp add: stale_seconds_def) linarith
  then show ?thesis
    using lookup_reference [OF assms, of "f64_exp est"]
    by (auto simp: wf_estimate_fee_def fresh_def Let_def of_option_def)
qed

section \<open>A small table\<close>

definition ex_response :: whatthefee_response where
  "ex_response =
     \<lparr>wr_index = [6, 144, 1008], wr_columns = [''0.25'', ''.5''],
      wr_data = [[300, 310], [250, 260], [190, 200]]\<rparr>"

definition ex_estimator :: "(unit, string) whatthefee_estimator" where
  "ex_estimator =
     \<lparr>wf_url = ''u'', wf_lock_time = 1008, wf_poll_interval = 60, append_pair = (\<lambda>u k v. u @ k @ v),
      http_get = (\<lambda>u. ret ex_response), wf_now = (\<lambda>_. 800 * nanos_per_sec), f64_exp = (\<lambda>_. Fin 8)\<rparr>"

lemma ex_reference: "wf_reference 1008 (\<lambda>_. Fin 8) ex_response 1000 = Some 2000"
  by code_simp

lemma certainty_between_witness:
  "\<exists>q. certainty_of 1008 144 = Fin q \<and> 1 / 2 \<le> q \<and> q \<le> 1"
  using certainty_between [of 1008 144 144] by (auto simp: sint_of_small)

lemma estimate_is_nearest_cell_witness:
  "wf_estimate_fee ex_estimator 1000 ((), Some \<lparr>wl_timestamp = 100 * nanos_per_sec, wl_response = ex_response\<rparr>) =
     (Inr \<lparr>sat_per_kw = 2000\<rparr>, ((), Some \<lparr>wl_timestamp = 100 * nanos_per_sec, wl_response = ex_response\<rparr>))"
proof -
  have "list_all (\<lambda>s. parse_f64 s \<noteq> Some NaN) (wr_columns ex_response)" by code_simp
  moreover have "list_all (\<lambda>c. \<bar>sint c\<bar> < 2 ^ 30) (wr_index ex_response)" by code_simp
  moreover have "\<bar>sint (1000 :: i32)\<bar> < 2 ^ 30" by code_simp
  moreover have "wf_lock_time ex_estimator \<noteq> 0" by (simp add: ex_estimator_def)
  moreover have "fresh ex_estimator () \<lparr>wl_timestamp = 100 * nanos_per_sec, wl_response = ex_response\<rparr>"
    by (simp add: fresh_def ex_estimator_def)
  ultimately show ?thesis
    using estimate_is_nearest_cell [of ex_estimator 1000 "\<lparr>wl_timestamp = 100 * nanos_per_sec, wl_response = ex_response\<rparr>" "()"]
      ex_reference by (simp add: ex_estimator_def of_option_def)
qed

end
