(* ===== verification/Startup.thy ===== *)
theory Startup
  imports Chain_Monitor Preimage_Monitor Internal_Server Bitcoind_Client Whatthefee
begin

text \<open>
  The process (\<open>main.rs\<close>): its configuration, the choice of the lightning node, the wiring of the
  services, and the life of the tasks until the shutdown.

  The configuration layers (the crate figment), reading of files, base64, the connection to the
  database and the migrations are parameters; so are the repositories and clients that are wired,
  which other theories model. What a service takes from a crate stays in a template of its record.
\<close>

section \<open>The configuration\<close>

datatype file_or_cert = FileOrCert string

record 'u args =
  arg_config :: string
  arg_address :: string
  arg_internal_address :: string
  arg_max_swap_amount_sat :: u64
  arg_min_utxo_amount_sat :: u64
  arg_lock_time :: u16
  arg_min_confirmations :: u64
  arg_min_claim_blocks :: u32
  arg_network :: network
  arg_dust_limit_sat :: u64
  cln_grpc_address :: "string option"
  cln_grpc_ca_cert :: "file_or_cert option"
  cln_grpc_client_cert :: "file_or_cert option"
  cln_grpc_client_key :: "file_or_cert option"
  lnd_grpc_address :: "string option"
  lnd_grpc_ca_cert :: "file_or_cert option"
  lnd_grpc_macaroon :: "file_or_cert option"
  log_level :: string
  db_url :: string
  bitcoind_rpc_address :: string
  bitcoind_rpc_user :: string
  bitcoind_rpc_password :: string
  chain_poll_interval_seconds :: u64
  claim_poll_interval_seconds :: u64
  payment_poll_interval_seconds :: u64
  preimage_poll_interval_seconds :: u64
  whatthefee_poll_interval_seconds :: u64
  auto_migrate :: bool
  whatthefee_url :: 'u
  no_claim :: bool
  no_chain :: bool
  no_preimage :: bool
  no_servers :: bool
  arg_pay_fee_limit_base_msat :: u64
  arg_pay_fee_limit_ppm :: u64
  arg_pay_timeout_seconds :: u16
  arg_min_viable_cltv :: u32

text \<open>The defaults of the command line; \<open>url\<close> parses an URL.\<close>

definition default_args :: "(string \<Rightarrow> 'u) \<Rightarrow> 'u args" where
  "default_args url =
     \<lparr>arg_config = ''swapd.conf'', arg_address = ''127.0.0.1:58049'', arg_internal_address = ''127.0.0.1:58050'',
      arg_max_swap_amount_sat = 4000000, arg_min_utxo_amount_sat = 1000, arg_lock_time = 1008,
      arg_min_confirmations = 1, arg_min_claim_blocks = 72, arg_network = ''bitcoin'', arg_dust_limit_sat = 546,
      cln_grpc_address = None, cln_grpc_ca_cert = None, cln_grpc_client_cert = None, cln_grpc_client_key = None,
      lnd_grpc_address = None, lnd_grpc_ca_cert = None, lnd_grpc_macaroon = None, log_level = ''info'',
      db_url = [], bitcoind_rpc_address = ''http://localhost:8332'', bitcoind_rpc_user = [],
      bitcoind_rpc_password = [], chain_poll_interval_seconds = 60, claim_poll_interval_seconds = 60,
      payment_poll_interval_seconds = 120, preimage_poll_interval_seconds = 60,
      whatthefee_poll_interval_seconds = 60, auto_migrate = False,
      whatthefee_url = url ''https://whatthefee.io/data.json'', no_claim = False, no_chain = False,
      no_preimage = False, no_servers = False, arg_pay_fee_limit_base_msat = 5000, arg_pay_fee_limit_ppm = 4000,
      arg_pay_timeout_seconds = 120, arg_min_viable_cltv = 40\<rparr>"

text \<open>
  \<open>figment\<close>: the command line first, then the file when it exists, then the environment; \<open>merge\<close> and
  \<open>extract\<close> are the crate's.
\<close>

definition effective_args ::
    "('f \<Rightarrow> 'f \<Rightarrow> 'f) \<Rightarrow> ('f \<Rightarrow> string + 'u args) \<Rightarrow> 'f \<Rightarrow> 'f option \<Rightarrow> 'f \<Rightarrow> string + 'u args" where
  "effective_args merge extract cli file env =
     extract (merge (case file of None \<Rightarrow> cli | Some toml \<Rightarrow> merge cli toml) env)"

section \<open>The lightning node\<close>

record 'w outside =
  connect_db :: "string \<Rightarrow> ('w, string, unit) op"
  migrate :: "('w, string, unit) op"
  read_to_string :: "'w \<Rightarrow> string \<Rightarrow> string option"
  base64_decodes :: "string \<Rightarrow> bool"
  metadata_value :: "string \<Rightarrow> bool"   \<comment> \<open>\<open>MetadataValue<Ascii>\<close> parses\<close>

definition newline :: string where "newline = [CHR 0x0A]"

definition resolve :: "'w outside \<Rightarrow> file_or_cert \<Rightarrow> 'w \<Rightarrow> string" where
  "resolve os c w =
     (case c of FileOrCert s \<Rightarrow>
       let content = (case read_to_string os w s of Some content \<Rightarrow> content | None \<Rightarrow> s) in
       if \<not> base64_decodes os content then content
       else ''-----BEGIN CERTIFICATE-----'' @ newline @ content @ newline @ ''-----END CERTIFICATE-----'' @ newline)"

datatype node_connection =
    ClnConnection (node_address: string) (ca_cert: string) (identity: "string \<times> string")
  | LndConnection (node_address: string) (macaroon: string) (ca_cert: string)

definition resolved :: "'w outside \<Rightarrow> file_or_cert \<Rightarrow> ('w, 'e, string) op" where
  "resolved os c w = (Inr (resolve os c w), w)"

definition required :: "string \<Rightarrow> 'a option \<Rightarrow> ('w, string, 'a) op" where
  "required msg x = lift_res (of_option msg x)"

text \<open>The last check of the LND branch is in \<open>lnd::Client::new\<close>.\<close>

definition choose_node :: "'w outside \<Rightarrow> 'u args \<Rightarrow> ('w, string, node_connection) op" where
  "choose_node os a =
     (case (cln_grpc_address a, lnd_grpc_address a) of
        (Some _, Some _) \<Rightarrow> fail ''cannot have both cln and lnd nodes''
      | (None, None) \<Rightarrow> fail ''a cln or lnd connection needs to be configured''
      | (Some address, None) \<Rightarrow>
          seq (required ''missing required arg cln_grpc_ca_cert'' (cln_grpc_ca_cert a)) (\<lambda>ca.
          seq (required ''missing required arg cln_grpc_client_cert'' (cln_grpc_client_cert a)) (\<lambda>cert.
          seq (required ''missing required arg cln_grpc_client_key'' (cln_grpc_client_key a)) (\<lambda>key.
          seq (resolved os ca) (\<lambda>ca.
          seq (resolved os cert) (\<lambda>cert.
          seq (resolved os key) (\<lambda>key.
          ret (ClnConnection address ca (cert, key))))))))
      | (None, Some address) \<Rightarrow>
          seq (required ''missing required arg lnd_grpc_tls_cert'' (lnd_grpc_ca_cert a)) (\<lambda>ca.
          seq (required ''missing required arg lnd_grpc_macaroon'' (lnd_grpc_macaroon a)) (\<lambda>mac.
          seq (resolved os ca) (\<lambda>ca.
          seq (resolved os mac) (\<lambda>mac.
          if metadata_value os mac then ret (LndConnection address mac ca)
          else fail ''failed to parse metadata value'')))))"

section \<open>The wiring\<close>

text \<open>The state is the world with the last response of whatthefee.io.\<close>

type_synonym 'v daemon = "'v \<times> last_response option"

record ('v, 'u) parts =
  bitcoind :: "string \<Rightarrow> string \<Rightarrow> string \<Rightarrow> network \<Rightarrow> 'v daemon chain_client"
  bitcoind_estimator :: "'v daemon chain_client \<Rightarrow> 'v daemon fee_estimator"
  swap_tables :: "network \<Rightarrow> 'v daemon swap_repository"
  chain_tables :: "network \<Rightarrow> 'v daemon chain_repository"
  claim_tables :: "network \<Rightarrow> 'v daemon claim_repository"
  filter_tables :: "'v daemon chain_filter_repository"
  fill_32 :: "('v daemon, unit, b32) op"
  secret_key :: "b32 \<Rightarrow> seckey option"
  whatthefee_of :: "('v, 'u) whatthefee_estimator"
  swap_service_of :: "'v daemon swap_service"
  chain_filter_of :: "'v daemon chain_filter"
  claim_service_of :: "'v daemon claim_service"
  claim_monitor_of :: "'v daemon claim_monitor"
  chain_monitor_of :: "'v daemon chain_monitor"
  preimage_monitor_of :: "'v daemon preimage_monitor"
  server_of :: "'v daemon swap_server"
  internal_server_of :: "'v daemon internal_server"

definition seconds :: "u64 \<Rightarrow> nat" where "seconds n = unat n"

datatype 'w service =
    is_PaymentMonitorTask: PaymentMonitorTask "'w payment_monitor"
  | ClaimMonitorTask "'w claim_monitor"
  | PreimageMonitorTask "'w preimage_monitor"
  | ChainMonitorTask "'w chain_monitor"
  | SwapServerTask string "'w swap_server"
  | InternalServerTask string "'w internal_server"

definition wired_estimator :: "('v, 'u) parts \<Rightarrow> 'u args \<Rightarrow> ('v, 'u) whatthefee_estimator" where
  "wired_estimator ps a =
     (whatthefee_of ps)\<lparr>wf_url := whatthefee_url a, wf_lock_time := arg_lock_time a,
       wf_poll_interval := seconds (whatthefee_poll_interval_seconds a)\<rparr>"

definition wired_chain_client :: "('v, 'u) parts \<Rightarrow> 'u args \<Rightarrow> 'v daemon chain_client" where
  "wired_chain_client ps a =
     bitcoind ps (bitcoind_rpc_address a) (bitcoind_rpc_user a) (bitcoind_rpc_password a) (arg_network a)"

definition wired_fees :: "('v, 'u) parts \<Rightarrow> 'u args \<Rightarrow> 'v daemon fee_estimator" where
  "wired_fees ps a =
     fallback_estimate_fee (wf_estimate_fee (wired_estimator ps a)) (bitcoind_estimator ps (wired_chain_client ps a))"

definition wired_swap_service :: "('v, 'u) parts \<Rightarrow> 'u args \<Rightarrow> 'v daemon swap_service" where
  "wired_swap_service ps a =
     (swap_service_of ps)\<lparr>dust_limit_sat := arg_dust_limit_sat a, sv_network := arg_network a,
       new_private_key := random_private_key (secret_key ps) (ring_rnd_32 (fill_32 ps)), sv_lock_time := arg_lock_time a\<rparr>"

definition wired_chain_filter :: "('v, 'u) parts \<Rightarrow> 'u args \<Rightarrow> 'v daemon chain_filter" where
  "wired_chain_filter ps a =
     (chain_filter_of ps)\<lparr>cf_chain_client := wired_chain_client ps a, cf_repository := filter_tables ps\<rparr>"

definition wired_claim_service :: "('v, 'u) parts \<Rightarrow> 'u args \<Rightarrow> 'v daemon claim_service" where
  "wired_claim_service ps a =
     (claim_service_of ps)\<lparr>cs_chain_client := wired_chain_client ps a, cs_chain_repository := chain_tables ps (arg_network a),
       cs_claim_repository := claim_tables ps (arg_network a), cs_swap_repository := swap_tables ps (arg_network a),
       cs_swap_service := wired_swap_service ps a\<rparr>"

definition wired_claim_monitor :: "('v, 'u) parts \<Rightarrow> 'u args \<Rightarrow> 'v daemon wallet \<Rightarrow> 'v daemon claim_monitor" where
  "wired_claim_monitor ps a wallet =
     (claim_monitor_of ps)\<lparr>cm_chain_client := wired_chain_client ps a, cm_fee_estimator := wired_fees ps a,
       claim_monitor.cm_poll_interval := seconds (claim_poll_interval_seconds a),
       cm_claim_repository := claim_tables ps (arg_network a), cm_claim_service := wired_claim_service ps a,
       cm_wallet := wallet\<rparr>"

definition wired_chain_monitor :: "('v, 'u) parts \<Rightarrow> 'u args \<Rightarrow> 'v daemon chain_monitor" where
  "wired_chain_monitor ps a =
     (chain_monitor_of ps)\<lparr>cm_network := arg_network a, cm_client := wired_chain_client ps a,
       cm_repository := chain_tables ps (arg_network a),
       chain_monitor.cm_poll_interval := seconds (chain_poll_interval_seconds a),
       cm_full_sync_interval := 60 * 60 * 24\<rparr>"

definition wired_preimage_monitor ::
    "('v, 'u) parts \<Rightarrow> 'u args \<Rightarrow> 'v daemon lightning_client \<Rightarrow> 'v daemon preimage_monitor" where
  "wired_preimage_monitor ps a lightning =
     (preimage_monitor_of ps)\<lparr>qm_chain_repository := chain_tables ps (arg_network a), qm_lightning_client := lightning,
       qm_poll_interval := seconds (preimage_poll_interval_seconds a), qm_swap_repository := swap_tables ps (arg_network a)\<rparr>"

definition wired_payment_monitor ::
    "('v, 'u) parts \<Rightarrow> 'u args \<Rightarrow> 'v daemon lightning_client \<Rightarrow> 'v daemon payment_monitor" where
  "wired_payment_monitor ps a lightning =
     \<lparr>pm_lightning_client = lightning, pm_payment_attempts = [],
      pm_poll_interval = seconds (payment_poll_interval_seconds a), pm_swap_repository = swap_tables ps (arg_network a)\<rparr>"

definition wired_server :: "('v, 'u) parts \<Rightarrow> 'u args \<Rightarrow> 'v daemon lightning_client \<Rightarrow> 'v daemon swap_server" where
  "wired_server ps a lightning =
     (server_of ps)\<lparr>srv_network := arg_network a, max_swap_amount_sat := arg_max_swap_amount_sat a,
       min_confirmations := arg_min_confirmations a, min_claim_blocks := arg_min_claim_blocks a,
       min_utxo_amount_sat := arg_min_utxo_amount_sat a, min_viable_cltv := arg_min_viable_cltv a,
       pay_fee_limit_base_msat := arg_pay_fee_limit_base_msat a, pay_fee_limit_ppm := arg_pay_fee_limit_ppm a,
       pay_timeout_seconds := arg_pay_timeout_seconds a, srv_chain_client := wired_chain_client ps a,
       filter_txos := chain_filter_txos (wired_chain_filter ps a), srv_chain_repository := chain_tables ps (arg_network a),
       srv_lightning_client := lightning, rnd_32 := ring_rnd_32 (fill_32 ps), srv_swap_service := wired_swap_service ps a,
       srv_swap_repository := swap_tables ps (arg_network a), srv_fee_estimator := wired_fees ps a\<rparr>"

definition wired_internal_server ::
    "('v, 'u) parts \<Rightarrow> 'u args \<Rightarrow> 'v daemon wallet \<Rightarrow> 'v daemon internal_server" where
  "wired_internal_server ps a wallet =
     (internal_server_of ps)\<lparr>is_chain_client := wired_chain_client ps a, is_chain_filter_repository := filter_tables ps,
       is_chain_repository := chain_tables ps (arg_network a), is_fee_estimator := wired_fees ps a,
       is_network := arg_network a, is_claim_service := wired_claim_service ps a,
       is_swap_repository := swap_tables ps (arg_network a), is_wallet := wallet\<rparr>"

section \<open>Starting the tasks\<close>

definition flagged_tasks ::
    "('v, 'u) parts \<Rightarrow> 'u args \<Rightarrow> 'v daemon lightning_client \<Rightarrow> 'v daemon wallet \<Rightarrow> 'v daemon service list" where
  "flagged_tasks ps a lightning wallet =
     (if no_claim a then [] else [ClaimMonitorTask (wired_claim_monitor ps a wallet)]) @
     (if no_preimage a then [] else [PreimageMonitorTask (wired_preimage_monitor ps a lightning)]) @
     (if no_chain a then [] else [ChainMonitorTask (wired_chain_monitor ps a)]) @
     (if no_servers a then [] else
        [SwapServerTask (arg_address a) (wired_server ps a lightning),
         InternalServerTask (arg_internal_address a) (wired_internal_server ps a wallet)])"

definition run_with_client ::
    "('v, 'u) parts \<Rightarrow> 'u args \<Rightarrow> 'v daemon lightning_client \<Rightarrow> 'v daemon wallet \<Rightarrow>
     ('v daemon, whatthefee_error, 'v daemon service list) op" where
  "run_with_client ps a lightning wallet =
     seq (wf_start (wired_estimator ps a)) (\<lambda>_.
     attempt (pm_initialize (wired_payment_monitor ps a lightning)) (\<lambda>r.
     ret ((case r of Inr pm \<Rightarrow> [PaymentMonitorTask pm] | Inl e \<Rightarrow> []) @ flagged_tasks ps a lightning wallet)))"

datatype main_error = MainMessage string | MainWhatTheFee whatthefee_error

definition main_run ::
    "'v daemon outside \<Rightarrow> ('v, 'u) parts \<Rightarrow>
     (node_connection \<Rightarrow> network \<Rightarrow> 'v daemon lightning_client \<times> 'v daemon wallet) \<Rightarrow> 'u args \<Rightarrow>
     ('v daemon, main_error, 'v daemon service list) op" where
  "main_run os ps client a =
     seq (map_err MainMessage (connect_db os (db_url a))) (\<lambda>_.
     seq (if auto_migrate a then map_err MainMessage (migrate os) else ret ()) (\<lambda>_.
     seq (map_err MainMessage (choose_node os a)) (\<lambda>node.
     case client node (arg_network a) of (lightning, wallet) \<Rightarrow>
       map_err MainWhatTheFee (run_with_client ps a lightning wallet))))"

section \<open>The life of the process\<close>












lemma claim_monitor_awaits_token:
  "(\<And>w. \<not> token w) \<Longrightarrow> (\<And>d w. \<not> fst (wait d w)) \<Longrightarrow> fst (cm_start n token wait cm w) \<in> {Inl Panic, Inl Diverged}"
  by (induction n arbitrary: w) (auto split: prod.splits sum.splits exn.splits bool.splits, (metis fst_conv)+)

lemma preimage_monitor_awaits_token:
  "(\<And>w. \<not> token w) \<Longrightarrow> (\<And>d w. \<not> fst (wait d w)) \<Longrightarrow> fst (qm_start n token wait qm w) = Inl Diverged"
  by (induction n arbitrary: w) (auto split: prod.splits bool.splits, (metis fst_conv)+)

subsection \<open>The work that is left\<close>





subsection \<open>The tasks and the token\<close>











section \<open>Macaroons in hex\<close>

definition base64_char :: "char \<Rightarrow> bool" where
  "base64_char c \<longleftrightarrow> c \<in> set ''ABCDEFGHIJKLMNOPQRSTUVWXYZabcdefghijklmnopqrstuvwxyz0123456789+/''"

definition hex_char :: "char \<Rightarrow> bool" where
  "hex_char c \<longleftrightarrow> c \<in> set ''0123456789abcdefABCDEF''"

text \<open>What the crates document: the standard alphabet in groups of four decodes, and a metadata value has
  no control characters.\<close>

definition crates_as_documented :: "'w outside \<Rightarrow> bool" where
  "crates_as_documented os \<longleftrightarrow>
     (\<forall>s. length s mod 4 = 0 \<and> list_all base64_char s \<longrightarrow> base64_decodes os s) \<and>
     (\<forall>s. metadata_value os s \<longrightarrow> list_all (\<lambda>c. 32 \<le> (of_char c :: nat)) s)"

definition content_of :: "'w outside \<Rightarrow> file_or_cert \<Rightarrow> 'w \<Rightarrow> string" where
  "content_of os c w = (case c of FileOrCert s \<Rightarrow> (case read_to_string os w s of Some content \<Rightarrow> content | None \<Rightarrow> s))"

lemma hex_is_base64: "hex_char c \<Longrightarrow> base64_char c"
  by (auto simp: hex_char_def base64_char_def)

text \<open>C39: a macaroon in hex, the form the node expects in its metadata, is taken for a base64 certificate
  when the number of its digits is a multiple of four: it is wrapped in certificate lines, and the
  daemon refuses to start.\<close>

theorem hex_macaroon_refused:
  assumes "crates_as_documented os" and "cln_grpc_address a = None" and "lnd_grpc_address a = Some address"
    and "lnd_grpc_ca_cert a = Some ca" and "lnd_grpc_macaroon a = Some mac"
    and "list_all hex_char (content_of os mac w)" and "length (content_of os mac w) mod 4 = 0"
  shows "choose_node os a w = (Inl ''failed to parse metadata value'', w)"
proof -
  have "base64_decodes os (content_of os mac w)"
    using assms(1,6,7) hex_is_base64 by (auto simp: crates_as_documented_def list_all_iff)
  then have "CHR 0x0A \<in> set (resolve os mac w)"
    by (cases mac) (simp add: resolve_def content_of_def newline_def)
  then have "\<not> list_all (\<lambda>c. 32 \<le> (of_char c :: nat)) (resolve os mac w)"
    by (auto simp: list_all_iff intro!: bexI [of _ "CHR 0x0A"])
  then have "\<not> metadata_value os (resolve os mac w)"
    using assms(1) by (auto simp: crates_as_documented_def)
  then show ?thesis
    using assms(2-5) by (simp add: choose_node_def required_def of_option_def resolved_def seq_def)
qed

section \<open>A small configuration\<close>

definition ex_outside :: "unit outside" where
  "ex_outside =
     \<lparr>connect_db = (\<lambda>url. ret ()), migrate = ret (), read_to_string = (\<lambda>w s. if s = ''m'' then Some ''0201036c'' else None),
      base64_decodes = (\<lambda>s. length s mod 4 = 0 \<and> list_all base64_char s),
      metadata_value = list_all (\<lambda>c. 32 \<le> (of_char c :: nat))\<rparr>"

definition ex_args :: "string args" where
  "ex_args = (default_args id)\<lparr>lnd_grpc_address := Some ''localhost:10009'',
     lnd_grpc_ca_cert := Some (FileOrCert ''tls''), lnd_grpc_macaroon := Some (FileOrCert ''m'')\<rparr>"

lemma hex_macaroon_refused_witness:
  "choose_node ex_outside ex_args () = (Inl ''failed to parse metadata value'', ())"
proof (rule hex_macaroon_refused)
  show "crates_as_documented ex_outside" by (simp add: crates_as_documented_def ex_outside_def)
  show "list_all hex_char (content_of ex_outside (FileOrCert ''m'') ())"
    "length (content_of ex_outside (FileOrCert ''m'') ()) mod 4 = 0"
    by (simp_all add: content_of_def ex_outside_def hex_char_def)
qed (simp_all add: ex_args_def default_args_def)




end
