(* ===== verification/Swap_Cli.thy ===== *)
theory Swap_Cli
  imports Internal_Server
begin

text \<open>
  The operator's command line client (\<open>src/swap-cli/src/main.rs\<close>): the commands, each one call of the
  internal server, and the reading of a file of addresses. Parsing of the command line is the crate
  clap's; JSON output and the connection are parameters.
\<close>

section \<open>Lines of a file\<close>

abbreviation line_feed :: char where "line_feed \<equiv> CHR 0x0A"
abbreviation carriage_return :: char where "carriage_return \<equiv> CHR 0x0D"

definition strip_cr :: "string \<Rightarrow> string" where
  "strip_cr l = (if l \<noteq> [] \<and> last l = carriage_return then butlast l else l)"

text \<open>\<open>BufRead::lines\<close>: a line ends with a line feed, which is taken off with a carriage return before
  it; the last line may have none.\<close>

function lines_of :: "string \<Rightarrow> string list" where
  "lines_of s =
     (if s = [] then []
      else case dropWhile (\<lambda>c. c \<noteq> line_feed) s of
        [] \<Rightarrow> [s]
      | nl # rest \<Rightarrow> strip_cr (takeWhile (\<lambda>c. c \<noteq> line_feed) s) # lines_of rest)"
  by pat_completeness auto

termination lines_of
proof (relation "measure length")
  fix s nl rest assume "dropWhile (\<lambda>c. c \<noteq> line_feed) s = nl # rest"
  then have "length (nl # rest) \<le> length s" by (metis length_dropWhile_le)
  then show "(rest, s) \<in> measure length" by simp
qed simp

declare lines_of.simps [simp del]

section \<open>The commands\<close>

datatype cli_command =
    AddressFiltersAdd string
  | CliGetInfo
  | CliGetSwap "string option" "string option" "bytes option"
  | CliListClaimable

datatype cli_error = CliConnect | CliStatus status | CliIo

record 'w cli =
  cli_connect :: "('w, cli_error, unit) op"
  call_add_address_filters :: "string list \<Rightarrow> ('w, status, unit) op"
  call_get_info :: "('w, status, get_info_response) op"
  call_get_swap :: "string option \<Rightarrow> string option \<Rightarrow> bytes option \<Rightarrow> ('w, status, get_swap_response) op"
  call_list_claimable :: "('w, status, claimable_info list) op"
  open_file :: "'w \<Rightarrow> string \<Rightarrow> string option"
  is_utf8 :: "string \<Rightarrow> bool"
  json_info :: "get_info_response \<Rightarrow> string"
  json_swap :: "get_swap_response \<Rightarrow> string"
  json_claimables :: "claimable_info list \<Rightarrow> string"

abbreviation rpc :: "('w, status, 'a) op \<Rightarrow> ('w, cli_error exn, 'a) op" where
  "rpc \<equiv> map_err (Err \<circ> CliStatus)"

text \<open>A file that cannot be opened is a panic; a line that is not UTF-8 is an error.\<close>

definition cli_add_address_filters :: "'w cli \<Rightarrow> string \<Rightarrow> ('w, cli_error exn, unit) op" where
  "cli_add_address_filters cli file w =
     (case open_file cli w file of
        None \<Rightarrow> fail Panic
      | Some content \<Rightarrow>
          seq (lift_res (collect_res (map (\<lambda>l. if is_utf8 cli l then Inr l else Inl (Err CliIo)) (lines_of content))))
            (\<lambda>addresses. rpc (call_add_address_filters cli addresses))) w"

text \<open>What is printed on success.\<close>

definition cli_main :: "'w cli \<Rightarrow> cli_command \<Rightarrow> ('w, cli_error exn, string option) op" where
  "cli_main cli command =
     seq (map_err Err (cli_connect cli)) (\<lambda>_.
     case command of
       AddressFiltersAdd file \<Rightarrow> seq (cli_add_address_filters cli file) (\<lambda>_. ret None)
     | CliGetInfo \<Rightarrow> seq (rpc (call_get_info cli)) (\<lambda>resp. ret (Some (json_info cli resp)))
     | CliGetSwap addr payment_request hash \<Rightarrow>
         seq (rpc (call_get_swap cli addr payment_request hash)) (\<lambda>resp. ret (Some (json_swap cli resp)))
     | CliListClaimable \<Rightarrow> seq (rpc (call_list_claimable cli)) (\<lambda>resp. ret (Some (json_claimables cli resp))))"

section \<open>The client of an internal server\<close>

definition connected :: "'w internal_server \<Rightarrow> 'w cli \<Rightarrow> 'w cli" where
  "connected srv cli =
     cli\<lparr>cli_connect := ret (), call_add_address_filters := add_address_filters srv, call_get_info := get_info srv,
       call_get_swap := get_swap srv, call_list_claimable := list_claimable_handler srv\<rparr>"

definition plain_line :: "string \<Rightarrow> bool" where
  "plain_line l \<longleftrightarrow> line_feed \<notin> set l \<and> carriage_return \<notin> set l"

lemma lines_of_unlines: "list_all plain_line ls \<Longrightarrow> lines_of (concat (map (\<lambda>l. l @ [line_feed]) ls)) = ls"
proof (induction ls)
  case Nil
  then show ?case by (simp add: lines_of.simps)
next
  case (Cons l ls)
  let ?rest = "concat (map (\<lambda>l. l @ [line_feed]) ls)"
  have plain: "line_feed \<notin> set l" "carriage_return \<notin> set l" using Cons.prems by (simp_all add: plain_line_def)
  have l: "\<forall>c\<in>set l. c \<noteq> line_feed" "strip_cr l = l"
    using plain last_in_set [of l] unfolding strip_cr_def by (metis, metis)
  have "dropWhile (\<lambda>c. c \<noteq> line_feed) (l @ line_feed # ?rest) = line_feed # ?rest"
    "takeWhile (\<lambda>c. c \<noteq> line_feed) (l @ line_feed # ?rest) = l"
    using l(1) by (simp_all add: dropWhile_append2 takeWhile_append2)
  with Cons l(2) show ?case by (subst lines_of.simps) simp
qed

text \<open>C40: a list of addresses written to a file, one in a line, reaches the payouts: once the command has
  added it, no output with one of them among the senders of its transaction passes the filter of
  the server, whatever was on the list before.\<close>

theorem filter_file_takes_effect:
  assumes "cli_main (connected srv cli) (AddressFiltersAdd file) (s0, n) = (Inr out, (s, n'))"
    and "open_file cli (s0, n) file = Some (concat (map (\<lambda>a. a @ [line_feed]) as))" and "list_all plain_line as"
    and "\<And>a. a \<in> set as \<Longrightarrow> parse_own_address srv a = Some a"
    and "is_chain_filter_repository srv = cf_repository (pg_chain_filter cc order)"
    and "\<And>ps n. get_sender_addresses cc ps n = (senders ps, n)" and "\<And>ts. mset (order ts) = mset ts"
    and "chain_filter_txos (pg_chain_filter cc order) txos (s, n') = (Inr ts, w)"
  shows "set (pg_data s) = set (pg_data s0) \<union> set as \<and>
    list_all (\<lambda>t. \<exists>from. senders [txo_outpoint t] = Inr from \<and> set from \<inter> set as = {}) ts"
proof -
  have utf8: "collect_res (map (\<lambda>l. if u l then Inr l else Inl e) ls) = Inr rs \<Longrightarrow> rs = ls"
    for u :: "string \<Rightarrow> bool" and e :: "cli_error exn" and ls rs
    by (auto simp: collect_res_Inr list_eq_iff_nth_eq split: if_splits)
  have addrs: "List.map_filter (parse_own_address srv) as = as"
    using assms(4) by (induction as) (simp_all add: List.map_filter_def)
  have "add_address_filters srv as (s0, n) = (Inr (), (s, n'))"
    using assms(1,2,3)
    by (auto simp: cli_main_def connected_def cli_add_address_filters_def run_Inr lines_of_unlines dest!: utf8)
  then have "pg_add_filter_addresses as s0 = (Inr (), s)"
    by (auto simp: add_address_filters_def addrs assms(5) pg_chain_filter_def map_err_Inr_iff on_fst_eq)
  then have rows: "set (pg_data s) = set (pg_data s0) \<union> set as"
    using insert_new_fst_keys [of id "pg_data s0" as]
    by (auto simp: pg_add_filter_addresses_def map_err_Inr_iff dest!: exec_Inr)
  have "ts = filter (\<lambda>t. \<exists>from. senders [txo_outpoint t] = Inr from \<and> set from \<inter> set (pg_data s) = {}) (order txos)"
    using assms(8) by (intro filter_loop_exact [OF _ assms(6), of order _ s n' _ w])
      (simp add: chain_filter_txos_def pg_chain_filter_def)
  then show ?thesis unfolding rows by (auto simp: list_all_iff)
qed

section \<open>A list of one address\<close>

definition ex_filter_server :: "(address list pg \<times> unit) internal_server \<Rightarrow> (address list pg \<times> unit) internal_server" where
  "ex_filter_server srv =
     srv\<lparr>is_chain_filter_repository := cf_repository (pg_chain_filter ex_sender_client rev), is_lib := ex_bitcoin_lib\<rparr>"

definition ex_cli :: "(address list pg \<times> unit) cli \<Rightarrow> (address list pg \<times> unit) cli" where
  "ex_cli cli = cli\<lparr>open_file := (\<lambda>w f. Some (''bad'' @ [line_feed])), is_utf8 := (\<lambda>_. True)\<rparr>"

lemma ex_cli_lines: "lines_of (''bad'' @ [line_feed]) = [''bad'']"
  using lines_of_unlines [of "[''bad'']"] by (simp add: plain_line_def)

lemma ex_cli_run:
  "cli_main (connected (ex_filter_server srv) (ex_cli cli)) (AddressFiltersAdd ''f'')
     (\<lparr>pg_data = [], pg_faults = []\<rparr>, ()) = (Inr None, (ex_filter_db, ()))"
proof -
  have "add_address_filters (ex_filter_server srv) [''bad''] (\<lparr>pg_data = [], pg_faults = []\<rparr>, ()) = (Inr (), (ex_filter_db, ()))"
    using ex_add_filter
    by (simp add: add_address_filters_def ex_filter_server_def parse_own_address_def ex_bitcoin_lib_def
        List.map_filter_def pg_chain_filter_def on_fst_def map_err_def)
  then show ?thesis
    using ex_cli_lines by (simp add: cli_main_def connected_def ex_cli_def cli_add_address_filters_def seq_def map_err_def)
qed

lemma filter_file_takes_effect_witness:
  "\<forall>srv cli. cli_main (connected (ex_filter_server srv) (ex_cli cli)) (AddressFiltersAdd ''f'')
     (\<lparr>pg_data = [], pg_faults = []\<rparr>, ()) = (Inr None, (ex_filter_db, ())) \<and>
     set (pg_data ex_filter_db) = {''bad''}"
proof (intro allI)
  fix srv cli
  have "open_file (ex_cli cli) (\<lparr>pg_data = [], pg_faults = []\<rparr>, ()) ''f'' =
      Some (concat (map (\<lambda>a. a @ [line_feed]) [''bad'']))" by (simp add: ex_cli_def)
  moreover have "list_all plain_line [''bad'']" by (simp add: plain_line_def)
  moreover have "a \<in> set [''bad''] \<Longrightarrow> parse_own_address (ex_filter_server srv) a = Some a" for a
    by (simp add: parse_own_address_def ex_filter_server_def ex_bitcoin_lib_def)
  moreover have "is_chain_filter_repository (ex_filter_server srv) = cf_repository (pg_chain_filter ex_sender_client rev)"
    by (simp add: ex_filter_server_def)
  moreover have "get_sender_addresses ex_sender_client ps n = (ex_senders ps, n)" for ps n
    by (simp add: ex_sender_client_def)
  ultimately have "set (pg_data ex_filter_db) = set (pg_data \<lparr>pg_data = [], pg_faults = []\<rparr>) \<union> set [''bad'']"
    using filter_file_takes_effect [OF ex_cli_run _ _ _ _ _ _ ex_filtered, of cli "[''bad'']" srv ex_senders] by simp
  with ex_cli_run show "cli_main (connected (ex_filter_server srv) (ex_cli cli)) (AddressFiltersAdd ''f'')
     (\<lparr>pg_data = [], pg_faults = []\<rparr>, ()) = (Inr None, (ex_filter_db, ())) \<and> set (pg_data ex_filter_db) = {''bad''}" by simp
qed

end
